(* ===== verification/Prelude.thy ===== *)
theory Prelude
  imports Main "HOL-Library.Word" "HOL-Library.Multiset"
begin

text \<open>
  Shared vocabulary of the development.

  \<^item> Go values that have no direct HOL counterpart: slices that may be nil, errors that carry a
    message and an API status reason, the outcome of a call that may panic, Go maps as association
    lists together with map equality.
  \<^item> The parts of the Go standard library the operator uses on strings: decimal printing,
    \<open>strconv.Quote\<close> (the \<open>%q\<close> verb), \<open>strings.ToLower\<close>, \<open>strings.Title\<close>, \<open>strings.Split\<close> on one
    character and the character classes they need.
  \<^item> The collections of facts that the component theories extend and generic lemmas on lists and
    association lists that several of them use.
\<close>

named_theorems registration_defs \<open>the constructors of the controllers and the event handlers they register\<close>

section \<open>Slices\<close>

text \<open>
  A Go slice is nil or a sequence. Ranging over it and taking its length do not distinguish nil from
  empty, \<open>reflect.DeepEqual\<close> and \<open>encoding/json\<close> do.
\<close>

type_synonym 'a slice = "'a list option"

definition elems :: "'a slice \<Rightarrow> 'a list" where
  "elems s = (case s of None \<Rightarrow> [] | Some xs \<Rightarrow> xs)"

definition append_slice :: "'a slice \<Rightarrow> 'a list \<Rightarrow> 'a slice" where
  \<comment> \<open>\<open>append(s, xs...)\<close>: appending nothing keeps nil, appending something allocates\<close>
  "append_slice s xs = (if xs = [] then s else Some (elems s @ xs))"

lemma elems_simps [simp]:
  "elems None = []" "elems (Some xs) = xs"
  by (simp_all add: elems_def)

lemma elems_append_slice [simp]: "elems (append_slice s xs) = elems s @ xs"
  by (simp add: append_slice_def)

lemma elems_map_option [simp]: "elems (map_option (map f) s) = map f (elems s)"
  by (cases s) simp_all

lemma size_elems [termination_simp]: "size_list size (elems s) \<le> size_option (size_list size) s"
  by (cases s) auto

lemma append_slice_None [simp]: "append_slice None xs = (if xs = [] then None else Some xs)"
  by (simp add: append_slice_def)

section \<open>Errors and outcomes\<close>

text \<open>
  \<open>errors.New\<close> and \<open>fmt.Errorf\<close> make a value that is only its message. The API machinery returns
  \<open>*StatusError\<close>, which has a reason too; \<open>errors.IsNotFound\<close> looks at the reason, and wrapping such
  an error with \<open>fmt.Errorf("... %v", err)\<close> keeps the text and loses the reason.
\<close>

datatype StatusReason = StatusReasonNotFound | StatusReasonAlreadyExists | StatusReasonConflict
  | StatusReasonBadRequest | StatusReasonUnknown

datatype go_error = StatusError StatusReason string | ErrorString string

fun ErrorText :: "go_error \<Rightarrow> string" where
  "ErrorText (StatusError r msg) = msg"
| "ErrorText (ErrorString msg) = msg"

fun IsNotFound :: "go_error \<Rightarrow> bool" where
  "IsNotFound (StatusError r msg) = (r = StatusReasonNotFound)"
| "IsNotFound (ErrorString msg) = False"

text \<open>
  The outcome of a function with an \<open>error\<close> result: it returns nil, it returns an error, or it
  panics on a nil pointer (which ends the process, since no controller recovers).
\<close>

datatype outcome = RetNil | RetErr go_error | Panic

text \<open>A function that returns a value or an error and may dereference nil.\<close>

datatype 'a result = Ok 'a | Err go_error | NilDeref

section \<open>Go maps\<close>

text \<open>
  A Go map with a finite, enumerable key set: an association list whose keys are distinct. Storing
  a key that is present replaces its value in place.
\<close>

fun map_put :: "'k \<Rightarrow> 'v \<Rightarrow> ('k \<times> 'v) list \<Rightarrow> ('k \<times> 'v) list" where
  "map_put k v [] = [(k, v)]"
| "map_put k v ((k', v') # m) = (if k = k' then (k, v) # m else (k', v') # map_put k v m)"

fun map_delete :: "'k \<Rightarrow> ('k \<times> 'v) list \<Rightarrow> ('k \<times> 'v) list" where
  "map_delete k [] = []"
| "map_delete k ((k', v') # m) = (if k = k' then map_delete k m else (k', v') # map_delete k m)"

abbreviation keys :: "('k \<times> 'v) list \<Rightarrow> 'k list" where
  "keys m \<equiv> map fst m"

definition map_equal :: "('k \<times> 'v) list \<Rightarrow> ('k \<times> 'v) list \<Rightarrow> bool" where
  \<comment> \<open>\<open>reflect.DeepEqual\<close> of two maps: the same keys with the same values\<close>
  "map_equal m1 m2 \<longleftrightarrow>
     list_all (\<lambda>k. map_of m1 k = map_of m2 k) (keys m1 @ keys m2)"

lemma map_of_map_put [simp]: "map_of (map_put k v m) = (map_of m)(k \<mapsto> v)"
  by (induction k v m rule: map_put.induct) (auto simp: fun_eq_iff)

lemma set_keys_map_put [simp]: "fst ` set (map_put k v m) = insert k (fst ` set m)"
  by (induction k v m rule: map_put.induct) auto

lemma distinct_keys_map_put [simp]: "distinct (keys (map_put k v m)) = distinct (keys m)"
  by (induction k v m rule: map_put.induct) (auto simp: image_iff)

lemma map_of_map_delete [simp]: "map_of (map_delete k m) = (map_of m)(k := None)"
  by (induction k m rule: map_delete.induct) (auto simp: fun_eq_iff)

lemma map_put_set: "set (map_put k v m) \<subseteq> insert (k, v) (set m)"
  by (induction k v m rule: map_put.induct) auto

lemma map_delete_set: "set (map_delete k m) \<subseteq> set m"
  by (induction k m rule: map_delete.induct) auto

lemma set_keys_map_delete [simp]: "fst ` set (map_delete k m) = fst ` set m - {k}"
  by (induction k m rule: map_delete.induct) auto

lemma distinct_keys_map_delete [simp]:
  "distinct (keys m) \<Longrightarrow> distinct (keys (map_delete k m))"
  by (induction k m rule: map_delete.induct) auto

lemma map_equal_iff: "map_equal m1 m2 \<longleftrightarrow> map_of m1 = map_of m2"
proof
  assume eq: "map_equal m1 m2"
  show "map_of m1 = map_of m2"
  proof
    fix k
    show "map_of m1 k = map_of m2 k"
    proof (cases "k \<in> set (keys m1 @ keys m2)")
      case True
      then show ?thesis using eq by (auto simp: map_equal_def list_all_iff)
    next
      case False
      then show ?thesis by (simp add: map_of_eq_None_iff [THEN iffD2])
    qed
  qed
qed (simp add: map_equal_def list_all_iff)

lemma map_equal_refl [simp]: "map_equal m m"
  by (simp add: map_equal_iff)

lemma distinct_keys_subset_length:
  assumes "distinct (keys m)" and "set (keys m) = set (keys n)" and "distinct (keys n)"
  shows "length m = length n"
  using assms by (metis distinct_card length_map)

section \<open>Strings\<close>

text \<open>
  A Go string is a sequence of bytes, here a HOL \<open>string\<close>. Object names, namespaces, labels and
  addresses are ASCII (the API server validates them), which is the range on which the functions
  below are exact.
\<close>

fun digits10 :: "nat \<Rightarrow> string" where
  "digits10 n =
     (if n < 10 then [char_of (48 + n)] else digits10 (n div 10) @ [char_of (48 + n mod 10)])"

declare digits10.simps [simp del]

definition Itoa :: "int \<Rightarrow> string" where
  "Itoa i = (if i < 0 then CHR ''-'' # digits10 (nat (- i)) else digits10 (nat i))"

definition Sprint_int32 :: "32 word \<Rightarrow> string" where
  "Sprint_int32 w = Itoa (sint w)"

definition hexdigit :: "nat \<Rightarrow> char" where
  "hexdigit n = (if n < 10 then char_of (48 + n) else char_of (87 + n))"

definition is_upper :: "char \<Rightarrow> bool" where
  "is_upper c \<longleftrightarrow> 65 \<le> (of_char c :: nat) \<and> (of_char c :: nat) \<le> 90"

definition is_lower :: "char \<Rightarrow> bool" where
  "is_lower c \<longleftrightarrow> 97 \<le> (of_char c :: nat) \<and> (of_char c :: nat) \<le> 122"

definition to_lower :: "char \<Rightarrow> char" where
  "to_lower c = (if is_upper c then char_of ((of_char c :: nat) + 32) else c)"

definition to_upper :: "char \<Rightarrow> char" where
  "to_upper c = (if is_lower c then char_of ((of_char c :: nat) - 32) else c)"

definition ToLower :: "string \<Rightarrow> string" where
  "ToLower s = map to_lower s"

definition is_word_char :: "char \<Rightarrow> bool" where
  "is_word_char c \<longleftrightarrow> is_upper c \<or> is_lower c \<or> c = CHR ''_''
     \<or> (48 \<le> (of_char c :: nat) \<and> (of_char c :: nat) \<le> 57)"

fun title_from :: "bool \<Rightarrow> string \<Rightarrow> string" where
  \<comment> \<open>the flag: the previous character is a separator\<close>
  "title_from sep [] = []"
| "title_from sep (c # s) =
     (if sep then to_upper c else c) # title_from (\<not> is_word_char c) s"

definition Title :: "string \<Rightarrow> string" where
  "Title s = title_from True s"

fun quote_char :: "char \<Rightarrow> string" where
  "quote_char c =
     (let n = (of_char c :: nat) in
      if n = 34 then [CHR 0x5C, CHR 0x22]
      else if n = 92 then [CHR 0x5C, CHR 0x5C]
      else if n = 7 then [CHR 0x5C, CHR ''a'']
      else if n = 8 then [CHR 0x5C, CHR ''b'']
      else if n = 12 then [CHR 0x5C, CHR ''f'']
      else if n = 10 then [CHR 0x5C, CHR ''n'']
      else if n = 13 then [CHR 0x5C, CHR ''r'']
      else if n = 9 then [CHR 0x5C, CHR ''t'']
      else if n = 11 then [CHR 0x5C, CHR ''v'']
      else if n < 32 \<or> n = 127 then [CHR 0x5C, CHR ''x'', hexdigit (n div 16), hexdigit (n mod 16)]
      else [c])"

definition Quote :: "string \<Rightarrow> string" where
  \<comment> \<open>the verb \<open>%q\<close>\<close>
  "Quote s = [CHR 0x22] @ concat (map quote_char s) @ [CHR 0x22]"

fun Split :: "char \<Rightarrow> string \<Rightarrow> string list" where
  \<comment> \<open>\<open>strings.Split\<close> at a one-character separator: always at least one part\<close>
  "Split sep [] = [[]]"
| "Split sep (c # s) =
     (if c = sep then [] # Split sep s
      else (case Split sep s of [] \<Rightarrow> [[c]] | p # ps \<Rightarrow> (c # p) # ps))"

lemma Split_no_sep: "sep \<notin> set s \<Longrightarrow> Split sep s = [s]"
  by (induction s) auto

lemma Split_append_sep:
  "sep \<notin> set s \<Longrightarrow> Split sep (s @ sep # t) = s # Split sep t"
  by (induction s) auto

lemma Split_not_Nil [simp]: "Split sep s \<noteq> []"
  by (induction s) (auto split: list.split)

lemma length_Split: "length (Split sep s) = Suc (count_list s sep)"
  by (induction s) (auto split: list.split)

section \<open>Lists\<close>

lemma filter_neq_Nil_iff: "filter P xs \<noteq> [] \<longleftrightarrow> (\<exists>x \<in> set xs. P x)"
  by (induction xs) auto

lemma filter_singleton_subset:
  "filter P xs = [x] \<Longrightarrow> x \<in> set xs \<and> P x"
proof -
  assume "filter P xs = [x]"
  then have "x \<in> set (filter P xs)" by simp
  then show ?thesis by simp
qed

lemma ran_delete_unique:
  assumes "f i = Some x" and "\<And>j. j \<noteq> i \<Longrightarrow> f j \<noteq> Some x"
  shows "ran (f(i := None)) = ran f - {x}"
proof -
  have "y \<in> ran (f(i := None)) \<longleftrightarrow> y \<in> ran f \<and> y \<noteq> x" for y
    using assms by (auto simp: ran_def) (metis option.inject)
  then show ?thesis by auto
qed

lemma append_sep_eq:
  "x \<notin> set a \<Longrightarrow> x \<notin> set b \<Longrightarrow> a @ x # c = b @ x # d \<longleftrightarrow> a = b \<and> c = d"
proof (induction a arbitrary: b)
  case Nil
  then show ?case by (cases b) auto
next
  case (Cons y a)
  then show ?case by (cases b) auto
qed

lemma perm_set: "mset xs = mset ys \<Longrightarrow> set xs = set ys"
  by (rule mset_eq_setD)

lemma perm_distinct: "mset xs = mset ys \<Longrightarrow> distinct xs = distinct ys"
  by (rule mset_eq_imp_distinct_iff)

end
