(* ===== verification/KubeTypes.thy ===== *)
theory KubeTypes
  imports Prelude
begin

text \<open>
  The Kubernetes API types the operator reads and writes, and the small helpers of the vendored API
  machinery it calls on them: \<open>metav1.GetControllerOf\<close>, \<open>IsControlledBy\<close>, \<open>NewControllerRef\<close>
  (controller\_ref.go), \<open>IntOrString.String\<close> (intstr.go), the cache key functions (store.go,
  controller.go) and label selectors (helpers.go, selector.go).

  A record has the fields that the operator reads, writes or compares; every other field of the Go
  struct travels in one opaque \<open>Rest\<close> field, so that copying and comparing whole objects keeps
  its meaning.
\<close>

section \<open>Metadata\<close>

record OwnerReference =
  ref_APIVersion :: string
  ref_Kind :: string
  ref_Name :: string
  ref_UID :: string
  ref_Controller :: "bool option"
  ref_BlockOwnerDeletion :: "bool option"

record ObjectMeta =
  om_Name :: string
  om_GenerateName :: string
  om_Namespace :: string
  om_UID :: string
  om_ResourceVersion :: string
  om_Generation :: "64 word"
  om_CreationTimestamp :: int
  om_Labels :: "(string \<times> string) list"
  om_OwnerReferences :: "OwnerReference list"
  om_Rest :: string

definition zero_meta :: ObjectMeta where
  \<comment> \<open>the zero value \<open>metav1.ObjectMeta{}\<close>\<close>
  "zero_meta = \<lparr>om_Name = [], om_GenerateName = [], om_Namespace = [], om_UID = [],
     om_ResourceVersion = [], om_Generation = 0, om_CreationTimestamp = 0, om_Labels = [],
     om_OwnerReferences = [], om_Rest = []\<rparr>"

record GroupVersionKind =
  gvk_Group :: string
  gvk_Version :: string
  gvk_Kind :: string

definition GroupVersionString :: "string \<Rightarrow> string \<Rightarrow> string" where
  \<comment> \<open>\<open>GroupVersion.String\<close>\<close>
  "GroupVersionString grp version =
     (if grp = [] \<and> version = [] then []
      else if grp = [] \<and> version = ''v1'' then version
      else if grp \<noteq> [] then grp @ ''/'' @ version
      else version)"

fun first_controller :: "OwnerReference list \<Rightarrow> OwnerReference option" where
  "first_controller [] = None"
| "first_controller (ref # refs) =
     (if ref_Controller ref = Some True then Some ref else first_controller refs)"

definition GetControllerOf :: "ObjectMeta \<Rightarrow> OwnerReference option" where
  "GetControllerOf m = first_controller (om_OwnerReferences m)"

definition IsControlledBy :: "ObjectMeta \<Rightarrow> ObjectMeta \<Rightarrow> bool" where
  "IsControlledBy m owner =
     (case GetControllerOf m of None \<Rightarrow> False | Some ref \<Rightarrow> ref_UID ref = om_UID owner)"

definition NewControllerRef :: "ObjectMeta \<Rightarrow> GroupVersionKind \<Rightarrow> OwnerReference" where
  "NewControllerRef owner gvk =
     \<lparr>ref_APIVersion = GroupVersionString (gvk_Group gvk) (gvk_Version gvk),
      ref_Kind = gvk_Kind gvk, ref_Name = om_Name owner, ref_UID = om_UID owner,
      ref_Controller = Some True, ref_BlockOwnerDeletion = Some True\<rparr>"

section \<open>Integers or strings\<close>

record IntOrString =
  is_Type :: int
  is_IntVal :: "32 word"
  is_StrVal :: string

definition IntstrInt :: int where "IntstrInt = 0"
definition IntstrString :: int where "IntstrString = 1"

definition IntOrStringText :: "IntOrString \<Rightarrow> string" where
  \<comment> \<open>\<open>IntOrString.String\<close>: \<open>IntValue\<close> is \<open>int(IntVal)\<close> when the type is not \<open>String\<close>\<close>
  "IntOrStringText v = (if is_Type v = IntstrString then is_StrVal v else Sprint_int32 (is_IntVal v))"

section \<open>Services, endpoints, config maps\<close>

record ServicePort =
  sp_Name :: string
  sp_Protocol :: string
  sp_Port :: "32 word"
  sp_TargetPort :: IntOrString

record Service =
  svc_Meta :: ObjectMeta
  svc_Selector :: "(string \<times> string) list"
  svc_Type :: string
  svc_Ports :: "ServicePort list"
  svc_Rest :: string

record EndpointAddress =
  ea_IP :: string
  ea_Rest :: string

record EndpointPort =
  epp_Name :: string
  epp_Port :: "32 word"
  epp_Protocol :: string

record EndpointSubset =
  ss_Addresses :: "EndpointAddress slice"
  ss_Ports :: "EndpointPort slice"
  ss_Rest :: string

record Endpoints =
  eps_Meta :: ObjectMeta
  eps_Subsets :: "EndpointSubset slice"

record ConfigMap =
  cm_APIVersion :: string
  cm_Kind :: string
  cm_Meta :: ObjectMeta
  cm_Data :: "(string \<times> string) list"
  cm_Rest :: string

section \<open>Workloads\<close>

record SecurityContext =
  sc_RunAsNonRoot :: "bool option"
  sc_ReadOnlyRootFilesystem :: "bool option"
  sc_Rest :: string

record ContainerPort =
  cp_Name :: string
  cp_ContainerPort :: "32 word"

record VolumeMount =
  vm_Name :: string
  vm_MountPath :: string

record Container =
  ct_Name :: string
  ct_Image :: string
  ct_Command :: "string list"
  ct_Args :: "string list"
  ct_Ports :: "ContainerPort list"
  ct_VolumeMounts :: "VolumeMount list"
  ct_SecurityContext :: "SecurityContext option"
  ct_Rest :: string

record ConfigMapVolumeSource =
  cmv_Name :: string
  cmv_Rest :: string

record Volume =
  v_Name :: string
  v_ConfigMap :: "ConfigMapVolumeSource option"
  v_EmptyDir :: bool
  v_Rest :: string

record PodTemplateSpec =
  pt_Meta :: ObjectMeta
  pt_Containers :: "Container list"
  pt_Volumes :: "Volume list"
  pt_Rest :: string

datatype LabelSelectorOperator = OpIn | OpNotIn | OpExists | OpDoesNotExist | OpOther string

record LabelSelectorRequirement =
  lsr_Key :: string
  lsr_Operator :: LabelSelectorOperator
  lsr_Values :: "string list"

record LabelSelector =
  ls_MatchLabels :: "(string \<times> string) list"
  ls_MatchExpressions :: "LabelSelectorRequirement list"

record Deployment =
  d_Meta :: ObjectMeta
  d_Replicas :: "32 word option"
  d_Selector :: "LabelSelector option"
  d_Template :: PodTemplateSpec
  d_Rest :: string

record ReplicaSet =
  rs_Meta :: ObjectMeta
  rs_Template :: PodTemplateSpec
  rs_Rest :: string

section \<open>Label selectors\<close>

text \<open>
  \<open>labels.NewRequirement\<close> rejects keys and values that are not syntactically valid labels. The two
  validators are regular expressions of the vendored validation package; they are the parameters
  \<open>vk\<close> and \<open>vv\<close> here.
\<close>

datatype requirement = ReqIn string "string list" | ReqNotIn string "string list"
  | ReqExists string | ReqDoesNotExist string

datatype selector = Nothing | Everything | Requirements "requirement list"

fun req_matches :: "requirement \<Rightarrow> (string \<times> string) list \<Rightarrow> bool" where
  "req_matches (ReqIn k vs) ls = (case map_of ls k of None \<Rightarrow> False | Some v \<Rightarrow> v \<in> set vs)"
| "req_matches (ReqNotIn k vs) ls = (case map_of ls k of None \<Rightarrow> True | Some v \<Rightarrow> v \<notin> set vs)"
| "req_matches (ReqExists k) ls = (map_of ls k \<noteq> None)"
| "req_matches (ReqDoesNotExist k) ls = (map_of ls k = None)"

fun Matches :: "selector \<Rightarrow> (string \<times> string) list \<Rightarrow> bool" where
  "Matches Nothing ls = False"
| "Matches Everything ls = True"
| "Matches (Requirements rs) ls = list_all (\<lambda>r. req_matches r ls) rs"

definition invalid_label :: go_error where
  "invalid_label = ErrorString ''invalid label''"

definition NewRequirement ::
  "(string \<Rightarrow> bool) \<Rightarrow> (string \<Rightarrow> bool) \<Rightarrow> string \<Rightarrow> LabelSelectorOperator \<Rightarrow> string list
     \<Rightarrow> go_error + requirement" where
  "NewRequirement vk vv k oper vals =
     (if \<not> vk k then Inl invalid_label
      else case oper of
        OpIn \<Rightarrow>
          (if vals = [] then Inl (ErrorString
             ''for 'in', 'notin' operators, values set can't be empty'')
           else if list_all vv vals then Inr (ReqIn k vals) else Inl invalid_label)
      | OpNotIn \<Rightarrow>
          (if vals = [] then Inl (ErrorString
             ''for 'in', 'notin' operators, values set can't be empty'')
           else if list_all vv vals then Inr (ReqNotIn k vals) else Inl invalid_label)
      | OpExists \<Rightarrow>
          (if vals \<noteq> [] then Inl (ErrorString
             ''values set must be empty for exists and does not exist'')
           else Inr (ReqExists k))
      | OpDoesNotExist \<Rightarrow>
          (if vals \<noteq> [] then Inl (ErrorString
             ''values set must be empty for exists and does not exist'')
           else Inr (ReqDoesNotExist k))
      | OpOther s \<Rightarrow> Inl (ErrorString (''operator '' @ s @ '' is not recognized'')))"

fun selector_labels ::
  "(string \<Rightarrow> bool) \<Rightarrow> (string \<Rightarrow> bool) \<Rightarrow> (string \<times> string) list \<Rightarrow> go_error + requirement list"
where
  "selector_labels vk vv [] = Inr []"
| "selector_labels vk vv ((k, v) # kvs) =
     (case NewRequirement vk vv k OpIn [v] of
        Inl e \<Rightarrow> Inl e
      | Inr r \<Rightarrow> (case selector_labels vk vv kvs of Inl e \<Rightarrow> Inl e | Inr rs \<Rightarrow> Inr (r # rs)))"

fun selector_exprs ::
  "(string \<Rightarrow> bool) \<Rightarrow> (string \<Rightarrow> bool) \<Rightarrow> LabelSelectorRequirement list
     \<Rightarrow> go_error + requirement list"
where
  "selector_exprs vk vv [] = Inr []"
| "selector_exprs vk vv (e # es) =
     (case lsr_Operator e of
        OpOther s \<Rightarrow> Inl (ErrorString (Quote s @ '' is not a valid pod selector operator''))
      | oper \<Rightarrow>
          (case NewRequirement vk vv (lsr_Key e) oper (lsr_Values e) of
             Inl err \<Rightarrow> Inl err
           | Inr r \<Rightarrow> (case selector_exprs vk vv es of Inl err \<Rightarrow> Inl err | Inr rs \<Rightarrow> Inr (r # rs))))"

definition LabelSelectorAsSelector ::
  "(string \<Rightarrow> bool) \<Rightarrow> (string \<Rightarrow> bool) \<Rightarrow> LabelSelector option \<Rightarrow> go_error + selector" where
  "LabelSelectorAsSelector vk vv ps =
     (case ps of
        None \<Rightarrow> Inr Nothing
      | Some s \<Rightarrow>
          (if ls_MatchLabels s = [] \<and> ls_MatchExpressions s = [] then Inr Everything
           else case selector_labels vk vv (ls_MatchLabels s) of
                  Inl e \<Rightarrow> Inl e
                | Inr rs \<Rightarrow>
                    (case selector_exprs vk vv (ls_MatchExpressions s) of
                       Inl e \<Rightarrow> Inl e
                     | Inr rs' \<Rightarrow> Inr (Requirements (rs @ rs')))))"

section \<open>Objects handed to event handlers and their cache keys\<close>

text \<open>
  An informer hands its handlers an \<open>interface{}\<close>: an API object, or a
  \<open>DeletedFinalStateUnknown\<close> tombstone when the deletion itself was missed. Endpoints are kept
  whole because their handler reads the subsets; of the other objects the handlers read metadata
  only.
\<close>

datatype event_obj =
    MetaObj ObjectMeta
  | EndpointsObj Endpoints
  | DeletedFinalStateUnknown string event_obj
  | ForeignObj string

fun accessor :: "event_obj \<Rightarrow> ObjectMeta option" where
  \<comment> \<open>\<open>meta.Accessor\<close> and the assertion \<open>obj.(metav1.Object)\<close>\<close>
  "accessor (MetaObj m) = Some m"
| "accessor (EndpointsObj e) = Some (eps_Meta e)"
| "accessor (DeletedFinalStateUnknown k x) = None"
| "accessor (ForeignObj s) = None"

definition meta_key :: "ObjectMeta \<Rightarrow> string" where
  "meta_key m = (if om_Namespace m \<noteq> [] then om_Namespace m @ ''/'' @ om_Name m else om_Name m)"

definition MetaNamespaceKeyFunc :: "event_obj \<Rightarrow> go_error + string" where
  "MetaNamespaceKeyFunc obj =
     (case accessor obj of
        None \<Rightarrow> Inl (ErrorString ''object has no meta: object does not implement the Object interfaces'')
      | Some m \<Rightarrow> Inr (meta_key m))"

fun DeletionHandlingMetaNamespaceKeyFunc :: "event_obj \<Rightarrow> go_error + string" where
  "DeletionHandlingMetaNamespaceKeyFunc (DeletedFinalStateUnknown k x) = Inr k"
| "DeletionHandlingMetaNamespaceKeyFunc obj = MetaNamespaceKeyFunc obj"

definition SplitMetaNamespaceKey :: "string \<Rightarrow> go_error + string \<times> string" where
  "SplitMetaNamespaceKey key =
     (case Split (CHR ''/'') key of
        [name] \<Rightarrow> Inr ([], name)
      | [ns, name] \<Rightarrow> Inr (ns, name)
      | _ \<Rightarrow> Inl (ErrorString (''unexpected key format: '' @ Quote key)))"

section \<open>Lemmas\<close>

lemma first_controller_Some:
  "first_controller refs = Some ref \<Longrightarrow> ref \<in> set refs \<and> ref_Controller ref = Some True"
  by (induction refs) (auto split: if_splits)

lemma first_controller_None:
  "first_controller refs = None \<longleftrightarrow> (\<forall>ref \<in> set refs. ref_Controller ref \<noteq> Some True)"
  by (induction refs) auto

lemma first_controller_append:
  "first_controller (refs @ refs') =
     (case first_controller refs of None \<Rightarrow> first_controller refs' | Some r \<Rightarrow> Some r)"
  by (induction refs) auto

lemma GetControllerOf_single:
  "om_OwnerReferences m = [ref] \<Longrightarrow>
     GetControllerOf m = (if ref_Controller ref = Some True then Some ref else None)"
  by (simp add: GetControllerOf_def)

lemma IsControlledBy_iff:
  "IsControlledBy m owner \<longleftrightarrow>
     (\<exists>ref. GetControllerOf m = Some ref \<and> ref_UID ref = om_UID owner)"
  by (auto simp: IsControlledBy_def split: option.splits)

lemma SplitMetaNamespaceKey_pair:
  assumes "CHR ''/'' \<notin> set ns" and "CHR ''/'' \<notin> set name"
  shows "SplitMetaNamespaceKey (ns @ ''/'' @ name) = Inr (ns, name)"
  using assms by (simp add: SplitMetaNamespaceKey_def Split_append_sep Split_no_sep)

lemma SplitMetaNamespaceKey_name:
  assumes "CHR ''/'' \<notin> set name"
  shows "SplitMetaNamespaceKey name = Inr ([], name)"
  using assms by (simp add: SplitMetaNamespaceKey_def Split_no_sep)

lemma selector_labels_Inr:
  assumes "\<forall>(k, v) \<in> set kvs. vk k \<and> vv v"
  shows "selector_labels vk vv kvs = Inr (map (\<lambda>(k, v). ReqIn k [v]) kvs)"
  using assms by (induction kvs) (auto simp: NewRequirement_def)

lemma Matches_own_labels:
  assumes "distinct (keys kvs)"
  shows "Matches (Requirements (map (\<lambda>(k, v). ReqIn k [v]) kvs)) kvs"
  using assms by (auto simp: list_all_iff)

end
