(* ===== verification/ApiTypes.thy ===== *)
theory ApiTypes
  imports KubeTypes
begin

text \<open>
  The custom resource of the operator: internal/apis/ianlewis.org/v1alpha1/types.go with its
  defaulting methods, the group and version of register.go, and the generated deep copies.

  \<open>ApplyDefaults\<close> mutates through pointers. The rule tree needs care: \<open>RuleSpec.ApplyDefaults\<close> ranges
  over \<open>r.Children\<close> by value, so for a child it runs on a copy of the struct. What it assigns to the
  copy (\<open>Type\<close>) is lost, what it assigns through the copy's \<open>*ServiceSpec\<close> (\<open>Namespace\<close>) stays. The
  function \<open>ApplyDefaultsToCopy\<close> is that visible effect of the method on a copy; theory \<open>ProxyHeap\<close>
  derives it from a model with an explicit store.
\<close>

section \<open>Types\<close>

definition ReplicatedRuleType :: string where "ReplicatedRuleType = ''replicated''"
definition ShardedRuleType :: string where "ShardedRuleType = ''sharded''"

record ServiceSpec =
  ss_Name :: string
  ss_Namespace :: string
  ss_Port :: IntOrString

datatype RuleSpec = RuleSpec (rs_Type: string) (rs_Service: "ServiceSpec option")
  (rs_Children: "RuleSpec list option")

record McRouterSpec =
  mr_Image :: string
  mr_Resources :: string
  mr_Port :: "32 word option"
  mr_SecurityContext :: "SecurityContext option"
  mr_StatsRoot :: string

record MemcachedProxySpec =
  spec_Rules :: RuleSpec
  spec_McRouter :: McRouterSpec

record MemcachedProxyStatus =
  st_ObservedGeneration :: "64 word"

record MemcachedProxy =
  mp_APIVersion :: string
  mp_Kind :: string
  mp_Meta :: ObjectMeta
  mp_Spec :: MemcachedProxySpec
  mp_Status :: MemcachedProxyStatus

section \<open>Group, version and kind\<close>

definition GroupName :: string where "GroupName = ''ianlewis.org''"

definition SchemeVersion :: string where "SchemeVersion = ''v1alpha1''"

definition WithKind :: "string \<Rightarrow> GroupVersionKind" where
  "WithKind k = \<lparr>gvk_Group = GroupName, gvk_Version = SchemeVersion, gvk_Kind = k\<rparr>"

definition SchemeGroupVersionString :: string where
  "SchemeGroupVersionString = GroupVersionString GroupName SchemeVersion"

section \<open>Defaulting\<close>

definition ServiceSpec_ApplyDefaults :: "string \<Rightarrow> ServiceSpec \<Rightarrow> ServiceSpec" where
  \<comment> \<open>the first argument is \<open>p.Namespace\<close>\<close>
  "ServiceSpec_ApplyDefaults ns s = (if ss_Namespace s = [] then s\<lparr>ss_Namespace := ns\<rparr> else s)"

primrec ApplyDefaultsToCopy :: "string \<Rightarrow> RuleSpec \<Rightarrow> RuleSpec" where
  "ApplyDefaultsToCopy ns (RuleSpec t s cs) =
     RuleSpec t (map_option (ServiceSpec_ApplyDefaults ns) s)
       (map_option (map (ApplyDefaultsToCopy ns)) cs)"

fun RuleSpec_ApplyDefaults :: "string \<Rightarrow> RuleSpec \<Rightarrow> RuleSpec" where
  "RuleSpec_ApplyDefaults ns (RuleSpec t s cs) =
     RuleSpec (if t = [] then ShardedRuleType else t) (map_option (ServiceSpec_ApplyDefaults ns) s)
       (map_option (map (ApplyDefaultsToCopy ns)) cs)"

definition DefaultImage :: string where "DefaultImage = ''ianmlewis/mcrouter:v0.36.0-2''"
definition DefaultStatsRoot :: string where "DefaultStatsRoot = ''/var/mcrouter/stats''"

definition DefaultSecurityContext :: SecurityContext where
  "DefaultSecurityContext =
     \<lparr>sc_RunAsNonRoot = Some True, sc_ReadOnlyRootFilesystem = Some True, sc_Rest = []\<rparr>"

definition McRouterSpec_ApplyDefaults :: "McRouterSpec \<Rightarrow> McRouterSpec" where
  "McRouterSpec_ApplyDefaults s =
     (let s1 = (if mr_Image s = [] then s\<lparr>mr_Image := DefaultImage\<rparr> else s);
          s2 = (if mr_Port s1 = None then s1\<lparr>mr_Port := Some 11211\<rparr> else s1);
          s3 = (if mr_StatsRoot s2 = [] then s2\<lparr>mr_StatsRoot := DefaultStatsRoot\<rparr> else s2)
      in if mr_SecurityContext s3 = None
         then s3\<lparr>mr_SecurityContext := Some DefaultSecurityContext\<rparr> else s3)"

definition MemcachedProxySpec_ApplyDefaults :: "string \<Rightarrow> MemcachedProxySpec \<Rightarrow> MemcachedProxySpec"
where
  "MemcachedProxySpec_ApplyDefaults ns s =
     (let s1 = s\<lparr>spec_McRouter := McRouterSpec_ApplyDefaults (spec_McRouter s)\<rparr>
      in s1\<lparr>spec_Rules := RuleSpec_ApplyDefaults ns (spec_Rules s1)\<rparr>)"

definition ApplyDefaults :: "MemcachedProxy \<Rightarrow> MemcachedProxy" where
  "ApplyDefaults p =
     p\<lparr>mp_Spec := MemcachedProxySpec_ApplyDefaults (om_Namespace (mp_Meta p)) (mp_Spec p)\<rparr>"

section \<open>Well-formedness\<close>

text \<open>
  \<open>rule_services\<close> lists every service of a rule tree, at any depth and whether or not a rule above
  it hides it. \<open>defaulted\<close> is what the other controllers rely on once a proxy's generation has been
  observed.
\<close>

primrec rule_services :: "RuleSpec \<Rightarrow> ServiceSpec list" where
  "rule_services (RuleSpec t s cs) =
     (case s of None \<Rightarrow> [] | Some svc \<Rightarrow> [svc])
     @ concat (elems (map_option (map rule_services) cs))"

primrec rule_types :: "RuleSpec \<Rightarrow> string list" where
  \<comment> \<open>the types of a rule and of all rules below it, in preorder\<close>
  "rule_types (RuleSpec t s cs) = t # concat (elems (map_option (map rule_types) cs))"

definition mcrouter_defaulted :: "McRouterSpec \<Rightarrow> bool" where
  "mcrouter_defaulted s \<longleftrightarrow> mr_Image s \<noteq> [] \<and> mr_Port s \<noteq> None \<and> mr_StatsRoot s \<noteq> []
     \<and> mr_SecurityContext s \<noteq> None"

definition defaulted :: "MemcachedProxy \<Rightarrow> bool" where
  "defaulted p \<longleftrightarrow> mcrouter_defaulted (spec_McRouter (mp_Spec p))
     \<and> rs_Type (spec_Rules (mp_Spec p)) \<noteq> []
     \<and> list_all (\<lambda>s. ss_Namespace s \<noteq> []) (rule_services (spec_Rules (mp_Spec p)))"

definition example_proxy :: MemcachedProxy where
  \<comment> \<open>docs/combined-example.yaml with the types of the child rules left out\<close>
  "example_proxy =
     \<lparr>mp_APIVersion = ''ianlewis.org/v1alpha1'', mp_Kind = ''MemcachedProxy'',
      mp_Meta = zero_meta\<lparr>om_Name := ''example'', om_Namespace := ''default'', om_UID := ''uid-1'',
        om_Generation := 1\<rparr>,
      mp_Spec = \<lparr>
        spec_Rules = RuleSpec ''replicated'' None (Some
          [RuleSpec [] (Some \<lparr>ss_Name = ''sharded1-memcached'', ss_Namespace = [],
             ss_Port = \<lparr>is_Type = 0, is_IntVal = 11211, is_StrVal = []\<rparr>\<rparr>) None,
           RuleSpec [] (Some \<lparr>ss_Name = ''sharded2-memcached'', ss_Namespace = [],
             ss_Port = \<lparr>is_Type = 0, is_IntVal = 11211, is_StrVal = []\<rparr>\<rparr>) None]),
        spec_McRouter = \<lparr>mr_Image = [], mr_Resources = [], mr_Port = None,
          mr_SecurityContext = None, mr_StatsRoot = []\<rparr>\<rparr>,
      mp_Status = \<lparr>st_ObservedGeneration = 0\<rparr>\<rparr>"

section \<open>Lemmas\<close>

lemma ServiceSpec_ApplyDefaults_idem [simp]:
  "ServiceSpec_ApplyDefaults ns (ServiceSpec_ApplyDefaults ns s) = ServiceSpec_ApplyDefaults ns s"
  by (simp add: ServiceSpec_ApplyDefaults_def)

lemma ServiceSpec_ApplyDefaults_Namespace:
  "ss_Namespace (ServiceSpec_ApplyDefaults ns s) = (if ss_Namespace s = [] then ns else ss_Namespace s)"
  by (simp add: ServiceSpec_ApplyDefaults_def)

lemma ServiceSpec_ApplyDefaults_keeps [simp]:
  "ss_Name (ServiceSpec_ApplyDefaults ns s) = ss_Name s"
  "ss_Port (ServiceSpec_ApplyDefaults ns s) = ss_Port s"
  by (simp_all add: ServiceSpec_ApplyDefaults_def)

lemma option_map_map_cong:
  "(\<And>x. x \<in> set (elems s) \<Longrightarrow> f x = g x) \<Longrightarrow> map_option (map f) s = map_option (map g) s"
  by (cases s) simp_all

lemma RuleSpec_induct [case_names RuleSpec]:
  assumes "\<And>t s cs. (\<And>c. c \<in> set (elems cs) \<Longrightarrow> P c) \<Longrightarrow> P (RuleSpec t s cs)"
  shows "P r"
proof (induction r)
  case (RuleSpec t s cs)
  show ?case
    by (rule assms) (use RuleSpec in \<open>auto simp: elems_def split: option.splits\<close>)
qed

lemma ApplyDefaultsToCopy_idem [simp]:
  "ApplyDefaultsToCopy ns (ApplyDefaultsToCopy ns r) = ApplyDefaultsToCopy ns r"
proof (induction r rule: RuleSpec_induct)
  case (RuleSpec t s cs)
  then show ?case
    by (cases s; cases cs) (auto simp: option.map_comp comp_def)
qed

lemma rule_types_ApplyDefaultsToCopy [simp]:
  "rule_types (ApplyDefaultsToCopy ns r) = rule_types r"
proof (induction r rule: RuleSpec_induct)
  case (RuleSpec t s cs)
  then show ?case by (cases cs) (auto simp: comp_def intro!: arg_cong [where f = concat])
qed

lemma rule_services_ApplyDefaultsToCopy:
  "rule_services (ApplyDefaultsToCopy ns r) = map (ServiceSpec_ApplyDefaults ns) (rule_services r)"
proof (induction r rule: RuleSpec_induct)
  case (RuleSpec t s cs)
  then show ?case
    by (cases cs; cases s) (auto simp: map_concat comp_def intro!: arg_cong [where f = concat])
qed

lemma rule_services_ApplyDefaults:
  "rule_services (RuleSpec_ApplyDefaults ns r) = map (ServiceSpec_ApplyDefaults ns) (rule_services r)"
proof -
  obtain t s cs where r: "r = RuleSpec t s cs" by (cases r)
  have "rule_services (RuleSpec_ApplyDefaults ns r) = rule_services (ApplyDefaultsToCopy ns r)"
    by (simp add: r)
  then show ?thesis by (simp add: rule_services_ApplyDefaultsToCopy)
qed

lemma rule_types_ApplyDefaults:
  "rule_types (RuleSpec_ApplyDefaults ns r) =
     (if rs_Type r = [] then ShardedRuleType else rs_Type r) # tl (rule_types r)"
proof -
  obtain t s cs where r: "r = RuleSpec t s cs" by (cases r)
  have "rule_types (ApplyDefaultsToCopy ns r) = rule_types r" by simp
  then show ?thesis by (simp add: r)
qed

lemma RuleSpec_ApplyDefaults_idem [simp]:
  "RuleSpec_ApplyDefaults ns (RuleSpec_ApplyDefaults ns r) = RuleSpec_ApplyDefaults ns r"
  by (cases r) (auto simp: ShardedRuleType_def option.map_comp comp_def)

lemma rs_Type_ApplyDefaults:
  "rs_Type (RuleSpec_ApplyDefaults ns r) = (if rs_Type r = [] then ShardedRuleType else rs_Type r)"
  by (cases r) simp

lemma McRouterSpec_ApplyDefaults_defaulted: "mcrouter_defaulted (McRouterSpec_ApplyDefaults s)"
  by (simp add: mcrouter_defaulted_def McRouterSpec_ApplyDefaults_def Let_def DefaultImage_def
      DefaultStatsRoot_def)

lemma McRouterSpec_ApplyDefaults_noop:
  "mcrouter_defaulted s \<Longrightarrow> McRouterSpec_ApplyDefaults s = s"
  by (auto simp: mcrouter_defaulted_def McRouterSpec_ApplyDefaults_def)

lemma ApplyDefaults_Meta [simp]:
  "mp_Meta (ApplyDefaults p) = mp_Meta p" "mp_Status (ApplyDefaults p) = mp_Status p"
  by (simp_all add: ApplyDefaults_def)

lemma ApplyDefaults_Rules:
  "spec_Rules (mp_Spec (ApplyDefaults p)) =
     RuleSpec_ApplyDefaults (om_Namespace (mp_Meta p)) (spec_Rules (mp_Spec p))"
  by (simp add: ApplyDefaults_def MemcachedProxySpec_ApplyDefaults_def Let_def)

lemma ApplyDefaults_McRouter:
  "spec_McRouter (mp_Spec (ApplyDefaults p)) = McRouterSpec_ApplyDefaults (spec_McRouter (mp_Spec p))"
  by (simp add: ApplyDefaults_def MemcachedProxySpec_ApplyDefaults_def Let_def)

lemma ApplyDefaults_idem: "ApplyDefaults (ApplyDefaults p) = ApplyDefaults p"
proof -
  have "McRouterSpec_ApplyDefaults (McRouterSpec_ApplyDefaults s) = McRouterSpec_ApplyDefaults s" for s
    by (rule McRouterSpec_ApplyDefaults_noop [OF McRouterSpec_ApplyDefaults_defaulted])
  then show ?thesis
    by (simp add: ApplyDefaults_def MemcachedProxySpec_ApplyDefaults_def Let_def)
qed

lemma ApplyDefaults_defaulted: "om_Namespace (mp_Meta p) \<noteq> [] \<Longrightarrow> defaulted (ApplyDefaults p)"
  by (auto simp: defaulted_def ApplyDefaults_McRouter ApplyDefaults_Rules list_all_iff
      McRouterSpec_ApplyDefaults_defaulted rs_Type_ApplyDefaults rule_services_ApplyDefaults
      ServiceSpec_ApplyDefaults_Namespace ShardedRuleType_def)

section \<open>Properties\<close>

text \<open>
  Defaulting is idempotent: a proxy that went through \<open>ApplyDefaults\<close> is a fixed point of it, so
  the proxy controller, which calls it on every sync, reaches a state it no longer changes.
\<close>

theorem ApplyDefaults_idempotent: "ApplyDefaults (ApplyDefaults p) = ApplyDefaults p"
  by (rule ApplyDefaults_idem)

text \<open>
  C38. After defaulting, a namespaced proxy satisfies what the other controllers dereference without
  a check: image, port, stats root and security context are set, the root rule has a type, and every
  service at every depth of the rule tree has a namespace.
\<close>

theorem ApplyDefaults_establishes_defaulted:
  assumes "om_Namespace (mp_Meta p) \<noteq> []"
  shows "defaulted (ApplyDefaults p)"
  using assms by (rule ApplyDefaults_defaulted)

theorem ApplyDefaults_establishes_defaulted_witness:
  "om_Namespace (mp_Meta example_proxy) \<noteq> [] \<and> defaulted (ApplyDefaults example_proxy)"
proof -
  have "om_Namespace (mp_Meta example_proxy) \<noteq> []"
    by (simp add: example_proxy_def)
  then show ?thesis using ApplyDefaults_establishes_defaulted by blast
qed

text \<open>
  Defaulting never touches the type of a nested rule: the types of all rules below the root are
  the same before and after. docs/memcachedproxy-crd.md says the default type is "sharded" for a
  routing rule, so an omitted type below the root stays empty (see the routing properties for what
  follows).
\<close>

theorem ApplyDefaults_keeps_nested_types:
  "rule_types (spec_Rules (mp_Spec (ApplyDefaults p))) =
     (if rs_Type (spec_Rules (mp_Spec p)) = [] then ShardedRuleType
      else rs_Type (spec_Rules (mp_Spec p))) # tl (rule_types (spec_Rules (mp_Spec p)))"
  by (simp add: ApplyDefaults_Rules rule_types_ApplyDefaults)

end
