(* ===== verification/Sha1.thy ===== *)
theory Sha1
  imports Prelude
begin

unbundle bit_operations_syntax

text \<open>
  The Go packages crypto/sha1 and encoding/hex, as far as the operator uses them: the digest of the
  bytes written to a hasher, and its lower-case hexadecimal text. The digest follows FIPS 180-4, which
  crypto/sha1 implements. The definitions are executable; nothing in the development depends on the
  value of a particular digest, only on its length, its alphabet and on being a function of the bytes.
\<close>

section \<open>The digest\<close>

type_synonym w32 = "32 word"

definition be_bytes :: "nat \<Rightarrow> nat \<Rightarrow> nat list" where
  \<comment> \<open>the \<open>n\<close> low bytes of a number, most significant first\<close>
  "be_bytes n x = map (\<lambda>i. (x div 256 ^ i) mod 256) (rev [0..<n])"

definition pad :: "nat list \<Rightarrow> nat list" where
  "pad msg =
     (let m = length msg mod 64; zeros = (if m < 56 then 55 - m else 119 - m)
      in msg @ [128] @ replicate zeros 0 @ be_bytes 8 (8 * length msg))"

fun be_words :: "nat list \<Rightarrow> w32 list" where
  "be_words (a # b # c # d # bs) =
     word_of_nat (((a * 256 + b) * 256 + c) * 256 + d) # be_words bs"
| "be_words bs = []"

fun schedule :: "nat \<Rightarrow> w32 list \<Rightarrow> w32 list" where
  \<comment> \<open>extends the message schedule, which is kept newest word first\<close>
  "schedule 0 ws = ws"
| "schedule (Suc n) ws =
     schedule n (word_rotl 1 (ws ! 2 XOR ws ! 7 XOR ws ! 13 XOR ws ! 15) # ws)"

type_synonym digest = "w32 \<times> w32 \<times> w32 \<times> w32 \<times> w32"

fun round_fk :: "nat \<Rightarrow> w32 \<Rightarrow> w32 \<Rightarrow> w32 \<Rightarrow> w32" where
  "round_fk t b c d =
     (if t < 20 then ((b AND c) OR (NOT b AND d)) + 0x5A827999
      else if t < 40 then (b XOR c XOR d) + 0x6ED9EBA1
      else if t < 60 then ((b AND c) OR (b AND d) OR (c AND d)) + 0x8F1BBCDC
      else (b XOR c XOR d) + 0xCA62C1D6)"

fun rounds :: "nat \<Rightarrow> w32 list \<Rightarrow> digest \<Rightarrow> digest" where
  "rounds t [] h = h"
| "rounds t (w # ws) (a, b, c, d, e) =
     rounds (Suc t) ws (word_rotl 5 a + round_fk t b c d + e + w, a, word_rotl 30 b, c, d)"

fun add_digest :: "digest \<Rightarrow> digest \<Rightarrow> digest" where
  "add_digest (a, b, c, d, e) (a', b', c', d', e') = (a + a', b + b', c + c', d + d', e + e')"

definition block :: "digest \<Rightarrow> nat list \<Rightarrow> digest" where
  "block h bs = add_digest h (rounds 0 (rev (schedule 64 (rev (be_words bs)))) h)"

fun blocks :: "nat \<Rightarrow> digest \<Rightarrow> nat list \<Rightarrow> digest" where
  \<comment> \<open>the first argument is the number of 64-byte blocks\<close>
  "blocks 0 h bs = h"
| "blocks (Suc n) h bs = blocks n (block h (take 64 bs)) (drop 64 bs)"

definition init_digest :: digest where
  "init_digest = (0x67452301, 0xEFCDAB89, 0x98BADCFE, 0x10325476, 0xC3D2E1F0)"

fun digest_bytes :: "digest \<Rightarrow> nat list" where
  "digest_bytes (a, b, c, d, e) = concat (map (\<lambda>w. be_bytes 4 (unat w)) [a, b, c, d, e])"

definition sha1_sum :: "string \<Rightarrow> nat list" where
  "sha1_sum s =
     (let bs = pad (map of_char s) in digest_bytes (blocks (length bs div 64) init_digest bs))"

section \<open>Hexadecimal text\<close>

fun EncodeToString :: "nat list \<Rightarrow> string" where
  "EncodeToString [] = []"
| "EncodeToString (b # bs) = hexdigit (b div 16) # hexdigit (b mod 16) # EncodeToString bs"

definition sha1_hex :: "string \<Rightarrow> string" where
  "sha1_hex s = EncodeToString (sha1_sum s)"

section \<open>Lemmas\<close>

definition is_hex :: "char \<Rightarrow> bool" where
  "is_hex c \<longleftrightarrow> (48 \<le> (of_char c :: nat) \<and> (of_char c :: nat) \<le> 57)
     \<or> (97 \<le> (of_char c :: nat) \<and> (of_char c :: nat) \<le> 102)"

lemma length_be_bytes [simp]: "length (be_bytes n x) = n"
  by (simp add: be_bytes_def)

lemma be_bytes_bound: "b \<in> set (be_bytes n x) \<Longrightarrow> b < 256"
  by (auto simp: be_bytes_def)

lemma pad_length_dvd: "64 dvd length (pad msg)"
proof -
  define q m where "q = length msg div 64" and "m = length msg mod 64"
  then have len: "length msg = 64 * q + m" and m: "m < 64" by simp_all
  have "length (pad msg) = 64 * (q + (if m < 56 then 1 else 2))"
    using m by (simp add: pad_def Let_def len)
  then show ?thesis by simp
qed

lemma length_sha1_sum [simp]: "length (sha1_sum s) = 20"
proof -
  have "length (digest_bytes h) = 20" for h
    by (cases h) simp
  then show ?thesis by (simp add: sha1_sum_def Let_def)
qed

lemma sha1_sum_bound: "b \<in> set (sha1_sum s) \<Longrightarrow> b < 256"
proof -
  have "b < 256" if "b \<in> set (digest_bytes h)" for h
    using that by (cases h) (auto dest: be_bytes_bound)
  then show "b \<in> set (sha1_sum s) \<Longrightarrow> b < 256"
    by (simp add: sha1_sum_def Let_def)
qed

lemma length_EncodeToString [simp]: "length (EncodeToString bs) = 2 * length bs"
  by (induction bs rule: EncodeToString.induct) simp_all

lemma is_hex_hexdigit: "n < 16 \<Longrightarrow> is_hex (hexdigit n)"
  by (auto simp: is_hex_def hexdigit_def)

lemma is_hex_EncodeToString:
  "\<forall>b \<in> set bs. b < 256 \<Longrightarrow> \<forall>c \<in> set (EncodeToString bs). is_hex c"
  by (induction bs rule: EncodeToString.induct) (auto intro!: is_hex_hexdigit)

lemma length_sha1_hex [simp]: "length (sha1_hex s) = 40"
  by (simp add: sha1_hex_def)

lemma is_hex_sha1_hex: "c \<in> set (sha1_hex s) \<Longrightarrow> is_hex c"
  using is_hex_EncodeToString [of "sha1_sum s"] by (auto simp: sha1_hex_def dest: sha1_sum_bound)

lemma to_lower_is_hex: "is_hex c \<Longrightarrow> to_lower c = c"
  by (auto simp: is_hex_def to_lower_def is_upper_def)

end
