(* ===== verification/Naming.thy ===== *)
theory Naming
  imports ApiTypes Sha1
begin

text \<open>
  Names and owner references: internal/controller/names.go, internal/controller/meta.go,
  internal/util/ownerref/ownerref.go and internal/util/hash/hash.go.
\<close>

section \<open>Names\<close>

definition MakeName :: "string \<Rightarrow> string list \<Rightarrow> string" where
  \<comment> \<open>the values are written to the hasher one after the other; \<open>hash[2:7]\<close> is \<open>take 5 (drop 2 hash)\<close>,
      within bounds because the text has 40 characters (\<open>length_sha1_hex\<close>)\<close>
  "MakeName prefix hashValues =
     (let hash = sha1_hex (concat hashValues) in prefix @ ToLower (take 5 (drop 2 hash)))"

definition GetProxyServiceName :: "MemcachedProxy \<Rightarrow> string" where
  "GetProxyServiceName p =
     MakeName (om_Name (mp_Meta p) @ ''-memcached-'') [om_Name (mp_Meta p)]"

definition GetProxyServiceSelector :: "MemcachedProxy \<Rightarrow> (string \<times> string) list" where
  "GetProxyServiceSelector p =
     [(''memcached-operator'', ''true''),
      (''mcrouter'', MakeName (om_Name (mp_Meta p) @ ''-'') [om_Namespace (mp_Meta p), om_Name (mp_Meta p)])]"

definition poolNameForServiceSpec :: "ServiceSpec \<Rightarrow> string" where
  "poolNameForServiceSpec s =
     MakeName [] [ss_Name s, ss_Namespace s, IntOrStringText (ss_Port s)]"

section \<open>Owner references\<close>

definition NewProxyOwnerRef :: "MemcachedProxy \<Rightarrow> OwnerReference" where
  "NewProxyOwnerRef c =
     (let controllerKind = WithKind ''MemcachedProxy'' in
      \<lparr>ref_APIVersion = GroupVersionString (gvk_Group controllerKind) (gvk_Version controllerKind),
       ref_Kind = gvk_Kind controllerKind, ref_Name = om_Name (mp_Meta c),
       ref_UID = om_UID (mp_Meta c),
       ref_Controller = Some True, ref_BlockOwnerDeletion = Some True\<rparr>)"

definition IsOwnedBy :: "ObjectMeta \<Rightarrow> ObjectMeta \<Rightarrow> bool" where
  "IsOwnedBy obj owner = list_ex (\<lambda>ref. ref_UID ref = om_UID owner) (om_OwnerReferences obj)"

definition NewOwnerRef :: "ObjectMeta \<Rightarrow> GroupVersionKind \<Rightarrow> OwnerReference" where
  "NewOwnerRef owner gvk =
     \<lparr>ref_APIVersion = GroupVersionString (gvk_Group gvk) (gvk_Version gvk),
      ref_Kind = gvk_Kind gvk, ref_Name = om_Name owner, ref_UID = om_UID owner,
      ref_Controller = Some False, ref_BlockOwnerDeletion = Some True\<rparr>"

section \<open>Hash values\<close>

fun hexdigits :: "nat \<Rightarrow> string" where
  "hexdigits n = (if n < 16 then [hexdigit n] else hexdigits (n div 16) @ [hexdigit (n mod 16)])"

declare hexdigits.simps [simp del]

definition GetHash :: "('o \<Rightarrow> go_error + 64 word) \<Rightarrow> 'o \<Rightarrow> string \<times> go_error option" where
  \<comment> \<open>the parameter is \<open>hashstructure.Hash(o, nil)\<close>\<close>
  "GetHash Hash obj =
     (case Hash obj of
        Inl err \<Rightarrow> ([], Some err)
      | Inr h \<Rightarrow> (hexdigits (unat h), None))"

section \<open>Lemmas\<close>

lemma MakeName_suffix:
  "\<exists>h. MakeName prefix vals = prefix @ h \<and> length h = 5 \<and> list_all is_hex h"
proof -
  define h where "h = take 5 (drop 2 (sha1_hex (concat vals)))"
  have hex: "\<forall>c \<in> set h. is_hex c"
    unfolding h_def by (meson in_set_dropD in_set_takeD is_hex_sha1_hex)
  then have "ToLower h = h"
    by (auto simp: ToLower_def intro!: map_idI to_lower_is_hex)
  then have "MakeName prefix vals = prefix @ h"
    by (simp add: MakeName_def h_def)
  moreover have "length h = 5" by (simp add: h_def)
  ultimately show ?thesis using hex by (auto simp: list_all_iff)
qed

lemma length_MakeName [simp]: "length (MakeName prefix vals) = length prefix + 5"
  using MakeName_suffix [of prefix vals] by auto

lemma MakeName_prefix: "take (length prefix) (MakeName prefix vals) = prefix"
  using MakeName_suffix [of prefix vals] by auto

lemma MakeName_concat_cong: "concat vs = concat ws \<Longrightarrow> MakeName prefix vs = MakeName prefix ws"
  by (simp add: MakeName_def)

lemma MakeName_no_slash:
  "CHR ''/'' \<notin> set prefix \<Longrightarrow> CHR ''/'' \<notin> set (MakeName prefix vals)"
proof -
  have "\<not> is_hex (CHR ''/'')" by (simp add: is_hex_def)
  then show "CHR ''/'' \<notin> set prefix \<Longrightarrow> ?thesis"
    using MakeName_suffix [of prefix vals] by (auto simp: list_all_iff)
qed

lemma MakeName_inj_prefix:
  assumes "MakeName prefix vs = MakeName prefix' ws"
  shows "prefix = prefix'"
proof -
  obtain h h' where "MakeName prefix vs = prefix @ h" "length h = 5"
    "MakeName prefix' ws = prefix' @ h'" "length h' = 5"
    using MakeName_suffix by metis
  with assms show ?thesis by (metis append_eq_append_conv)
qed

lemma distinct_keys_selector [simp]: "distinct (keys (GetProxyServiceSelector p))"
  by (simp add: GetProxyServiceSelector_def)

lemma NewProxyOwnerRef_simps [simp]:
  "ref_UID (NewProxyOwnerRef p) = om_UID (mp_Meta p)"
  "ref_Name (NewProxyOwnerRef p) = om_Name (mp_Meta p)"
  "ref_Controller (NewProxyOwnerRef p) = Some True"
  "ref_Kind (NewProxyOwnerRef p) = ''MemcachedProxy''"
  "ref_APIVersion (NewProxyOwnerRef p) = SchemeGroupVersionString"
  by (simp_all add: NewProxyOwnerRef_def WithKind_def SchemeGroupVersionString_def Let_def)

lemma NewProxyOwnerRef_eq_NewControllerRef:
  "NewProxyOwnerRef p = NewControllerRef (mp_Meta p) (WithKind ''MemcachedProxy'')"
  by (simp add: NewProxyOwnerRef_def NewControllerRef_def Let_def)

lemma IsControlledBy_NewProxyOwnerRef:
  "om_OwnerReferences m = [NewProxyOwnerRef p] \<Longrightarrow> IsControlledBy m (mp_Meta p)"
  by (simp add: IsControlledBy_def GetControllerOf_single)

lemma IsControlledBy_IsOwnedBy: "IsControlledBy m owner \<Longrightarrow> IsOwnedBy m owner"
  by (auto simp: IsControlledBy_iff IsOwnedBy_def GetControllerOf_def list_ex_iff
      dest!: first_controller_Some)

section \<open>Properties\<close>

text \<open>
  A generated name is the prefix followed by exactly five characters of the digest, each a
  lower-case hexadecimal digit, so it stays a valid Kubernetes name and the slice \<open>hash[2:7]\<close> is
  always in bounds.
\<close>

theorem MakeName_shape:
  "take (length prefix) (MakeName prefix vals) = prefix
   \<and> length (MakeName prefix vals) = length prefix + 5
   \<and> list_all is_hex (drop (length prefix) (MakeName prefix vals))"
  using MakeName_suffix [of prefix vals] by auto

text \<open>
  \<open>poolNameForServiceSpec\<close> does not give "a unique pool name for each service and port
  combination", as its comment says: the name, the namespace and the port are hashed without a
  separator. Moving characters from the end of the name to the front of the namespace gives another
  service with the same pool name, whatever the hash function does.
\<close>

theorem poolName_ambiguous:
  "poolNameForServiceSpec \<lparr>ss_Name = n @ x, ss_Namespace = m, ss_Port = q\<rparr>
     = poolNameForServiceSpec \<lparr>ss_Name = n, ss_Namespace = x @ m, ss_Port = q\<rparr>"
  by (simp add: poolNameForServiceSpec_def MakeName_def)

end
