(* ===== verification/Indexer.thy ===== *)
theory Indexer
  imports KubeTypes
begin

text \<open>
  The shared caches: vendor/k8s.io/client-go/tools/cache/thread\_safe\_store.go and store.go (a map from
  cache keys to objects with an index by namespace), \<open>ListAllByNamespace\<close> of listers.go, and the namespace
  listers generated over them (internal/client/listers and vendor/k8s.io/client-go/listers have the same
  two methods for every type).

  main.go creates every informer with the one indexer \<open>NamespaceIndex\<close>, so the index is a map from a
  namespace to a set of keys. Objects are Go pointers: a lister returns the cached object itself, and
  \<open>ix_mutate\<close> is what assigning to its fields does, without re-indexing.

  Go's map iteration order is unspecified. Every operation that ranges over a map takes the order as a
  parameter \<open>ord\<close>, a function from the keys to the sequence in which they are visited; the properties
  hold for every \<open>ord\<close> that permutes its argument.
\<close>

section \<open>The store\<close>

record 'a indexer =
  ix_items :: "(string \<times> 'a) list"
  ix_index :: "(string \<times> string list) list"

definition new_indexer :: "'a indexer" where
  "new_indexer = \<lparr>ix_items = [], ix_index = []\<rparr>"

definition index_keys :: "'a indexer \<Rightarrow> string \<Rightarrow> string list" where
  \<comment> \<open>\<open>index[indexValue]\<close>: a missing set is an empty one\<close>
  "index_keys ix ns = (case map_of (ix_index ix) ns of None \<Rightarrow> [] | Some ks \<Rightarrow> ks)"

definition deleteFromIndices :: "string \<Rightarrow> string \<Rightarrow> 'a indexer \<Rightarrow> 'a indexer" where
  "deleteFromIndices ns key ix =
     (case map_of (ix_index ix) ns of
        None \<Rightarrow> ix
      | Some ks \<Rightarrow> ix\<lparr>ix_index := map_put ns (removeAll key ks) (ix_index ix)\<rparr>)"

definition updateIndices ::
  "('a \<Rightarrow> ObjectMeta) \<Rightarrow> 'a option \<Rightarrow> 'a \<Rightarrow> string \<Rightarrow> 'a indexer \<Rightarrow> 'a indexer" where
  "updateIndices mt oldObj newObj key ix =
     (let ix1 = (case oldObj of None \<Rightarrow> ix | Some old \<Rightarrow> deleteFromIndices (om_Namespace (mt old)) key ix);
          ns = om_Namespace (mt newObj);
          ks = index_keys ix1 ns
      in ix1\<lparr>ix_index := map_put ns (if key \<in> set ks then ks else ks @ [key]) (ix_index ix1)\<rparr>)"

definition ix_Add :: "('a \<Rightarrow> ObjectMeta) \<Rightarrow> 'a \<Rightarrow> 'a indexer \<Rightarrow> 'a indexer" where
  "ix_Add mt obj ix =
     (let key = meta_key (mt obj);
          oldObject = map_of (ix_items ix) key;
          ix1 = ix\<lparr>ix_items := map_put key obj (ix_items ix)\<rparr>
      in updateIndices mt oldObject obj key ix1)"

definition ix_Delete :: "('a \<Rightarrow> ObjectMeta) \<Rightarrow> 'a \<Rightarrow> 'a indexer \<Rightarrow> 'a indexer" where
  "ix_Delete mt obj ix =
     (let key = meta_key (mt obj) in
      case map_of (ix_items ix) key of
        None \<Rightarrow> ix
      | Some old \<Rightarrow>
          (let ix1 = deleteFromIndices (om_Namespace (mt old)) key ix
           in ix1\<lparr>ix_items := map_delete key (ix_items ix1)\<rparr>))"

definition ix_GetByKey :: "string \<Rightarrow> 'a indexer \<Rightarrow> 'a option" where
  "ix_GetByKey key ix = map_of (ix_items ix) key"

definition ix_mutate :: "string \<Rightarrow> ('a \<Rightarrow> 'a) \<Rightarrow> 'a indexer \<Rightarrow> 'a indexer" where
  "ix_mutate key f ix =
     (case map_of (ix_items ix) key of
        None \<Rightarrow> ix
      | Some obj \<Rightarrow> ix\<lparr>ix_items := map_put key (f obj) (ix_items ix)\<rparr>)"

section \<open>Listing\<close>

definition no_meta :: go_error where
  "no_meta = ErrorString ''object does not implement the Object interfaces''"

fun append_matching ::
  "('a \<Rightarrow> ObjectMeta) \<Rightarrow> selector \<Rightarrow> 'a option list \<Rightarrow> go_error + 'a list" where
  \<comment> \<open>the loop with \<open>meta.Accessor(m)\<close>, which fails on nil\<close>
  "append_matching mt sel [] = Inr []"
| "append_matching mt sel (None # ms) = Inl no_meta"
| "append_matching mt sel (Some m # ms) =
     (case append_matching mt sel ms of
        Inl e \<Rightarrow> Inl e
      | Inr ret \<Rightarrow> Inr (if Matches sel (om_Labels (mt m)) then m # ret else ret))"

definition ListAllByNamespace ::
  "(string list \<Rightarrow> string list) \<Rightarrow> ('a \<Rightarrow> ObjectMeta) \<Rightarrow> 'a indexer \<Rightarrow> string \<Rightarrow> selector
     \<Rightarrow> go_error + 'a list" where
  \<comment> \<open>the namespace index always exists, so the fallback for a missing index is not reached\<close>
  "ListAllByNamespace ord mt ix ns sel =
     append_matching mt sel
       (map (map_of (ix_items ix))
          (ord (if ns = [] then keys (ix_items ix) else index_keys ix ns)))"

definition NewNotFound :: "string \<Rightarrow> string \<Rightarrow> go_error" where
  "NewNotFound resource name = StatusError StatusReasonNotFound (resource @ '' '' @ Quote name @ '' not found'')"

definition lister_Get :: "string \<Rightarrow> 'a indexer \<Rightarrow> string \<Rightarrow> string \<Rightarrow> go_error + 'a" where
  "lister_Get resource ix ns name =
     (case ix_GetByKey (ns @ ''/'' @ name) ix of
        None \<Rightarrow> Inl (NewNotFound resource name)
      | Some obj \<Rightarrow> Inr obj)"

section \<open>The invariant\<close>

definition ix_inv :: "('a \<Rightarrow> ObjectMeta) \<Rightarrow> 'a indexer \<Rightarrow> bool" where
  \<comment> \<open>every object is stored under its own key, and the index lists, once each, the keys of the objects
      of a namespace\<close>
  "ix_inv mt ix \<longleftrightarrow>
     distinct (keys (ix_items ix))
     \<and> (\<forall>(k, x) \<in> set (ix_items ix). k = meta_key (mt x))
     \<and> (\<forall>ns. distinct (index_keys ix ns)
           \<and> set (index_keys ix ns) = {k. \<exists>x. (k, x) \<in> set (ix_items ix) \<and> om_Namespace (mt x) = ns})"

definition objects :: "'a indexer \<Rightarrow> 'a set" where
  "objects ix = snd ` set (ix_items ix)"

definition permutes_order :: "(string list \<Rightarrow> string list) \<Rightarrow> bool" where
  "permutes_order ord \<longleftrightarrow> (\<forall>ks. mset (ord ks) = mset ks)"

section \<open>What a lister promises\<close>

text \<open>
  The contract of a namespace lister, over any store: it returns the objects of the namespace (of all
  namespaces, for the empty one) that match the selector. The client functions of operator.go filter
  such a list by owner; \<open>owned_list\<close> is proved once here.
\<close>

locale namespace_lister =
  fixes nlist :: "'s \<Rightarrow> string \<Rightarrow> selector \<Rightarrow> go_error + 'a list"
    and objs :: "'s \<Rightarrow> 'a set"
    and mt :: "'a \<Rightarrow> ObjectMeta"
    and sinv :: "'s \<Rightarrow> bool"
  assumes list_total: "sinv s \<Longrightarrow> \<exists>xs. nlist s ns sel = Inr xs"
    and list_set: "sinv s \<Longrightarrow> nlist s ns sel = Inr xs \<Longrightarrow>
      set xs = {x \<in> objs s. (ns = [] \<or> om_Namespace (mt x) = ns) \<and> Matches sel (om_Labels (mt x))}"
    and list_distinct: "sinv s \<Longrightarrow> nlist s ns sel = Inr xs \<Longrightarrow> distinct xs"
begin

lemma everything:
  assumes "sinv s"
  obtains xs where "nlist s ns Everything = Inr xs" and "distinct xs"
    and "set xs = {x \<in> objs s. ns = [] \<or> om_Namespace (mt x) = ns}"
proof -
  obtain xs where xs: "nlist s ns Everything = Inr xs" using list_total [OF assms] by blast
  have "set xs = {x \<in> objs s. ns = [] \<or> om_Namespace (mt x) = ns}"
    using list_set [OF assms xs] by simp
  then show ?thesis using that [OF xs list_distinct [OF assms xs]] by blast
qed

lemma owned_list:
  assumes "sinv s" and "nlist s ns Everything = Inr xs"
  shows "set (filter (\<lambda>x. IsControlledBy (mt x) owner) xs) =
    {x \<in> objs s. (ns = [] \<or> om_Namespace (mt x) = ns) \<and> IsControlledBy (mt x) owner}"
  using list_set [OF assms] by auto

end

section \<open>Lemmas\<close>

lemma ix_inv_empty: "ix_inv mt new_indexer"
  by (simp add: ix_inv_def new_indexer_def index_keys_def)

lemma ix_inv_distinct: "ix_inv mt ix \<Longrightarrow> distinct (keys (ix_items ix))"
  by (simp add: ix_inv_def)

lemma ix_inv_key: "ix_inv mt ix \<Longrightarrow> (k, x) \<in> set (ix_items ix) \<Longrightarrow> k = meta_key (mt x)"
  by (auto simp: ix_inv_def)

lemma ix_inv_index:
  "ix_inv mt ix \<Longrightarrow>
     set (index_keys ix ns) = {k. \<exists>x. (k, x) \<in> set (ix_items ix) \<and> om_Namespace (mt x) = ns}"
  by (simp add: ix_inv_def)

lemma ix_inv_map_of:
  "ix_inv mt ix \<Longrightarrow> (k, x) \<in> set (ix_items ix) \<longleftrightarrow> map_of (ix_items ix) k = Some x"
  by (auto simp: ix_inv_def dest: map_of_SomeD)

lemma ix_GetByKey_items: "ix_inv mt ix \<Longrightarrow> ix_GetByKey k ix = Some x \<longleftrightarrow> (k, x) \<in> set (ix_items ix)"
  by (simp add: ix_GetByKey_def ix_inv_map_of)

lemma objects_iff: "x \<in> objects ix \<longleftrightarrow> (\<exists>k. (k, x) \<in> set (ix_items ix))"
  by (force simp: objects_def)

lemma ix_inv_unique:
  assumes "ix_inv mt ix" and "x \<in> objects ix" and "y \<in> objects ix" and "meta_key (mt x) = meta_key (mt y)"
  shows "x = y"
proof -
  obtain k l where k: "(k, x) \<in> set (ix_items ix)" and l: "(l, y) \<in> set (ix_items ix)"
    using assms(2,3) by (auto simp: objects_iff)
  then have "k = l" using ix_inv_key [OF assms(1)] assms(4) by metis
  then show ?thesis using k l eq_key_imp_eq_value [OF ix_inv_distinct [OF assms(1)]] by simp
qed

lemma append_matching_Some:
  "append_matching mt sel (map Some xs) = Inr (filter (\<lambda>x. Matches sel (om_Labels (mt x))) xs)"
  by (induction xs) auto

lemma ListAllByNamespace_eq:
  assumes inv: "ix_inv mt ix" and perm: "permutes_order ord"
  shows "\<exists>xs. ListAllByNamespace ord mt ix ns sel
      = Inr (filter (\<lambda>x. Matches sel (om_Labels (mt x))) xs)
    \<and> distinct xs \<and> set xs = {x \<in> objects ix. ns = [] \<or> om_Namespace (mt x) = ns}"
proof -
  define ks where "ks = (if ns = [] then keys (ix_items ix) else index_keys ix ns)"
  have set_ord: "set (ord ks) = set ks" and dist_ord: "distinct (ord ks) = distinct ks"
    using perm perm_set perm_distinct unfolding permutes_order_def by metis+
  have ks: "set ks = {k. \<exists>x. (k, x) \<in> set (ix_items ix) \<and> (ns = [] \<or> om_Namespace (mt x) = ns)}"
    using ix_inv_index [OF inv, of ns] by (cases "ns = []") (force simp: ks_def)+
  have dist: "distinct ks" using inv by (auto simp: ks_def ix_inv_def)
  define xs where "xs = map (\<lambda>k. the (map_of (ix_items ix) k)) (ord ks)"
  have some: "\<exists>x. map_of (ix_items ix) k = Some x \<and> (k, x) \<in> set (ix_items ix)"
    if "k \<in> set ks" for k
    using that ks ix_inv_map_of [OF inv] by auto
  have "map (map_of (ix_items ix)) (ord ks) = map Some xs"
    by (auto simp: xs_def set_ord dest!: some)
  then have list: "ListAllByNamespace ord mt ix ns sel
      = Inr (filter (\<lambda>x. Matches sel (om_Labels (mt x))) xs)"
    by (simp add: ListAllByNamespace_def ks_def [symmetric] append_matching_Some)
  have inj: "inj_on (\<lambda>k. the (map_of (ix_items ix) k)) (set ks)"
    by (rule inj_onI) (metis some option.sel ix_inv_key [OF inv])
  have "distinct xs" using dist inj by (simp add: xs_def distinct_map dist_ord set_ord)
  moreover have "x \<in> set xs \<longleftrightarrow> x \<in> objects ix \<and> (ns = [] \<or> om_Namespace (mt x) = ns)" for x
  proof -
    have "x \<in> set xs \<longleftrightarrow> (\<exists>k \<in> set ks. map_of (ix_items ix) k = Some x)"
      using some by (force simp: xs_def set_ord)
    also have "\<dots> \<longleftrightarrow> (\<exists>k. (k, x) \<in> set (ix_items ix)) \<and> (ns = [] \<or> om_Namespace (mt x) = ns)"
      using ks ix_inv_map_of [OF inv] by force
    finally show ?thesis by (simp add: objects_iff)
  qed
  ultimately show ?thesis using list by blast
qed

interpretation cached: namespace_lister "\<lambda>(ord, ix). ListAllByNamespace ord mt ix"
  "\<lambda>(ord, ix). objects ix" mt "\<lambda>(ord, ix). permutes_order ord \<and> ix_inv mt ix" for mt
proof
  fix s :: "(string list \<Rightarrow> string list) \<times> 'a indexer" and ns sel xs
  obtain ord and ix where s: "s = (ord, ix)" by (cases s)
  assume "case s of (ord, ix) \<Rightarrow> permutes_order ord \<and> ix_inv mt ix"
  then have inv: "ix_inv mt ix" and perm: "permutes_order ord" by (simp_all add: s)
  obtain ys where ys: "ListAllByNamespace ord mt ix ns sel
      = Inr (filter (\<lambda>x. Matches sel (om_Labels (mt x))) ys)" "distinct ys"
    "set ys = {x \<in> objects ix. ns = [] \<or> om_Namespace (mt x) = ns}"
    using ListAllByNamespace_eq [OF inv perm] by blast
  show "\<exists>xs. (case s of (ord, ix) \<Rightarrow> ListAllByNamespace ord mt ix) ns sel = Inr xs"
    using ys by (simp add: s)
  assume "(case s of (ord, ix) \<Rightarrow> ListAllByNamespace ord mt ix) ns sel = Inr xs"
  then have "xs = filter (\<lambda>x. Matches sel (om_Labels (mt x))) ys" using ys by (simp add: s)
  then show "set xs = {x \<in> case s of (ord, ix) \<Rightarrow> objects ix.
      (ns = [] \<or> om_Namespace (mt x) = ns) \<and> Matches sel (om_Labels (mt x))}" and "distinct xs"
    using ys by (auto simp: s)
qed

lemma index_keys_deleteFromIndices:
  "index_keys (deleteFromIndices ns key ix) m =
     (if m = ns then removeAll key (index_keys ix ns) else index_keys ix m)"
  by (auto simp: index_keys_def deleteFromIndices_def split: option.split)

lemma deleteFromIndices_items [simp]: "ix_items (deleteFromIndices ns key ix) = ix_items ix"
  by (simp add: deleteFromIndices_def split: option.split)

lemma index_keys_put:
  "index_keys (ix\<lparr>ix_index := map_put ns ks (ix_index ix)\<rparr>) m = (if m = ns then ks else index_keys ix m)"
  by (simp add: index_keys_def)

lemma index_keys_items [simp]: "index_keys (ix\<lparr>ix_items := its\<rparr>) ns = index_keys ix ns"
  by (simp add: index_keys_def)

lemma updateIndices_items [simp]: "ix_items (updateIndices mt old new key ix) = ix_items ix"
  by (simp add: updateIndices_def Let_def split: option.split)

lemma index_keys_updateIndices:
  "set (index_keys (updateIndices mt old new key ix) m) =
     (let rest = (case old of None \<Rightarrow> set (index_keys ix m)
                  | Some x \<Rightarrow> set (index_keys ix m) - (if om_Namespace (mt x) = m then {key} else {}))
      in if om_Namespace (mt new) = m then insert key rest else rest)"
  "(\<And>n. distinct (index_keys ix n)) \<Longrightarrow> distinct (index_keys (updateIndices mt old new key ix) m)"
  by (auto simp: updateIndices_def Let_def index_keys_put index_keys_deleteFromIndices
      distinct_removeAll split: option.split)

lemma ix_inv_intro:
  assumes "distinct (keys (ix_items ix))"
    and "\<And>k x. map_of (ix_items ix) k = Some x \<Longrightarrow> k = meta_key (mt x)"
    and "\<And>ns. distinct (index_keys ix ns)"
    and "\<And>ns k. k \<in> set (index_keys ix ns) \<longleftrightarrow>
      (\<exists>x. map_of (ix_items ix) k = Some x \<and> om_Namespace (mt x) = ns)"
  shows "ix_inv mt ix"
proof -
  have "(k, x) \<in> set (ix_items ix) \<longleftrightarrow> map_of (ix_items ix) k = Some x" for k x
    using assms(1) by (auto dest: map_of_SomeD)
  then show ?thesis using assms by (auto simp: ix_inv_def)
qed

lemma ix_inv_index_iff:
  "ix_inv mt ix \<Longrightarrow> k \<in> set (index_keys ix ns) \<longleftrightarrow>
     (\<exists>x. map_of (ix_items ix) k = Some x \<and> om_Namespace (mt x) = ns)"
  by (simp add: ix_inv_index ix_inv_map_of)

lemma ix_inv_map_of_key: "ix_inv mt ix \<Longrightarrow> map_of (ix_items ix) k = Some x \<Longrightarrow> k = meta_key (mt x)"
  using ix_inv_key ix_inv_map_of by metis

lemma ix_Add_inv:
  assumes inv: "ix_inv mt ix"
  shows "ix_inv mt (ix_Add mt obj ix)"
proof (rule ix_inv_intro)
  let ?k = "meta_key (mt obj)"
  have items: "ix_items (ix_Add mt obj ix) = map_put ?k obj (ix_items ix)"
    by (simp add: ix_Add_def Let_def)
  show "distinct (keys (ix_items (ix_Add mt obj ix)))"
    using inv by (simp add: items ix_inv_distinct)
  show "k = meta_key (mt x)" if "map_of (ix_items (ix_Add mt obj ix)) k = Some x" for k x
    using that ix_inv_map_of_key [OF inv] by (auto simp: items split: if_splits)
  show "distinct (index_keys (ix_Add mt obj ix) ns)" for ns
    using inv by (auto simp: ix_Add_def Let_def ix_inv_def intro!: index_keys_updateIndices(2))
  show "k \<in> set (index_keys (ix_Add mt obj ix) ns) \<longleftrightarrow>
      (\<exists>x. map_of (ix_items (ix_Add mt obj ix)) k = Some x \<and> om_Namespace (mt x) = ns)" for ns k
  proof -
    have index: "set (index_keys (ix_Add mt obj ix) ns) =
        set (index_keys ix ns) - {?k} \<union> (if om_Namespace (mt obj) = ns then {?k} else {})"
      using ix_inv_index_iff [OF inv, of ?k ns]
      by (cases "map_of (ix_items ix) ?k") (auto simp: ix_Add_def Let_def index_keys_updateIndices(1))
    show ?thesis using ix_inv_index_iff [OF inv, of k ns] by (cases "k = ?k") (simp_all add: index items)
  qed
qed

lemma ix_Delete_inv:
  assumes inv: "ix_inv mt ix"
  shows "ix_inv mt (ix_Delete mt obj ix)"
proof (cases "map_of (ix_items ix) (meta_key (mt obj))")
  case None
  then show ?thesis using inv by (simp add: ix_Delete_def)
next
  case (Some old)
  let ?k = "meta_key (mt obj)"
  have items: "ix_items (ix_Delete mt obj ix) = map_delete ?k (ix_items ix)"
    and index: "index_keys (ix_Delete mt obj ix) m =
      (if m = om_Namespace (mt old) then removeAll ?k (index_keys ix m) else index_keys ix m)" for m
    using Some by (simp_all add: ix_Delete_def Let_def index_keys_deleteFromIndices)
  show ?thesis
  proof (rule ix_inv_intro)
    show "distinct (keys (ix_items (ix_Delete mt obj ix)))"
      using inv by (simp add: items ix_inv_distinct)
    show "k = meta_key (mt x)" if "map_of (ix_items (ix_Delete mt obj ix)) k = Some x" for k x
      using that ix_inv_map_of_key [OF inv] by (auto simp: items split: if_splits)
    show "distinct (index_keys (ix_Delete mt obj ix) ns)" for ns
      using inv by (simp add: index ix_inv_def distinct_removeAll)
    show "k \<in> set (index_keys (ix_Delete mt obj ix) ns) \<longleftrightarrow>
        (\<exists>x. map_of (ix_items (ix_Delete mt obj ix)) k = Some x \<and> om_Namespace (mt x) = ns)" for ns k
      using ix_inv_index_iff [OF inv, of k ns] Some by (auto simp: index items)
  qed
qed

lemma ix_mutate_inv:
  assumes inv: "ix_inv mt ix"
    and keep: "\<And>x. om_Namespace (mt (f x)) = om_Namespace (mt x) \<and> om_Name (mt (f x)) = om_Name (mt x)"
  shows "ix_inv mt (ix_mutate k f ix)"
proof (cases "map_of (ix_items ix) k")
  case None
  then show ?thesis using inv by (simp add: ix_mutate_def)
next
  case (Some x)
  have items: "ix_items (ix_mutate k f ix) = map_put k (f x) (ix_items ix)"
    and index: "index_keys (ix_mutate k f ix) m = index_keys ix m" for m
    using Some by (simp_all add: ix_mutate_def)
  have mkey: "meta_key (mt (f x)) = meta_key (mt x)" using keep by (simp add: meta_key_def)
  show ?thesis
  proof (rule ix_inv_intro)
    show "j = meta_key (mt y)" if "map_of (ix_items (ix_mutate k f ix)) j = Some y" for j y
      using that ix_inv_map_of_key [OF inv] Some by (auto simp: items mkey split: if_splits)
    show "j \<in> set (index_keys (ix_mutate k f ix) ns) \<longleftrightarrow>
        (\<exists>y. map_of (ix_items (ix_mutate k f ix)) j = Some y \<and> om_Namespace (mt y) = ns)" for ns j
      using ix_inv_index_iff [OF inv, of j ns] Some keep by (auto simp: index items)
  qed (use inv in \<open>simp_all add: items index ix_inv_def\<close>)
qed

lemma ix_mutate_items:
  "map_of (ix_items (ix_mutate k f ix)) =
     (case map_of (ix_items ix) k of None \<Rightarrow> map_of (ix_items ix)
      | Some x \<Rightarrow> (map_of (ix_items ix))(k \<mapsto> f x))"
  by (auto simp: ix_mutate_def split: option.split)

lemma ix_GetByKey_mutate:
  "ix_GetByKey j (ix_mutate k f ix) =
     (if j = k then map_option f (ix_GetByKey k ix) else ix_GetByKey j ix)"
  by (auto simp: ix_GetByKey_def ix_mutate_items split: option.split)

lemma lister_Get_single:
  assumes "meta_key (mt x) = ns @ ''/'' @ name"
  shows "lister_Get resource (ix_Add mt x new_indexer) ns name = Inr x"
  using assms by (simp add: lister_Get_def ix_GetByKey_def ix_Add_def new_indexer_def Let_def)

lemma ix_items_Add [simp]: "ix_items (ix_Add mt x ix) = map_put (meta_key (mt x)) x (ix_items ix)"
  by (simp add: ix_Add_def updateIndices_def deleteFromIndices_def Let_def split: option.split)

lemma objects_map_of: "map_of (ix_items ix) k = Some x \<Longrightarrow> x \<in> objects ix"
  by (auto simp: objects_iff dest: map_of_SomeD)

lemma objects_add: "objects (ix_Add mt x ix) \<subseteq> insert x (objects ix)"
  using map_put_set [of "meta_key (mt x)" x "ix_items ix"] by (fastforce simp: objects_iff)

lemma objects_added: "x \<in> objects (ix_Add mt x ix)"
  by (rule objects_map_of [of _ "meta_key (mt x)"]) simp

lemma objects_delete: "objects (ix_Delete mt x ix) \<subseteq> objects ix"
proof -
  have "set (ix_items (ix_Delete mt x ix)) \<subseteq> set (ix_items ix)"
    by (simp add: ix_Delete_def deleteFromIndices_def Let_def map_delete_set split: option.split)
  then show ?thesis by (auto simp: objects_iff) blast
qed

lemma objects_mutate: "objects (ix_mutate k g ix) \<subseteq> objects ix \<union> g ` objects ix"
proof (cases "map_of (ix_items ix) k")
  case (Some x)
  then have x: "x \<in> objects ix" by (auto simp: objects_iff dest: map_of_SomeD)
  show ?thesis
  proof
    fix y
    assume "y \<in> objects (ix_mutate k g ix)"
    then obtain j where "(j, y) \<in> set (map_put k (g x) (ix_items ix))" using Some by (auto simp: ix_mutate_def objects_iff)
    then have "(j, y) = (k, g x) \<or> (j, y) \<in> set (ix_items ix)" using map_put_set by fastforce
    then show "y \<in> objects ix \<union> g ` objects ix" using x objects_iff [of y ix] by blast
  qed
qed (simp add: ix_mutate_def)

lemma listed_objects:
  assumes "ListAllByNamespace ord mt ix ns sel = Inr xs"
  shows "set xs \<subseteq> objects ix"
proof -
  have "set ys \<subseteq> {y. Some y \<in> set ms}" if "append_matching mt sel ms = Inr ys" for ms ys
    using that by (induction mt sel ms arbitrary: ys rule: append_matching.induct) (auto split: sum.splits if_splits)
  then have "set xs \<subseteq> {y. \<exists>k. map_of (ix_items ix) k = Some y}"
    using assms by (fastforce simp: ListAllByNamespace_def)
  then show ?thesis using objects_map_of [of ix] by auto
qed

section \<open>Properties\<close>

text \<open>
  The cache keeps its namespace index in step with its items: adding or updating an object,
  deleting one, and mutating a cached object in place without renaming it all preserve the invariant
  that every object is stored under its own key and indexed exactly under its own namespace.
\<close>

theorem cache_operations_keep_invariant:
  assumes "ix_inv mt ix"
    and "\<And>x. om_Namespace (mt (f x)) = om_Namespace (mt x) \<and> om_Name (mt (f x)) = om_Name (mt x)"
  shows "ix_inv mt (ix_Add mt obj ix) \<and> ix_inv mt (ix_Delete mt obj ix) \<and> ix_inv mt (ix_mutate k f ix)"
  using assms by (simp add: ix_Add_inv ix_Delete_inv ix_mutate_inv)

theorem cache_operations_keep_invariant_witness:
  "let m = zero_meta\<lparr>om_Name := ''a'', om_Namespace := ''default''\<rparr>;
       f = (\<lambda>x. x\<lparr>om_OwnerReferences := []\<rparr>); ix = ix_Add id m new_indexer
   in ix_inv id ix \<and> ix_inv id (ix_Add id m ix) \<and> ix_inv id (ix_Delete id m ix)
      \<and> ix_inv id (ix_mutate ''default/a'' f ix)"
proof -
  let ?m = "zero_meta\<lparr>om_Name := ''a'', om_Namespace := ''default''\<rparr>"
  let ?f = "\<lambda>x :: ObjectMeta. x\<lparr>om_OwnerReferences := []\<rparr>"
  have inv: "ix_inv id (ix_Add id ?m new_indexer)"
    by (rule ix_Add_inv [OF ix_inv_empty])
  show ?thesis
    using inv cache_operations_keep_invariant [of id "ix_Add id ?m new_indexer" ?f ?m "''default/a''"]
    by (simp add: Let_def)
qed

text \<open>
  A lister over the cache returns exactly the cached objects of the namespace (of every
  namespace when it is empty) that match the selector, each once and without an error, whatever order
  Go's map iteration takes.
\<close>

theorem lister_returns_matching_objects:
  assumes "ix_inv mt ix" and "permutes_order ord"
  shows "\<exists>xs. ListAllByNamespace ord mt ix ns sel = Inr xs \<and> distinct xs
    \<and> set xs = {x \<in> objects ix. (ns = [] \<or> om_Namespace (mt x) = ns) \<and> Matches sel (om_Labels (mt x))}"
proof -
  have sinv: "case (ord, ix) of (ord, ix) \<Rightarrow> permutes_order ord \<and> ix_inv mt ix" using assms by simp
  obtain xs where xs: "ListAllByNamespace ord mt ix ns sel = Inr xs"
    using cached.list_total [OF sinv] by auto
  then show ?thesis
    using cached.list_set [OF sinv] cached.list_distinct [OF sinv] by auto
qed

theorem lister_returns_matching_objects_witness:
  "let m = zero_meta\<lparr>om_Name := ''a'', om_Namespace := ''default''\<rparr>; ix = ix_Add id m new_indexer
   in ix_inv id ix \<and> permutes_order rev
     \<and> (\<exists>xs. ListAllByNamespace rev id ix ''default'' Everything = Inr xs \<and> distinct xs
          \<and> set xs = {x \<in> objects ix. (''default'' = [] \<or> om_Namespace (id x) = ''default'')
               \<and> Matches Everything (om_Labels (id x))})"
proof -
  let ?ix = "ix_Add id (zero_meta\<lparr>om_Name := ''a'', om_Namespace := ''default''\<rparr>) new_indexer"
  have inv: "ix_inv id ?ix" by (rule ix_Add_inv [OF ix_inv_empty])
  have perm: "permutes_order rev" by (simp add: permutes_order_def)
  show ?thesis
    unfolding Let_def
    using inv perm lister_returns_matching_objects [OF inv perm, of "''default''" Everything] by blast
qed

end
