(* ===== verification/Cluster.thy ===== *)
theory Cluster
  imports Naming Indexer
begin

text \<open>
  What the four controllers share: the informer caches (one per type, shared between the controllers
  because \<open>SharedInformers.InformerFor\<close> returns the same informer for the same type), the calls to the
  Kubernetes API server, and the event recorder.

  The API server is not part of the repository. It is the parameter \<open>env_api\<close>: given the calls made so
  far and the next call, it answers with an error or with the metadata of the object it stored, which
  is all the controllers read of an answer. The typed clients return an empty object together with an
  error, so an error answer carries the zero metadata. Caches change through the informers only; a
  handler changes them only by assigning to the objects they hold.
\<close>

section \<open>Calls, events and state\<close>

datatype action =
    UpdateProxy string MemcachedProxy
  | CreateService string Service
  | UpdateService string Service
  | CreateConfigMap string ConfigMap
  | UpdateConfigMap string ConfigMap
  | CreateDeployment string Deployment
  | UpdateDeployment string Deployment
  | DeleteDeployment string string

record event =
  ev_Object :: ObjectMeta
  ev_Type :: string
  ev_Reason :: string
  ev_Message :: string

record cluster =
  cl_proxies :: "MemcachedProxy indexer"
  cl_services :: "Service indexer"
  cl_endpoints :: "Endpoints indexer"
  cl_configmaps :: "ConfigMap indexer"
  cl_deployments :: "Deployment indexer"
  cl_replicasets :: "ReplicaSet indexer"
  cl_actions :: "action list"
  cl_events :: "event list"

text \<open>
  Ranging over a Go map draws an order. One sync, or one call of an event handler, ranges over each of the following at most once,
  so an order per site lets every range that is executed have an order of its own. The running operator draws all of
  them anew at every step (theory \<open>OperatorSystem\<close>).
\<close>

datatype range_site =
    RangeProxies | RangeConfigMaps | RangeDeployments | RangeReplicaSets
  | RangePools \<comment> \<open>the services of a configuration\<close>
  | RangeServiceMap string \<comment> \<open>the services of the proxy of this key\<close>
  | RangeAffected \<comment> \<open>the keys of the affected proxies\<close>

definition permutes_keys :: "(range_site \<Rightarrow> string list \<Rightarrow> string list) \<Rightarrow> bool" where
  "permutes_keys rng \<longleftrightarrow> (\<forall>site. permutes_order (rng site))"

record env =
  env_api :: "action list \<Rightarrow> action \<Rightarrow> go_error + ObjectMeta"
  env_range :: "range_site \<Rightarrow> string list \<Rightarrow> string list"
  env_validLabelKey :: "string \<Rightarrow> bool"
  env_validLabelValue :: "string \<Rightarrow> bool"

definition empty_cluster :: cluster where
  "empty_cluster = \<lparr>cl_proxies = new_indexer, cl_services = new_indexer, cl_endpoints = new_indexer,
     cl_configmaps = new_indexer, cl_deployments = new_indexer, cl_replicasets = new_indexer,
     cl_actions = [], cl_events = []\<rparr>"

definition accepting_env :: env where
  \<comment> \<open>an API server that accepts every call, used by the examples\<close>
  "accepting_env = \<lparr>env_api = (\<lambda>_ _. Inr zero_meta), env_range = (\<lambda>_. id),
     env_validLabelKey = (\<lambda>_. True), env_validLabelValue = (\<lambda>_. True)\<rparr>"

definition refusing_env :: env where
  \<comment> \<open>an API server that answers every call with a conflict\<close>
  "refusing_env = accepting_env\<lparr>env_api := (\<lambda>_ _. Inl (StatusError StatusReasonConflict ''conflict''))\<rparr>"

definition api_call :: "env \<Rightarrow> action \<Rightarrow> cluster \<Rightarrow> (go_error + ObjectMeta) \<times> cluster" where
  "api_call e a cl = (env_api e (cl_actions cl) a, cl\<lparr>cl_actions := cl_actions cl @ [a]\<rparr>)"

definition record_event :: "MemcachedProxy \<Rightarrow> string \<Rightarrow> string \<Rightarrow> string \<Rightarrow> cluster \<Rightarrow> cluster" where
  \<comment> \<open>\<open>c.recorder.Event(p, eventtype, reason, msg)\<close>\<close>
  "record_event p eventtype reason msg cl =
     cl\<lparr>cl_events := cl_events cl @
       [\<lparr>ev_Object = mp_Meta p, ev_Type = eventtype, ev_Reason = reason, ev_Message = msg\<rparr>]\<rparr>"

definition EventTypeNormal :: string where "EventTypeNormal = ''Normal''"
definition EventTypeWarning :: string where "EventTypeWarning = ''Warning''"

definition proxy_key :: "MemcachedProxy \<Rightarrow> string" where
  \<comment> \<open>\<open>p.Namespace+"/"+p.Name\<close>\<close>
  "proxy_key p = om_Namespace (mp_Meta p) @ ''/'' @ om_Name (mp_Meta p)"

section \<open>Well-formed caches\<close>

definition cluster_inv :: "cluster \<Rightarrow> bool" where
  "cluster_inv cl \<longleftrightarrow> ix_inv mp_Meta (cl_proxies cl) \<and> ix_inv svc_Meta (cl_services cl)
     \<and> ix_inv eps_Meta (cl_endpoints cl) \<and> ix_inv cm_Meta (cl_configmaps cl)
     \<and> ix_inv d_Meta (cl_deployments cl) \<and> ix_inv rs_Meta (cl_replicasets cl)"

definition same_caches :: "cluster \<Rightarrow> cluster \<Rightarrow> bool" where
  "same_caches cl cl' \<longleftrightarrow> cl_proxies cl' = cl_proxies cl \<and> cl_services cl' = cl_services cl
     \<and> cl_endpoints cl' = cl_endpoints cl \<and> cl_configmaps cl' = cl_configmaps cl
     \<and> cl_deployments cl' = cl_deployments cl \<and> cl_replicasets cl' = cl_replicasets cl"

section \<open>Lemmas\<close>

lemma api_call_simps [simp]:
  "fst (api_call e a cl) = env_api e (cl_actions cl) a"
  "cl_actions (snd (api_call e a cl)) = cl_actions cl @ [a]"
  "cl_events (snd (api_call e a cl)) = cl_events cl"
  "cl_proxies (snd (api_call e a cl)) = cl_proxies cl"
  "cl_services (snd (api_call e a cl)) = cl_services cl"
  "cl_endpoints (snd (api_call e a cl)) = cl_endpoints cl"
  "cl_configmaps (snd (api_call e a cl)) = cl_configmaps cl"
  "cl_deployments (snd (api_call e a cl)) = cl_deployments cl"
  "cl_replicasets (snd (api_call e a cl)) = cl_replicasets cl"
  by (simp_all add: api_call_def)

lemma record_event_simps [simp]:
  "cl_actions (record_event p t r m cl) = cl_actions cl"
  "cl_proxies (record_event p t r m cl) = cl_proxies cl"
  "cl_services (record_event p t r m cl) = cl_services cl"
  "cl_endpoints (record_event p t r m cl) = cl_endpoints cl"
  "cl_configmaps (record_event p t r m cl) = cl_configmaps cl"
  "cl_deployments (record_event p t r m cl) = cl_deployments cl"
  "cl_replicasets (record_event p t r m cl) = cl_replicasets cl"
  by (simp_all add: record_event_def)

lemma cluster_inv_empty: "cluster_inv empty_cluster"
  by (simp add: cluster_inv_def empty_cluster_def ix_inv_empty)

lemma cluster_inv_same_caches: "same_caches cl cl' \<Longrightarrow> cluster_inv cl' = cluster_inv cl"
  by (simp add: same_caches_def cluster_inv_def)

lemma permutes_keys_accepting [simp]:
  "permutes_keys (env_range accepting_env)" "permutes_keys (env_range refusing_env)"
  by (simp_all add: permutes_keys_def permutes_order_def accepting_env_def refusing_env_def)

lemma permutes_keysD: "permutes_keys rng \<Longrightarrow> permutes_order (rng site)"
  by (simp add: permutes_keys_def)

lemma permutes_keys_set: "permutes_keys rng \<Longrightarrow> set (rng site ks) = set ks"
  unfolding permutes_keys_def permutes_order_def by (metis mset_eq_setD)

end
