(* ===== verification/Operator.thy ===== *)
theory Operator
  imports Cluster
begin

text \<open>
  The lookups of internal/controller/operator.go: the deployments and config maps a proxy controls.

  \<open>sort.Slice\<close> is not stable. The list it sorts comes from a map iteration, whose order is the
  parameter \<open>env_range\<close>, so sorting it stably gives every result the source can give for some order.
\<close>

section \<open>Definitions\<close>

definition sort_newest_first :: "Deployment list \<Rightarrow> Deployment list" where
  \<comment> \<open>less (i, j) is \<open>result[j].CreationTimestamp.UTC().Before(result[i].CreationTimestamp.UTC())\<close>\<close>
  "sort_newest_first ds = sort_key (\<lambda>d. - om_CreationTimestamp (d_Meta d)) ds"

definition GetDeploymentsForProxy ::
  "env \<Rightarrow> cluster \<Rightarrow> MemcachedProxy \<Rightarrow> Deployment option \<times> Deployment list \<times> go_error option" where
  "GetDeploymentsForProxy e cl p =
     (case ListAllByNamespace (env_range e RangeDeployments) d_Meta (cl_deployments cl) (om_Namespace (mp_Meta p)) Everything of
        Inl err \<Rightarrow> (None, [], None)
      | Inr dList \<Rightarrow>
          (let result = filter (\<lambda>d. IsControlledBy (d_Meta d) (mp_Meta p)) dList in
           case sort_newest_first result of
             [] \<Rightarrow> (None, [], None)
           | d # rest \<Rightarrow> (Some d, rest, None)))"

definition GetConfigMapsForProxy ::
  "env \<Rightarrow> cluster \<Rightarrow> MemcachedProxy \<Rightarrow> go_error + ConfigMap list" where
  "GetConfigMapsForProxy e cl p =
     (case ListAllByNamespace (env_range e RangeConfigMaps) cm_Meta (cl_configmaps cl) (om_Namespace (mp_Meta p)) Everything of
        Inl err \<Rightarrow> Inl err
      | Inr cmList \<Rightarrow> Inr (filter (\<lambda>cm. IsControlledBy (cm_Meta cm) (mp_Meta p)) cmList))"

definition GetConfigMapForProxy ::
  "env \<Rightarrow> cluster \<Rightarrow> MemcachedProxy \<Rightarrow> go_error + ConfigMap option" where
  "GetConfigMapForProxy e cl p =
     (case GetConfigMapsForProxy e cl p of
        Inl err \<Rightarrow> Inl err
      | Inr cmList \<Rightarrow>
          (if length cmList > 1
           then Inl (ErrorString (''found multiple configmaps for '' @ Quote (proxy_key p)))
           else case cmList of [] \<Rightarrow> Inr None | cm # _ \<Rightarrow> Inr (Some cm)))"

text \<open>The objects the lookups are about.\<close>

definition owned_deployments :: "cluster \<Rightarrow> MemcachedProxy \<Rightarrow> Deployment set" where
  "owned_deployments cl p = {d \<in> objects (cl_deployments cl).
     (om_Namespace (mp_Meta p) = [] \<or> om_Namespace (d_Meta d) = om_Namespace (mp_Meta p))
     \<and> IsControlledBy (d_Meta d) (mp_Meta p)}"

definition owned_configmaps :: "cluster \<Rightarrow> MemcachedProxy \<Rightarrow> ConfigMap set" where
  "owned_configmaps cl p = {cm \<in> objects (cl_configmaps cl).
     (om_Namespace (mp_Meta p) = [] \<or> om_Namespace (cm_Meta cm) = om_Namespace (mp_Meta p))
     \<and> IsControlledBy (cm_Meta cm) (mp_Meta p)}"

definition example_configmap :: ConfigMap where
  "example_configmap = \<lparr>cm_APIVersion = ''v1'', cm_Kind = ''ConfigMap'',
     cm_Meta = zero_meta\<lparr>om_Name := ''example-config-00000'', om_Namespace := ''default'',
       om_OwnerReferences := [NewProxyOwnerRef example_proxy]\<rparr>,
     cm_Data = [(''config.json'', ''{}'')], cm_Rest = []\<rparr>"

definition example_cluster :: cluster where
  \<comment> \<open>a cluster that holds the example proxy and one config map controlled by it\<close>
  "example_cluster = empty_cluster\<lparr>
     cl_proxies := ix_Add mp_Meta example_proxy new_indexer,
     cl_configmaps := ix_Add cm_Meta example_configmap new_indexer\<rparr>"

section \<open>Lemmas\<close>

lemma set_sort_newest_first [simp]: "set (sort_newest_first ds) = set ds"
  by (simp add: sort_newest_first_def)

lemma distinct_sort_newest_first [simp]: "distinct (sort_newest_first ds) = distinct ds"
  by (simp add: sort_newest_first_def)

lemma sorted_newest_first:
  "sorted_wrt (\<lambda>x y. om_CreationTimestamp (d_Meta y) \<le> om_CreationTimestamp (d_Meta x)) (sort_newest_first ds)"
proof -
  have "sorted (map (\<lambda>d. - om_CreationTimestamp (d_Meta d)) (sort_newest_first ds))"
    unfolding sort_newest_first_def by (rule sorted_sort_key)
  then show ?thesis by (simp add: sorted_map)
qed

lemma list_deployments:
  assumes "cluster_inv cl" and "permutes_keys (env_range e)"
  obtains xs where
    "ListAllByNamespace (env_range e RangeDeployments) d_Meta (cl_deployments cl) ns Everything = Inr xs"
    "distinct xs"
    "set xs = {x \<in> objects (cl_deployments cl). ns = [] \<or> om_Namespace (d_Meta x) = ns}"
  using cached.everything [of d_Meta "(env_range e RangeDeployments, cl_deployments cl)" ns] assms permutes_keysD [OF assms(2)]
  by (auto simp: cluster_inv_def)

lemma list_configmaps:
  assumes "cluster_inv cl" and "permutes_keys (env_range e)"
  obtains xs where
    "ListAllByNamespace (env_range e RangeConfigMaps) cm_Meta (cl_configmaps cl) ns Everything = Inr xs"
    "distinct xs"
    "set xs = {x \<in> objects (cl_configmaps cl). ns = [] \<or> om_Namespace (cm_Meta x) = ns}"
  using cached.everything [of cm_Meta "(env_range e RangeConfigMaps, cl_configmaps cl)" ns] assms permutes_keysD [OF assms(2)]
  by (auto simp: cluster_inv_def)

lemma list_proxies:
  assumes "cluster_inv cl" and "permutes_keys (env_range e)"
  obtains xs where
    "ListAllByNamespace (env_range e RangeProxies) mp_Meta (cl_proxies cl) ns Everything = Inr xs"
    "distinct xs"
    "set xs = {x \<in> objects (cl_proxies cl). ns = [] \<or> om_Namespace (mp_Meta x) = ns}"
  using cached.everything [of mp_Meta "(env_range e RangeProxies, cl_proxies cl)" ns] assms permutes_keysD [OF assms(2)]
  by (auto simp: cluster_inv_def)

lemma GetConfigMapsForProxy_set:
  assumes "cluster_inv cl" and "permutes_keys (env_range e)"
  obtains cms where "GetConfigMapsForProxy e cl p = Inr cms" and "distinct cms"
    and "set cms = owned_configmaps cl p"
proof -
  obtain xs where
    "ListAllByNamespace (env_range e RangeConfigMaps) cm_Meta (cl_configmaps cl) (om_Namespace (mp_Meta p)) Everything = Inr xs"
    "distinct xs" "set xs = {x \<in> objects (cl_configmaps cl).
       om_Namespace (mp_Meta p) = [] \<or> om_Namespace (cm_Meta x) = om_Namespace (mp_Meta p)}"
    by (rule list_configmaps [OF assms])
  then show ?thesis
    by (intro that [of "filter (\<lambda>cm. IsControlledBy (cm_Meta cm) (mp_Meta p)) xs"])
      (auto simp: GetConfigMapsForProxy_def owned_configmaps_def)
qed

lemma GetDeploymentsForProxy_no_error: "snd (snd (GetDeploymentsForProxy e cl p)) = None"
  by (simp add: GetDeploymentsForProxy_def Let_def split: sum.split list.split)

lemma GetDeploymentsForProxy_spec:
  assumes "cluster_inv cl" and "permutes_keys (env_range e)"
  shows "case GetDeploymentsForProxy e cl p of
      (None, ds, err) \<Rightarrow> owned_deployments cl p = {} \<and> ds = [] \<and> err = None
    | (Some d, ds, err) \<Rightarrow> err = None \<and> distinct (d # ds) \<and> set (d # ds) = owned_deployments cl p
        \<and> sorted_wrt (\<lambda>x y. om_CreationTimestamp (d_Meta y) \<le> om_CreationTimestamp (d_Meta x)) (d # ds)"
proof -
  obtain xs where
    xs: "ListAllByNamespace (env_range e RangeDeployments) d_Meta (cl_deployments cl) (om_Namespace (mp_Meta p)) Everything = Inr xs"
    "distinct xs" "set xs = {x \<in> objects (cl_deployments cl).
       om_Namespace (mp_Meta p) = [] \<or> om_Namespace (d_Meta x) = om_Namespace (mp_Meta p)}"
    by (rule list_deployments [OF assms])
  define ys where "ys = sort_newest_first (filter (\<lambda>d. IsControlledBy (d_Meta d) (mp_Meta p)) xs)"
  have ys: "distinct ys" "set ys = owned_deployments cl p"
    using xs by (auto simp: ys_def owned_deployments_def)
  have "GetDeploymentsForProxy e cl p = (case ys of [] \<Rightarrow> (None, [], None) | d # rest \<Rightarrow> (Some d, rest, None))"
    by (simp add: GetDeploymentsForProxy_def xs(1) ys_def Let_def)
  moreover have
    "sorted_wrt (\<lambda>x y. om_CreationTimestamp (d_Meta y) \<le> om_CreationTimestamp (d_Meta x)) ys"
    unfolding ys_def by (rule sorted_newest_first)
  ultimately show ?thesis using ys by (cases ys) auto
qed

lemma GetDeploymentsForProxy_none:
  assumes "cluster_inv cl" and "permutes_keys (env_range e)" and "owned_deployments cl p = {}"
  shows "GetDeploymentsForProxy e cl p = (None, [], None)"
  using GetDeploymentsForProxy_spec [OF assms(1,2), of p] assms(3) by (auto split: prod.splits option.splits)

lemma GetDeploymentsForProxy_two:
  assumes "cluster_inv cl" and "permutes_keys (env_range e)" and "owned_deployments cl p = {d, d2}"
    and "om_CreationTimestamp (d_Meta d2) < om_CreationTimestamp (d_Meta d)"
  shows "GetDeploymentsForProxy e cl p = (Some d, [d2], None)"
proof -
  obtain x xs where g: "GetDeploymentsForProxy e cl p = (Some x, xs, None)" "distinct (x # xs)" "set (x # xs) = {d, d2}"
    "sorted_wrt (\<lambda>x y. om_CreationTimestamp (d_Meta y) \<le> om_CreationTimestamp (d_Meta x)) (x # xs)"
    using GetDeploymentsForProxy_spec [OF assms(1,2), of p] assms(3) by (auto split: prod.splits option.splits)
  have "d \<noteq> d2" using assms(4) by auto
  then have "length (x # xs) = 2" using g(2,3) distinct_card [OF g(2)] by simp
  then obtain y where xs: "xs = [y]" by (auto simp: length_Suc_conv)
  then have "x = d \<and> y = d2 \<or> x = d2 \<and> y = d" using g(2,3) by (auto simp: doubleton_eq_iff)
  then show ?thesis using g(1,4) assms(4) xs by auto
qed

lemma GetDeploymentsForProxy_one:
  assumes "cluster_inv cl" and "permutes_keys (env_range e)" and "owned_deployments cl p = {d}"
  shows "GetDeploymentsForProxy e cl p = (Some d, [], None)"
proof -
  obtain x xs where g: "GetDeploymentsForProxy e cl p = (Some x, xs, None)" "distinct (x # xs)" "set (x # xs) = {d}"
    using GetDeploymentsForProxy_spec [OF assms(1,2), of p] assms(3) by (auto split: prod.splits option.splits)
  then show ?thesis by (cases xs) auto
qed

lemma GetConfigMapForProxy_one:
  assumes "cluster_inv cl" and "permutes_keys (env_range e)" and "owned_configmaps cl p = {cm}"
  shows "GetConfigMapForProxy e cl p = Inr (Some cm)"
proof -
  obtain cms where cms: "GetConfigMapsForProxy e cl p = Inr cms" "distinct cms" "set cms = {cm}"
    using GetConfigMapsForProxy_set [OF assms(1,2), of p] assms(3) by metis
  then have "cms = [cm]" by (cases cms rule: remdups_adj.cases) auto
  then show ?thesis by (simp add: GetConfigMapForProxy_def cms(1))
qed

section \<open>Properties\<close>

text \<open>
  \<open>GetDeploymentsForProxy\<close> returns the newest deployment the proxy controls and, apart from it, all
  the others it controls, newest first and each once; it returns no deployment exactly when the proxy
  controls none.
\<close>

theorem GetDeploymentsForProxy_newest_first:
  assumes "cluster_inv cl" and "permutes_keys (env_range e)"
  shows "case GetDeploymentsForProxy e cl p of
      (None, ds, err) \<Rightarrow> owned_deployments cl p = {} \<and> ds = [] \<and> err = None
    | (Some d, ds, err) \<Rightarrow> err = None \<and> distinct (d # ds) \<and> set (d # ds) = owned_deployments cl p
        \<and> sorted_wrt (\<lambda>x y. om_CreationTimestamp (d_Meta y) \<le> om_CreationTimestamp (d_Meta x)) (d # ds)"
  by (rule GetDeploymentsForProxy_spec [OF assms])

theorem GetDeploymentsForProxy_newest_first_witness:
  "cluster_inv empty_cluster \<and> permutes_keys (env_range accepting_env)
   \<and> GetDeploymentsForProxy accepting_env empty_cluster example_proxy = (None, [], None)"
proof -
  have "owned_deployments empty_cluster example_proxy = {}"
    by (simp add: owned_deployments_def objects_def empty_cluster_def new_indexer_def)
  then show ?thesis
    using GetDeploymentsForProxy_newest_first [OF cluster_inv_empty permutes_keys_accepting(1), of example_proxy]
      cluster_inv_empty permutes_keys_accepting(1)
    by (cases "GetDeploymentsForProxy accepting_env empty_cluster example_proxy" rule: prod_cases3)
      (auto split: option.splits)
qed

text \<open>
  \<open>GetConfigMapForProxy\<close> returns the config map the proxy controls when there is exactly one,
  nothing when there is none, and an error when there are several.
\<close>

theorem GetConfigMapForProxy_cases:
  assumes "cluster_inv cl" and "permutes_keys (env_range e)"
  shows "(GetConfigMapForProxy e cl p = Inr None \<longleftrightarrow> owned_configmaps cl p = {})
    \<and> (GetConfigMapForProxy e cl p = Inr (Some cm) \<longleftrightarrow> owned_configmaps cl p = {cm})
    \<and> (isl (GetConfigMapForProxy e cl p) \<longleftrightarrow> card (owned_configmaps cl p) > 1)"
proof -
  obtain cms where cms: "GetConfigMapsForProxy e cl p = Inr cms" "distinct cms"
    "set cms = owned_configmaps cl p"
    by (rule GetConfigMapsForProxy_set [OF assms])
  have card: "card (owned_configmaps cl p) = length cms"
    using cms distinct_card by metis
  consider "cms = []" | c where "cms = [c]" | c1 c2 rest where "cms = c1 # c2 # rest"
    by (metis list.exhaust)
  then show ?thesis
  proof cases
    case 3
    then have "owned_configmaps cl p \<noteq> {}" "owned_configmaps cl p \<noteq> {cm}"
      using cms by auto
    then show ?thesis using 3 card by (simp add: GetConfigMapForProxy_def cms(1))
  qed (use cms card in \<open>auto simp: GetConfigMapForProxy_def\<close>)
qed

lemma cluster_inv_example: "cluster_inv example_cluster"
  using cluster_inv_empty by (simp add: cluster_inv_def example_cluster_def ix_Add_inv ix_inv_empty)

lemma owned_configmaps_example: "owned_configmaps example_cluster example_proxy = {example_configmap}"
proof -
  have "objects (cl_configmaps example_cluster) = {example_configmap}"
    by (simp add: objects_def example_cluster_def ix_Add_def Let_def new_indexer_def)
  moreover have "om_Namespace (cm_Meta example_configmap) = om_Namespace (mp_Meta example_proxy)"
    by (simp add: example_configmap_def example_proxy_def)
  moreover have "IsControlledBy (cm_Meta example_configmap) (mp_Meta example_proxy)"
    by (rule IsControlledBy_NewProxyOwnerRef) (simp add: example_configmap_def)
  ultimately show ?thesis by (auto simp: owned_configmaps_def)
qed

theorem GetConfigMapForProxy_cases_witness:
  "cluster_inv example_cluster \<and> permutes_keys (env_range accepting_env)
   \<and> GetConfigMapForProxy accepting_env example_cluster example_proxy = Inr (Some example_configmap)"
  using GetConfigMapForProxy_cases [OF cluster_inv_example permutes_keys_accepting(1),
      of example_proxy example_configmap]
  by (simp add: cluster_inv_example owned_configmaps_example)

end
