(* ===== verification/Workqueue.thy ===== *)
theory Workqueue
  imports Prelude
begin

text \<open>
  The work queues of the controllers: vendor/k8s.io/client-go/util/workqueue. The source of the
  controllers relies on them "to ensure we are never processing the same item simultaneously in two
  different workers"; that guarantee is proved here.

  \<^item> \<open>wq\<close> with \<open>wq_Add\<close>, \<open>wq_Get\<close>, \<open>wq_Done\<close>, \<open>wq_ShutDown\<close> is queue.go. A call holds the queue's lock, so it
    is one atomic step; \<open>Get\<close> on an empty open queue waits, which is the result \<open>Blocks\<close>.
  \<^item> \<open>delayq\<close> extends it with delayed adds (delaying\_queue.go): the channel \<open>waitingForAddCh\<close>, the entries
    of the heap with their ready time, and the two kinds of iteration of \<open>waitingLoop\<close>. The heap is kept
    as an association list from item to ready time, which is its contents together with
    \<open>waitingEntryByData\<close>; entries fire in the order of their ready times.
  \<^item> \<open>rlq\<close> extends that with the rate limiter (default\_rate\_limiters.go, rate\_limitting\_queue.go). The token
    bucket of golang.org/x/time/rate is a parameter: the delay its n-th reservation gives.

  Times and delays are in nanoseconds. The exponential back-off is computed in \<open>float64\<close> by the source;
  with the base delay of 5 ms every product below the cap is exact, so natural numbers give the same
  result.
\<close>

section \<open>The queue\<close>

record 'a wq =
  q_queue :: "'a list"
  q_dirty :: "'a set"
  q_processing :: "'a set"
  q_shuttingDown :: bool

datatype ('a, 'q) get_result = Blocks | GotShutdown | GotItem 'a 'q

definition wq_Add :: "'a \<Rightarrow> ('a, 'b) wq_scheme \<Rightarrow> ('a, 'b) wq_scheme" where
  "wq_Add item q =
     (if q_shuttingDown q then q
      else if item \<in> q_dirty q then q
      else let q1 = q\<lparr>q_dirty := insert item (q_dirty q)\<rparr> in
           if item \<in> q_processing q1 then q1
           else q1\<lparr>q_queue := q_queue q1 @ [item]\<rparr>)"

definition wq_Get :: "('a, 'b) wq_scheme \<Rightarrow> ('a, ('a, 'b) wq_scheme) get_result" where
  "wq_Get q =
     (case q_queue q of
        [] \<Rightarrow> (if q_shuttingDown q then GotShutdown else Blocks)
      | item # rest \<Rightarrow>
          GotItem item (q\<lparr>q_queue := rest, q_processing := insert item (q_processing q),
            q_dirty := q_dirty q - {item}\<rparr>))"

definition wq_Done :: "'a \<Rightarrow> ('a, 'b) wq_scheme \<Rightarrow> ('a, 'b) wq_scheme" where
  "wq_Done item q =
     (let q1 = q\<lparr>q_processing := q_processing q - {item}\<rparr> in
      if item \<in> q_dirty q1 then q1\<lparr>q_queue := q_queue q1 @ [item]\<rparr> else q1)"

definition wq_ShutDown :: "('a, 'b) wq_scheme \<Rightarrow> ('a, 'b) wq_scheme" where
  "wq_ShutDown q = q\<lparr>q_shuttingDown := True\<rparr>"

definition wq_Len :: "('a, 'b) wq_scheme \<Rightarrow> nat" where
  "wq_Len q = length (q_queue q)"

definition wq_inv :: "('a, 'b) wq_scheme \<Rightarrow> bool" where
  \<comment> \<open>the queue holds, once each, the items that need processing and are not being processed\<close>
  "wq_inv q \<longleftrightarrow> distinct (q_queue q) \<and> set (q_queue q) = q_dirty q - q_processing q"

section \<open>Delayed adds\<close>

record 'a delayq = "'a wq" +
  dl_now :: nat
  dl_waitCh :: "('a \<times> nat) list"
  dl_waiting :: "('a \<times> nat) list"

definition AddAfter :: "'a \<Rightarrow> nat \<Rightarrow> ('a, 'b) delayq_scheme \<Rightarrow> ('a, 'b) delayq_scheme" where
  "AddAfter item duration q =
     (if q_shuttingDown q then q
      else if duration = 0 then wq_Add item q
      else q\<lparr>dl_waitCh := dl_waitCh q @ [(item, dl_now q + duration)]\<rparr>)"

definition insert_entry :: "('a \<times> nat) list \<Rightarrow> 'a \<times> nat \<Rightarrow> ('a \<times> nat) list" where
  \<comment> \<open>an entry that is already waiting only moves to an earlier time\<close>
  "insert_entry known entry =
     (case map_of known (fst entry) of
        Some t \<Rightarrow> (if t > snd entry then map_put (fst entry) (snd entry) known else known)
      | None \<Rightarrow> known @ [entry])"

definition waiting_receive :: "('a, 'b) delayq_scheme \<Rightarrow> ('a, 'b) delayq_scheme" where
  \<comment> \<open>the loop takes one entry off the channel\<close>
  "waiting_receive q =
     (if q_shuttingDown q then q
      else case dl_waitCh q of
        [] \<Rightarrow> q
      | entry # rest \<Rightarrow>
          (let q1 = q\<lparr>dl_waitCh := rest\<rparr> in
           if snd entry > dl_now q1
           then q1\<lparr>dl_waiting := insert_entry (dl_waiting q1) entry\<rparr>
           else wq_Add (fst entry) q1))"

definition waiting_fire :: "('a, 'b) delayq_scheme \<Rightarrow> ('a, 'b) delayq_scheme" where
  \<comment> \<open>the loop adds the entries that are ready, earliest first\<close>
  "waiting_fire q =
     (if q_shuttingDown q then q
      else let ready = sort_key snd (filter (\<lambda>e. snd e \<le> dl_now q) (dl_waiting q));
               q1 = q\<lparr>dl_waiting := filter (\<lambda>e. snd e > dl_now q) (dl_waiting q)\<rparr>
           in fold (\<lambda>e. wq_Add (fst e)) ready q1)"

section \<open>Rate limiting\<close>

definition item_delay :: "nat \<Rightarrow> nat \<Rightarrow> nat \<Rightarrow> nat" where
  \<comment> \<open>\<open>ItemExponentialFailureRateLimiter.When\<close> after \<open>exp\<close> failures; \<open>math.MaxInt64\<close> as a \<open>float64\<close> is \<open>2^63\<close>\<close>
  "item_delay baseDelay maxDelay exp =
     (let backoff = baseDelay * 2 ^ exp in
      if backoff > 2 ^ 63 then maxDelay
      else if backoff > maxDelay then maxDelay
      else backoff)"

definition baseDelay :: nat where "baseDelay = 5000000"
definition maxDelay :: nat where "maxDelay = 1000000000000"

record 'a rlq = "'a delayq" +
  rl_failures :: "'a \<Rightarrow> nat"
  rl_bucket :: "nat \<Rightarrow> nat"
  rl_calls :: nat

definition When :: "'a \<Rightarrow> ('a, 'b) rlq_scheme \<Rightarrow> nat \<times> ('a, 'b) rlq_scheme" where
  \<comment> \<open>\<open>MaxOfRateLimiter.When\<close> over the two limiters of \<open>DefaultControllerRateLimiter\<close>\<close>
  "When item q =
     (let exp = rl_failures q item;
          q1 = q\<lparr>rl_failures := (rl_failures q)(item := exp + 1)\<rparr>;
          d1 = item_delay baseDelay maxDelay exp;
          d2 = rl_bucket q1 (rl_calls q1);
          q2 = q1\<lparr>rl_calls := rl_calls q1 + 1\<rparr>
      in (max (max 0 d1) d2, q2))"

definition Forget :: "'a \<Rightarrow> ('a, 'b) rlq_scheme \<Rightarrow> ('a, 'b) rlq_scheme" where
  "Forget item q = q\<lparr>rl_failures := (rl_failures q)(item := 0)\<rparr>"

definition NumRequeues :: "'a \<Rightarrow> ('a, 'b) rlq_scheme \<Rightarrow> nat" where
  "NumRequeues item q = max (rl_failures q item) 0"

definition AddRateLimited :: "'a \<Rightarrow> ('a, 'b) rlq_scheme \<Rightarrow> ('a, 'b) rlq_scheme" where
  "AddRateLimited item q = (let (d, q1) = When item q in AddAfter item d q1)"

definition new_rlq :: "(nat \<Rightarrow> nat) \<Rightarrow> 'a rlq" where
  "new_rlq bucket =
     \<lparr>q_queue = [], q_dirty = {}, q_processing = {}, q_shuttingDown = False,
      dl_now = 0, dl_waitCh = [], dl_waiting = [],
      rl_failures = (\<lambda>_. 0), rl_bucket = bucket, rl_calls = 0\<rparr>"

definition scheduled :: "'a \<Rightarrow> ('a, 'b) delayq_scheme \<Rightarrow> bool" where
  \<comment> \<open>the item will be handed out again: it is dirty or waits to be added\<close>
  "scheduled x q \<longleftrightarrow> x \<in> q_dirty q \<or> x \<in> fst ` set (dl_waitCh q) \<or> x \<in> fst ` set (dl_waiting q)"

section \<open>Workers sharing a queue\<close>

text \<open>
  Any number of workers, each idle or holding the item that \<open>Get\<close> gave it, over a queue given by its
  operations. Anyone may add an item at any time: informer handlers, the delaying loop and the
  workers themselves. A worker calls \<open>Done\<close> exactly once for each item it got.
\<close>

inductive worker_step ::
  "('a \<Rightarrow> 'q \<Rightarrow> 'q) \<Rightarrow> ('q \<Rightarrow> ('a, 'q) get_result) \<Rightarrow> ('a \<Rightarrow> 'q \<Rightarrow> 'q) \<Rightarrow> ('q \<Rightarrow> 'q)
     \<Rightarrow> (nat \<Rightarrow> 'a option) \<times> 'q \<Rightarrow> (nat \<Rightarrow> 'a option) \<times> 'q \<Rightarrow> bool"
  for add get finish shut where
  step_add: "worker_step add get finish shut (ws, q) (ws, add x q)"
| step_get: "ws i = None \<Longrightarrow> get q = GotItem x q' \<Longrightarrow>
     worker_step add get finish shut (ws, q) (ws(i := Some x), q')"
| step_done: "ws i = Some x \<Longrightarrow>
     worker_step add get finish shut (ws, q) (ws(i := None), finish x q)"
| step_shut: "worker_step add get finish shut (ws, q) (ws, shut q)"

inductive worker_reach ::
  "('a \<Rightarrow> 'q \<Rightarrow> 'q) \<Rightarrow> ('q \<Rightarrow> ('a, 'q) get_result) \<Rightarrow> ('a \<Rightarrow> 'q \<Rightarrow> 'q) \<Rightarrow> ('q \<Rightarrow> 'q) \<Rightarrow> 'q
     \<Rightarrow> (nat \<Rightarrow> 'a option) \<times> 'q \<Rightarrow> bool"
  for add get finish shut q0 where
  reach_init: "worker_reach add get finish shut q0 (\<lambda>_. None, q0)"
| reach_step: "worker_reach add get finish shut q0 s \<Longrightarrow> worker_step add get finish shut s t \<Longrightarrow>
     worker_reach add get finish shut q0 t"

section \<open>The contract of a work queue\<close>

text \<open>
  What a client may rely on: two sets, the items that are pending and the items that are active. \<open>Get\<close>
  hands out a pending item that nobody is working on, an item added again while it is active stays
  pending, and a queue that blocks has nothing to hand out.
\<close>

locale work_queue =
  fixes add :: "'a \<Rightarrow> 'q \<Rightarrow> 'q"
    and get :: "'q \<Rightarrow> ('a, 'q) get_result"
    and finish :: "'a \<Rightarrow> 'q \<Rightarrow> 'q"
    and shut :: "'q \<Rightarrow> 'q"
    and inv :: "'q \<Rightarrow> bool"
    and pending :: "'q \<Rightarrow> 'a set"
    and active :: "'q \<Rightarrow> 'a set"
    and closed :: "'q \<Rightarrow> bool"
  assumes add_inv: "inv q \<Longrightarrow> inv (add x q)"
    and add_pending: "pending (add x q) = (if closed q then pending q else insert x (pending q))"
    and add_active: "active (add x q) = active q"
    and add_closed: "closed (add x q) = closed q"
    and get_item: "inv q \<Longrightarrow> get q = GotItem x q' \<Longrightarrow>
      inv q' \<and> x \<in> pending q \<and> x \<notin> active q \<and> pending q' = pending q - {x}
        \<and> active q' = insert x (active q) \<and> closed q' = closed q"
    and get_blocks: "inv q \<Longrightarrow> get q = Blocks \<Longrightarrow> pending q \<subseteq> active q \<and> \<not> closed q"
    and get_shutdown: "inv q \<Longrightarrow> get q = GotShutdown \<Longrightarrow> pending q \<subseteq> active q \<and> closed q"
    and done_inv: "inv q \<Longrightarrow> x \<in> active q \<Longrightarrow> inv (finish x q)"
    and done_pending: "pending (finish x q) = pending q"
    and done_active: "active (finish x q) = active q - {x}"
    and done_closed: "closed (finish x q) = closed q"
    and shut_inv: "inv q \<Longrightarrow> inv (shut q)"
    and shut_sets: "pending (shut q) = pending q" "active (shut q) = active q"
    and shut_closed: "closed (shut q)"
begin

lemma step_keeps:
  assumes "worker_step add get finish shut s t"
    and "inv (snd s)" and "active (snd s) = ran (fst s)"
    and "\<And>i j x. fst s i = Some x \<Longrightarrow> fst s j = Some x \<Longrightarrow> i = j"
  shows "inv (snd t) \<and> active (snd t) = ran (fst t)
    \<and> (\<forall>i j x. fst t i = Some x \<longrightarrow> fst t j = Some x \<longrightarrow> i = j)"
  using assms(1)
proof cases
  case (step_add ws q x)
  then show ?thesis using assms(2-) by (simp add: add_inv add_active)
next
  case (step_get ws i q x q')
  have got: "inv q'" "x \<notin> active q" "active q' = insert x (active q)"
    using get_item [of q x q'] step_get assms(2) by auto
  have fresh: "ws j \<noteq> Some x" for j
    using got(2) assms(3) step_get by (auto simp: ran_def)
  show ?thesis
    using got fresh step_get assms(3,4) by (auto simp: ran_map_upd)
next
  case (step_done ws i x q)
  have inr: "x \<in> active q" using assms(3) step_done by (auto simp: ran_def)
  have others: "ws j \<noteq> Some x" if "j \<noteq> i" for j
    using assms(4) step_done that by auto
  have "ran (ws(i := None)) = ran ws - {x}"
    by (rule ran_delete_unique [where f = ws]) (use step_done(3) others in auto)
  then show ?thesis
    using step_done inr assms(2-4) by (auto simp: done_inv done_active)
next
  case (step_shut ws q)
  then show ?thesis using assms(2-) by (simp add: shut_inv shut_sets)
qed

lemma reach_keeps:
  assumes "worker_reach add get finish shut q0 s" and "inv q0" and "active q0 = {}"
  shows "inv (snd s) \<and> active (snd s) = ran (fst s)
    \<and> (\<forall>i j x. fst s i = Some x \<longrightarrow> fst s j = Some x \<longrightarrow> i = j)"
  using assms(1)
proof induction
  case reach_init
  then show ?case using assms(2,3) by simp
next
  case (reach_step s t)
  then show ?case by (intro step_keeps) auto
qed

lemma exclusive:
  assumes "worker_reach add get finish shut q0 (ws, q)" and "inv q0" and "active q0 = {}"
    and "ws i = Some x" and "ws j = Some x"
  shows "i = j"
  using reach_keeps [OF assms(1-3)] assms(4,5) by auto

lemma pending_kept:
  assumes "worker_step add get finish shut (ws, q) (ws', q')" and "inv q" and "x \<in> pending q"
  shows "x \<in> pending q' \<or> (\<exists>i. ws i = None \<and> ws' i = Some x)"
  using assms(1)
proof cases
  case (step_get i y)
  then show ?thesis using get_item [of q y q'] assms(2,3) by auto
qed (use assms(3) in \<open>auto simp: add_pending done_pending shut_sets\<close>)

lemma idle_progress:
  assumes "inv q" and "active q = {}" and "pending q \<noteq> {}"
  shows "\<exists>x q'. get q = GotItem x q' \<and> x \<in> pending q"
proof (cases "get q")
  case Blocks
  then show ?thesis using get_blocks [OF assms(1)] assms(2,3) by simp
next
  case GotShutdown
  then show ?thesis using get_shutdown [OF assms(1)] assms(2,3) by simp
next
  case (GotItem x q')
  then show ?thesis using get_item [OF assms(1) GotItem] by simp
qed

end

section \<open>Lemmas on the operations\<close>

lemma wq_Add_sets [simp]:
  "q_dirty (wq_Add x q) = (if q_shuttingDown q then q_dirty q else insert x (q_dirty q))"
  "q_processing (wq_Add x q) = q_processing q"
  "q_shuttingDown (wq_Add x q) = q_shuttingDown q"
  by (auto simp: wq_Add_def Let_def)

lemma wq_Done_sets [simp]:
  "q_dirty (wq_Done x q) = q_dirty q"
  "q_processing (wq_Done x q) = q_processing q - {x}"
  "q_shuttingDown (wq_Done x q) = q_shuttingDown q"
  by (auto simp: wq_Done_def Let_def)

lemma wq_ShutDown_sets [simp]:
  "q_dirty (wq_ShutDown q) = q_dirty q" "q_processing (wq_ShutDown q) = q_processing q"
  "q_queue (wq_ShutDown q) = q_queue q" "q_shuttingDown (wq_ShutDown q)"
  by (simp_all add: wq_ShutDown_def)

lemma wq_Add_inv: "wq_inv q \<Longrightarrow> wq_inv (wq_Add x q)"
  by (auto simp: wq_inv_def wq_Add_def Let_def)

lemma wq_Get_inv: "wq_inv q \<Longrightarrow> wq_Get q = GotItem x q' \<Longrightarrow> wq_inv q'"
  by (auto simp: wq_inv_def wq_Get_def split: list.splits if_splits)

lemma wq_Done_inv: "wq_inv q \<Longrightarrow> x \<in> q_processing q \<Longrightarrow> wq_inv (wq_Done x q)"
  by (auto simp: wq_inv_def wq_Done_def Let_def)

interpretation wqi: work_queue wq_Add wq_Get wq_Done wq_ShutDown wq_inv q_dirty q_processing
  q_shuttingDown
proof
  fix q q' :: "('a, 'b) wq_scheme" and x
  assume "wq_inv q" and "wq_Get q = GotItem x q'"
  then show "wq_inv q' \<and> x \<in> q_dirty q \<and> x \<notin> q_processing q \<and> q_dirty q' = q_dirty q - {x}
      \<and> q_processing q' = insert x (q_processing q) \<and> q_shuttingDown q' = q_shuttingDown q"
    using wq_Get_inv [of q x q']
    by (auto simp: wq_Get_def wq_inv_def split: list.splits if_splits)
qed (auto simp: wq_Add_inv wq_Done_inv, (auto simp: wq_inv_def wq_Get_def split: list.splits if_splits)+)

lemma item_delay_min: "item_delay baseDelay maxDelay n = min (baseDelay * 2 ^ n) maxDelay"
  by (simp add: item_delay_def baseDelay_def maxDelay_def Let_def min_def)

lemma wq_Add_delay [simp]:
  "dl_waitCh (wq_Add x q) = dl_waitCh q" "dl_waiting (wq_Add x q) = dl_waiting q"
  "dl_now (wq_Add x q) = dl_now q"
  by (simp_all add: wq_Add_def Let_def)

lemma wq_Add_rl [simp]:
  "rl_failures (wq_Add x q) = rl_failures q" "rl_calls (wq_Add x q) = rl_calls q"
  "rl_bucket (wq_Add x q) = rl_bucket q"
  by (simp_all add: wq_Add_def Let_def)

lemma wq_Done_delay [simp]:
  "dl_waitCh (wq_Done x q) = dl_waitCh q" "dl_waiting (wq_Done x q) = dl_waiting q"
  "dl_now (wq_Done x q) = dl_now q"
  by (simp_all add: wq_Done_def Let_def)

lemma wq_Done_rl [simp]:
  "rl_failures (wq_Done x q) = rl_failures q" "rl_calls (wq_Done x q) = rl_calls q"
  "rl_bucket (wq_Done x q) = rl_bucket q"
  by (simp_all add: wq_Done_def Let_def)

lemma AddAfter_sets [simp]:
  "q_processing (AddAfter x d q) = q_processing q"
  "q_shuttingDown (AddAfter x d q) = q_shuttingDown q"
  "dl_now (AddAfter x d q) = dl_now q"
  "dl_waiting (AddAfter x d q) = dl_waiting q"
  by (simp_all add: AddAfter_def)

lemma AddAfter_rl [simp]:
  "rl_failures (AddAfter x d q) = rl_failures q" "rl_calls (AddAfter x d q) = rl_calls q"
  by (simp_all add: AddAfter_def)

lemma Forget_simps [simp]:
  "q_queue (Forget x q) = q_queue q" "q_dirty (Forget x q) = q_dirty q"
  "q_processing (Forget x q) = q_processing q" "q_shuttingDown (Forget x q) = q_shuttingDown q"
  "dl_now (Forget x q) = dl_now q" "dl_waitCh (Forget x q) = dl_waitCh q"
  "dl_waiting (Forget x q) = dl_waiting q"
  "rl_failures (Forget x q) = (rl_failures q)(x := 0)" "rl_calls (Forget x q) = rl_calls q"
  by (simp_all add: Forget_def)

lemma scheduled_AddAfter:
  "\<not> q_shuttingDown q \<Longrightarrow> scheduled x (AddAfter x d q)"
  by (simp add: scheduled_def AddAfter_def)

lemma scheduled_insert_entry:
  "x \<in> fst ` set (insert_entry known e) \<longleftrightarrow> x = fst e \<or> x \<in> fst ` set known"
proof (cases "map_of known (fst e)")
  case None
  then show ?thesis by (auto simp: insert_entry_def)
next
  case (Some t)
  then have "fst e \<in> fst ` set known" by (metis map_of_SomeD fst_conv image_eqI)
  with Some show ?thesis by (auto simp: insert_entry_def)
qed

lemma scheduled_waiting_receive:
  "scheduled x q \<Longrightarrow> \<not> q_shuttingDown q \<Longrightarrow> scheduled x (waiting_receive q)"
  by (auto simp: scheduled_def waiting_receive_def Let_def scheduled_insert_entry
      split: list.splits)

lemma fold_wq_Add_sets [simp]:
  "q_shuttingDown (fold (\<lambda>e. wq_Add (fst e)) es q) = q_shuttingDown q"
  "q_processing (fold (\<lambda>e. wq_Add (fst e)) es q) = q_processing q"
  "dl_now (fold (\<lambda>e. wq_Add (fst e)) es q) = dl_now q"
  "dl_waitCh (fold (\<lambda>e. wq_Add (fst e)) es q) = dl_waitCh q"
  "dl_waiting (fold (\<lambda>e. wq_Add (fst e)) es q) = dl_waiting q"
  by (induction es arbitrary: q) simp_all

lemma fold_wq_Add_dirty:
  "\<not> q_shuttingDown q \<Longrightarrow>
     q_dirty (fold (\<lambda>e. wq_Add (fst e)) es q) = q_dirty q \<union> fst ` set es"
  by (induction es arbitrary: q) auto

lemma waiting_fire_dirty:
  "\<not> q_shuttingDown q \<Longrightarrow>
     q_dirty (waiting_fire q) = q_dirty q \<union> {x. \<exists>t \<le> dl_now q. (x, t) \<in> set (dl_waiting q)}"
  by (auto simp: waiting_fire_def Let_def fold_wq_Add_dirty image_iff)

lemma scheduled_waiting_fire:
  assumes "scheduled x q" and "\<not> q_shuttingDown q"
  shows "scheduled x (waiting_fire q)"
proof -
  have waiting: "set (dl_waiting (waiting_fire q)) = {e \<in> set (dl_waiting q). snd e > dl_now q}"
    and ch: "dl_waitCh (waiting_fire q) = dl_waitCh q"
    using assms(2) by (simp_all add: waiting_fire_def Let_def)
  consider "x \<in> q_dirty q" | "x \<in> fst ` set (dl_waitCh q)" | t where "(x, t) \<in> set (dl_waiting q)"
    using assms(1) by (auto simp: scheduled_def)
  then show ?thesis
  proof cases
    case (3 t)
    then show ?thesis
      using assms(2) by (cases "t \<le> dl_now q")
        (auto simp: scheduled_def waiting_fire_dirty waiting image_iff not_le)
  qed (use assms(2) in \<open>auto simp: scheduled_def waiting_fire_dirty ch\<close>)
qed

lemma When_simps [simp]:
  "q_queue (snd (When x q)) = q_queue q" "q_dirty (snd (When x q)) = q_dirty q"
  "q_processing (snd (When x q)) = q_processing q"
  "q_shuttingDown (snd (When x q)) = q_shuttingDown q"
  "dl_now (snd (When x q)) = dl_now q" "dl_waitCh (snd (When x q)) = dl_waitCh q"
  "dl_waiting (snd (When x q)) = dl_waiting q"
  "rl_failures (snd (When x q)) = (rl_failures q)(x := rl_failures q x + 1)"
  by (simp_all add: When_def Let_def)

lemma When_delay:
  "fst (When x q) = max (min (baseDelay * 2 ^ rl_failures q x) maxDelay) (rl_bucket q (rl_calls q))"
  by (simp add: When_def Let_def item_delay_min)

lemma AddRateLimited_eq: "AddRateLimited x q = AddAfter x (fst (When x q)) (snd (When x q))"
  by (simp add: AddRateLimited_def case_prod_beta)

lemma AddRateLimited_simps [simp]:
  "q_processing (AddRateLimited x q) = q_processing q"
  "q_shuttingDown (AddRateLimited x q) = q_shuttingDown q"
  "dl_now (AddRateLimited x q) = dl_now q"
  "rl_failures (AddRateLimited x q) = (rl_failures q)(x := rl_failures q x + 1)"
  by (simp_all add: AddRateLimited_eq)

lemma AddRateLimited_waits:
  assumes "\<not> q_shuttingDown q"
  shows "AddRateLimited x q = (snd (When x q))\<lparr>dl_waitCh := dl_waitCh q @ [(x, dl_now q + fst (When x q))]\<rparr>"
proof -
  have "fst (When x q) > 0" by (simp add: When_delay baseDelay_def maxDelay_def less_max_iff_disj)
  then show ?thesis using assms by (simp add: AddRateLimited_eq AddAfter_def)
qed

lemma scheduled_AddRateLimited: "\<not> q_shuttingDown q \<Longrightarrow> scheduled x (AddRateLimited x q)"
  by (simp add: AddRateLimited_eq scheduled_AddAfter)

lemma insert_entry_time:
  "\<exists>t \<le> r. (x, t) \<in> set (insert_entry known (x, r))"
proof (cases "map_of known x")
  case None
  then show ?thesis by (auto simp: insert_entry_def)
next
  case (Some t)
  show ?thesis
  proof (cases "t > r")
    case True
    then have "map_of (insert_entry known (x, r)) x = Some r"
      using Some by (simp add: insert_entry_def)
    then show ?thesis by (auto dest: map_of_SomeD)
  next
    case False
    then have "insert_entry known (x, r) = known" using Some by (simp add: insert_entry_def)
    then show ?thesis using map_of_SomeD [OF Some] False by (auto intro: exI [of _ t])
  qed
qed

section \<open>Properties\<close>

text \<open>
  No two workers of a controller ever work on the same item at the same time: in every state
  reachable from the queue a controller creates, under any interleaving of adds, gets, completions
  and shutdown, an item held by one worker is not held by another.
\<close>

theorem workers_exclusive:
  assumes "worker_reach wq_Add wq_Get wq_Done wq_ShutDown (new_rlq bucket) (ws, q)"
    and "ws i = Some x" and "i \<noteq> j"
  shows "ws j \<noteq> Some x"
proof
  assume "ws j = Some x"
  with assms have "i = j"
    by (intro wqi.exclusive [OF assms(1)]) (simp_all add: wq_inv_def new_rlq_def)
  with assms(3) show False by simp
qed

theorem workers_exclusive_witness:
  "\<exists>ws (q :: string rlq). worker_reach wq_Add wq_Get wq_Done wq_ShutDown (new_rlq (\<lambda>_. 0)) (ws, q)
     \<and> ws 0 = Some ''default/a'' \<and> (0::nat) \<noteq> 1 \<and> ws 1 \<noteq> Some ''default/a''"
proof -
  define q0 :: "string rlq" where "q0 = new_rlq (\<lambda>_. 0)"
  define q1 where "q1 = wq_Add ''default/a'' q0"
  obtain q2 where get: "wq_Get q1 = GotItem ''default/a'' q2"
    by (simp add: q1_def q0_def new_rlq_def wq_Add_def wq_Get_def)
  have r0: "worker_reach wq_Add wq_Get wq_Done wq_ShutDown q0 (\<lambda>_. None, q0)" by (rule reach_init)
  have r1: "worker_reach wq_Add wq_Get wq_Done wq_ShutDown q0 (\<lambda>_. None, q1)"
    unfolding q1_def by (rule reach_step [OF r0]) (rule step_add)
  have r2: "worker_reach wq_Add wq_Get wq_Done wq_ShutDown q0 ((\<lambda>_. None)(0 := Some ''default/a''), q2)"
    by (rule reach_step [OF r1]) (rule step_get, simp_all add: get)
  have "((\<lambda>_. None)(0::nat := Some ''default/a'')) 1 \<noteq> Some ''default/a''"
    by (rule workers_exclusive [OF r2 [unfolded q0_def], where i = 0]) simp_all
  then show ?thesis
    using r2 [unfolded q0_def]
    by (intro exI [of _ "(\<lambda>_. None)(0 := Some ''default/a'')"] exI [of _ q2]) simp
qed

text \<open>
  A change that arrives while its item is being processed is not lost: an item that needs
  processing stays marked, step by step, until a worker that was idle gets it.
\<close>

theorem pending_item_not_lost:
  fixes q q' :: "'a rlq"
  assumes "worker_step wq_Add wq_Get wq_Done wq_ShutDown (ws, q) (ws', q')"
    and "wq_inv q" and "x \<in> q_dirty q"
  shows "x \<in> q_dirty q' \<or> (\<exists>i. ws i = None \<and> ws' i = Some x)"
  using assms by (rule wqi.pending_kept)

theorem pending_item_not_lost_witness:
  "let q = wq_Add ''a'' (new_rlq (\<lambda>_. 0) :: string rlq);
       q' = wq_Add ''b'' q
   in worker_step wq_Add wq_Get wq_Done wq_ShutDown (\<lambda>_. None, q) (\<lambda>_. None, q')
     \<and> wq_inv q \<and> ''a'' \<in> q_dirty q \<and> ''a'' \<in> q_dirty q'"
proof -
  let ?q = "wq_Add ''a'' (new_rlq (\<lambda>_. 0) :: string rlq)"
  have st: "worker_step wq_Add wq_Get wq_Done wq_ShutDown (\<lambda>_. None, ?q) (\<lambda>_. None, wq_Add ''b'' ?q)"
    by (rule step_add)
  have inv: "wq_inv ?q" and dirty: "''a'' \<in> q_dirty ?q"
    by (simp_all add: wq_inv_def wq_Add_def new_rlq_def)
  show ?thesis using pending_item_not_lost [OF st inv dirty] st inv dirty by (simp add: Let_def)
qed

text \<open>
  The back-off of the n-th retry of an item is 5 ms doubled n times, capped at 1000 s: the guard
  against overflow never changes the result for the limiter the controllers use.
\<close>

theorem retry_delay:
  "fst (When x q) = max (min (5000000 * 2 ^ rl_failures q x) 1000000000000) (rl_bucket q (rl_calls q))"
  by (simp add: When_delay baseDelay_def maxDelay_def)

text \<open>
  A rate limited add comes back: on an open queue whose channel is empty, once the delay has
  passed, one iteration of the waiting loop makes the item dirty again.
\<close>

theorem rate_limited_item_returns:
  fixes q :: "'a rlq"
  assumes "\<not> q_shuttingDown q" and "dl_waitCh q = []"
    and "dl_now q + fst (When x q) \<le> t"
  shows "x \<in> q_dirty (waiting_fire ((waiting_receive (AddRateLimited x q))\<lparr>dl_now := t\<rparr>))"
proof -
  let ?r = "dl_now q + fst (When x q)"
  let ?q1 = "waiting_receive (AddRateLimited x q)"
  have pos: "fst (When x q) > 0"
    by (simp add: When_delay baseDelay_def maxDelay_def less_max_iff_disj)
  then have "dl_waiting ?q1 = insert_entry (dl_waiting q) (x, ?r)"
    using assms by (simp add: AddRateLimited_waits waiting_receive_def)
  then obtain t' where "t' \<le> ?r" and "(x, t') \<in> set (dl_waiting ?q1)"
    using insert_entry_time [of ?r x "dl_waiting q"] by auto
  moreover have "\<not> q_shuttingDown (?q1\<lparr>dl_now := t\<rparr>)"
    using assms pos by (simp add: AddRateLimited_waits waiting_receive_def)
  ultimately show ?thesis using assms(3) by (auto simp: waiting_fire_dirty)
qed

theorem rate_limited_item_returns_witness:
  "''a'' \<in> q_dirty (waiting_fire
     ((waiting_receive (AddRateLimited ''a'' (new_rlq (\<lambda>_. 0))))\<lparr>dl_now := 5000000\<rparr>))"
  by (rule rate_limited_item_returns) (simp_all add: new_rlq_def When_delay baseDelay_def maxDelay_def)

end
