(* ===== verification/ControllerLoop.thy ===== *)
theory ControllerLoop
  imports Operator Workqueue
begin

text \<open>
  What the four controllers have in common. Each has its own work queue and the same functions
  \<open>enqueue\<close>, \<open>enqueueOwned\<close>, \<open>Run\<close>, \<open>worker\<close> and \<open>processWorkItem\<close>, word for word; they differ in \<open>syncHandler\<close> and in
  the events they subscribe to. The functions are modelled once here, with \<open>syncHandler\<close> as a parameter.

  The locale \<open>sync_handler\<close> is the contract of a \<open>syncHandler\<close> towards the loop: it touches the queue at
  most by one delayed add of its own key, it keeps the caches well formed, and it only appends to the
  log of API calls. The lemmas on the loop are proved once from that contract; each controller's
  theory interprets it.

  A worker may loop forever, so \<open>worker\<close> has fuel, one unit for each item. \<open>worker_drains\<close> shows that one
  unit more than the number of pending items is enough for the worker to come to rest.
\<close>

section \<open>State\<close>

datatype item = StringItem string | OtherItem string
  \<comment> \<open>what an \<open>interface{}\<close> in the queue holds: a string, or something else given by its \<open>%#v\<close> text\<close>

record ctl =
  ctl_cluster :: cluster
  ctl_queue :: "item rlq"

definition on_queue :: "(item rlq \<Rightarrow> item rlq) \<Rightarrow> ctl \<Rightarrow> ctl" where
  "on_queue f st = st\<lparr>ctl_queue := f (ctl_queue st)\<rparr>"

definition on_cluster :: "(cluster \<Rightarrow> cluster) \<Rightarrow> ctl \<Rightarrow> ctl" where
  "on_cluster f st = st\<lparr>ctl_cluster := f (ctl_cluster st)\<rparr>"

definition second :: nat where "second = 1000000000"

section \<open>Event handlers\<close>

definition enqueue :: "event_obj \<Rightarrow> item rlq \<Rightarrow> item rlq" where
  \<comment> \<open>an object without metadata is logged and dropped\<close>
  "enqueue obj q =
     (case DeletionHandlingMetaNamespaceKeyFunc obj of
        Inl err \<Rightarrow> q
      | Inr key \<Rightarrow> wq_Add (StringItem key) q)"

definition enqueueOwned :: "event_obj \<Rightarrow> item rlq \<Rightarrow> item rlq" where
  "enqueueOwned obj q =
     (case accessor obj of
        None \<Rightarrow> q
      | Some m \<Rightarrow>
          (case GetControllerOf m of
             None \<Rightarrow> q
           | Some owner \<Rightarrow>
               (if ref_APIVersion owner = SchemeGroupVersionString \<and> ref_Kind owner = ''MemcachedProxy''
                then wq_Add (StringItem (om_Namespace m @ ''/'' @ ref_Name owner)) q
                else q)))"

text \<open>An event of an informer and the three functions a handler registers for it.\<close>

datatype informer_event = Added event_obj | Updated event_obj event_obj | Deleted event_obj

fun dispatch ::
  "(event_obj \<Rightarrow> item rlq \<Rightarrow> item rlq) \<Rightarrow> (event_obj \<Rightarrow> event_obj \<Rightarrow> item rlq \<Rightarrow> item rlq)
     \<Rightarrow> (event_obj \<Rightarrow> item rlq \<Rightarrow> item rlq) \<Rightarrow> informer_event \<Rightarrow> item rlq \<Rightarrow> item rlq" where
  "dispatch AddFunc UpdateFunc DeleteFunc (Added obj) q = AddFunc obj q"
| "dispatch AddFunc UpdateFunc DeleteFunc (Updated old new) q = UpdateFunc old new q"
| "dispatch AddFunc UpdateFunc DeleteFunc (Deleted obj) q = DeleteFunc obj q"

section \<open>Controllers\<close>

text \<open>
  What \<open>New\<close> builds, as far as behaviour goes: a name, a number of workers, the method that runs them, the handlers it
  registers with each informer, and the function that processes a key. A handler runs with the caches at hand, because the
  endpoints handlers list proxies; \<open>None\<close> is a handler that panics.
\<close>

type_synonym handler = "string \<Rightarrow> ctl \<Rightarrow> outcome \<times> ctl"

datatype informer = ProxyInformer | ServiceInformer | EndpointsInformer | ConfigMapInformer
  | DeploymentInformer | ReplicaSetInformer

instantiation informer :: enum
begin

definition enum_informer :: "informer list" where
  "enum_informer = [ProxyInformer, ServiceInformer, EndpointsInformer, ConfigMapInformer, DeploymentInformer, ReplicaSetInformer]"

definition enum_all_informer :: "(informer \<Rightarrow> bool) \<Rightarrow> bool" where
  "enum_all_informer P = list_all P enum_class.enum"

definition enum_ex_informer :: "(informer \<Rightarrow> bool) \<Rightarrow> bool" where
  "enum_ex_informer P = list_ex P enum_class.enum"

instance
proof
  show univ: "UNIV = set (enum_class.enum :: informer list)"
    unfolding enum_informer_def by (auto intro: informer.exhaust)
  show "distinct (enum_class.enum :: informer list)" by (simp add: enum_informer_def)
  show "enum_class.enum_all P = Ball UNIV P" for P :: "informer \<Rightarrow> bool"
    unfolding enum_all_informer_def univ by (simp add: list_all_iff)
  show "enum_class.enum_ex P = Bex UNIV P" for P :: "informer \<Rightarrow> bool"
    unfolding enum_ex_informer_def univ by (simp add: list_ex_iff)
qed

end

record controller =
  c_name :: string
  c_workers :: int
  c_Run :: "int \<Rightarrow> nat list \<times> (ctl \<Rightarrow> ctl)"
  c_handlers :: "env \<Rightarrow> informer \<Rightarrow> informer_event \<Rightarrow> ctl \<Rightarrow> ctl option"
  c_syncHandler :: "env \<Rightarrow> handler"

section \<open>Looking a proxy up\<close>

text \<open>
  Three of the four \<open>syncHandler\<close>s begin alike: they split the key, look the proxy up, give up quietly when it
  is gone, and put the key back when the proxy controller has not seen the current generation. \<open>k\<close> is what
  follows.
\<close>

definition proxy_resource :: string where
  \<comment> \<open>the group resource in the text of a not-found error\<close>
  "proxy_resource = ''memcachedproxy.'' @ GroupName"

definition get_proxy :: "cluster \<Rightarrow> string \<Rightarrow> string \<Rightarrow> go_error + MemcachedProxy" where
  \<comment> \<open>\<open>c.pLister.MemcachedProxies(ns).Get(name)\<close>\<close>
  "get_proxy cl ns name = lister_Get proxy_resource (cl_proxies cl) ns name"

definition with_observed_proxy ::
  "string \<Rightarrow> ctl \<Rightarrow> (string \<Rightarrow> MemcachedProxy \<Rightarrow> outcome \<times> ctl) \<Rightarrow> outcome \<times> ctl" where
  "with_observed_proxy key st k =
     (case SplitMetaNamespaceKey key of
        Inl err \<Rightarrow> (RetErr (ErrorString (''invalid resource key: '' @ key)), st)
      | Inr (ns, name) \<Rightarrow>
          (case get_proxy (ctl_cluster st) ns name of
             Inl err \<Rightarrow> (if IsNotFound err then (RetNil, st) else (RetErr err, st))
           | Inr p \<Rightarrow>
               (if om_Generation (mp_Meta p) \<noteq> st_ObservedGeneration (mp_Status p)
                then (RetNil, on_queue (AddRateLimited (StringItem key)) st)
                else k ns p)))"

definition start :: "cluster \<Rightarrow> ctl" where
  \<comment> \<open>a controller that starts with given caches and an empty queue\<close>
  "start cl = \<lparr>ctl_cluster = cl, ctl_queue = new_rlq (\<lambda>_. 0)\<rparr>"

definition observed_proxy :: MemcachedProxy where
  \<comment> \<open>the example proxy after the proxy controller is done with it\<close>
  "observed_proxy = (ApplyDefaults example_proxy)\<lparr>mp_Status := \<lparr>st_ObservedGeneration = 1\<rparr>\<rparr>"

definition observed_cluster :: cluster where
  "observed_cluster = empty_cluster\<lparr>cl_proxies := ix_Add mp_Meta observed_proxy new_indexer\<rparr>"

section \<open>The loop\<close>

definition processWorkItem :: "handler \<Rightarrow> item \<Rightarrow> ctl \<Rightarrow> outcome \<times> ctl" where
  \<comment> \<open>the deferred \<open>Done\<close> runs on every way out, a panic included\<close>
  "processWorkItem syncHandler obj st =
     (let (res, st1) =
        (case obj of
           OtherItem shown \<Rightarrow>
             (RetErr (ErrorString (''expected string in workqueue but got '' @ shown)), on_queue (Forget obj) st)
         | StringItem key \<Rightarrow>
             (case syncHandler key st of
                (RetErr err, st') \<Rightarrow>
                  (RetErr (ErrorString (''error syncing '' @ Quote key @ '': '' @ ErrorText err)), st')
              | (RetNil, st') \<Rightarrow> (RetNil, on_queue (Forget obj) st')
              | (Panic, st') \<Rightarrow> (Panic, st')))
      in (res, on_queue (wq_Done obj) st1))"

datatype worker_status = Running | Waiting | Returned | Crashed

fun worker :: "handler \<Rightarrow> nat \<Rightarrow> ctl \<Rightarrow> worker_status \<times> ctl" where
  "worker syncHandler 0 st = (Running, st)"
| "worker syncHandler (Suc fuel) st =
     (case wq_Get (ctl_queue st) of
        Blocks \<Rightarrow> (Waiting, st)
      | GotShutdown \<Rightarrow> (Returned, st)
      | GotItem obj q \<Rightarrow>
          (case processWorkItem syncHandler obj (st\<lparr>ctl_queue := q\<rparr>) of
             (RetNil, st1) \<Rightarrow> worker syncHandler fuel st1
           | (RetErr err, st1) \<Rightarrow> worker syncHandler fuel (on_queue (AddRateLimited obj) st1)
           | (Panic, st1) \<Rightarrow> (Crashed, st1)))"

text \<open>
  \<open>Run\<close> in two parts: the workers it starts, and what it does to the controller once its context is cancelled.
\<close>

definition Run_workers :: "int \<Rightarrow> nat list" where
  \<comment> \<open>the goroutines \<open>Run\<close> starts, by the value of its loop counter\<close>
  "Run_workers workers = [0..<nat workers]"

definition Run_cancel :: "ctl \<Rightarrow> ctl" where
  \<comment> \<open>\<open>Run\<close> waits for its context, then the deferred \<open>ShutDown\<close> closes the queue; the workers notice it
      at their next \<open>Get\<close>\<close>
  "Run_cancel st = on_queue wq_ShutDown st"

definition Run :: "int \<Rightarrow> nat list \<times> (ctl \<Rightarrow> ctl)" where
  "Run workers = (Run_workers workers, Run_cancel)"

section \<open>The contract of a syncHandler\<close>

definition requeued :: "item \<Rightarrow> item rlq \<Rightarrow> item rlq \<Rightarrow> bool" where
  "requeued x q q' \<longleftrightarrow> q' = q \<or> q' = AddRateLimited x q \<or> q' = AddAfter x second q"

definition quiet :: "item rlq \<Rightarrow> item rlq \<Rightarrow> bool" where
  \<comment> \<open>a change of the queue that leaves its three sets alone\<close>
  "quiet q q' \<longleftrightarrow> q_dirty q' = q_dirty q \<and> q_processing q' = q_processing q
     \<and> q_queue q' = q_queue q \<and> q_shuttingDown q' = q_shuttingDown q"

lemma on_simps [simp]:
  "ctl_queue (on_queue f st) = f (ctl_queue st)" "ctl_cluster (on_queue f st) = ctl_cluster st"
  "ctl_queue (on_cluster g st) = ctl_queue st" "ctl_cluster (on_cluster g st) = g (ctl_cluster st)"
  by (simp_all add: on_queue_def on_cluster_def)

lemma quiet_refl [simp]: "quiet q q"
  by (simp add: quiet_def)

lemma quiet_trans [trans]: "quiet q q' \<Longrightarrow> quiet q' q'' \<Longrightarrow> quiet q q''"
  by (simp add: quiet_def)

lemma quiet_inv: "quiet q q' \<Longrightarrow> wq_inv q' = wq_inv q"
  by (simp add: quiet_def wq_inv_def)

lemma quiet_AddAfter: "0 < d \<Longrightarrow> quiet q (AddAfter x d q)"
  by (simp add: quiet_def AddAfter_def)

lemma quiet_AddRateLimited: "quiet q (AddRateLimited x q)"
proof -
  have "0 < fst (When x q)" by (simp add: When_delay baseDelay_def maxDelay_def less_max_iff_disj)
  then have "quiet (snd (When x q)) (AddRateLimited x q)"
    unfolding AddRateLimited_eq by (rule quiet_AddAfter)
  moreover have "quiet q (snd (When x q))" by (simp add: quiet_def When_def Let_def)
  ultimately show ?thesis by (rule quiet_trans [rotated])
qed

lemma quiet_Forget: "quiet q (Forget x q)"
  by (simp add: quiet_def Forget_def)

lemma requeued_quiet: "requeued x q q' \<Longrightarrow> quiet q q'"
  by (auto simp: requeued_def quiet_AddRateLimited second_def intro: quiet_AddAfter)

lemma Get_GotItem:
  assumes "wq_inv q" and "wq_Get q = GotItem x q'"
  shows "wq_inv q'" "x \<in> q_dirty q" "q_dirty q' = q_dirty q - {x}" "q_processing q' = insert x (q_processing q)"
    "q_shuttingDown q' = q_shuttingDown q" "rl_failures q' = rl_failures q"
  using wqi.get_item [OF assms] assms(2) by (auto simp: wq_Get_def split: list.splits if_splits)

lemma processWorkItem_StringItem:
  "processWorkItem syncHandler (StringItem key) st =
     (case syncHandler key st of
        (RetErr err, st') \<Rightarrow> (RetErr (ErrorString (''error syncing '' @ Quote key @ '': '' @ ErrorText err)),
           on_queue (wq_Done (StringItem key)) st')
      | (RetNil, st') \<Rightarrow> (RetNil, on_queue (wq_Done (StringItem key)) (on_queue (Forget (StringItem key)) st'))
      | (Panic, st') \<Rightarrow> (Panic, on_queue (wq_Done (StringItem key)) st'))"
  by (simp add: processWorkItem_def split: prod.split outcome.split)

locale sync_handler =
  fixes syncHandler :: handler
  assumes sync_queue: "requeued (StringItem key) (ctl_queue st) (ctl_queue (snd (syncHandler key st)))"
    and sync_caches: "cluster_inv (ctl_cluster st) \<Longrightarrow> cluster_inv (ctl_cluster (snd (syncHandler key st)))"
    and sync_log: "\<exists>calls. cl_actions (ctl_cluster (snd (syncHandler key st))) = cl_actions (ctl_cluster st) @ calls"
begin

lemma process_queue:
  assumes "processWorkItem syncHandler obj st = (res, st')"
  shows "\<exists>q. quiet (ctl_queue st) q \<and> ctl_queue st' = wq_Done obj q"
proof (cases obj)
  case (StringItem key)
  obtain r st1 where sync: "syncHandler key st = (r, st1)" by fastforce
  then have "quiet (ctl_queue st) (ctl_queue st1)"
    using sync_queue [of key st] by (auto intro: requeued_quiet)
  moreover from this have "quiet (ctl_queue st) (Forget obj (ctl_queue st1))"
    by (rule quiet_trans) (rule quiet_Forget)
  ultimately show ?thesis
    using assms sync StringItem by (cases r) (auto simp: processWorkItem_StringItem)
next
  case (OtherItem shown)
  then have "ctl_queue st' = wq_Done obj (Forget obj (ctl_queue st))"
    using assms by (auto simp: processWorkItem_def)
  then show ?thesis using quiet_Forget by blast
qed

lemma process_caches:
  assumes "processWorkItem syncHandler obj st = (res, st')" and "cluster_inv (ctl_cluster st)"
  shows "cluster_inv (ctl_cluster st')
    \<and> (\<exists>calls. cl_actions (ctl_cluster st') = cl_actions (ctl_cluster st) @ calls)"
proof (cases obj)
  case (StringItem key)
  obtain r st1 where sync: "syncHandler key st = (r, st1)" by fastforce
  then have "ctl_cluster st' = ctl_cluster st1"
    using assms(1) StringItem by (cases r) (auto simp: processWorkItem_StringItem)
  then show ?thesis using sync_caches [OF assms(2), of key] sync_log [of key st] sync by simp
next
  case (OtherItem shown)
  then show ?thesis using assms by (auto simp: processWorkItem_def)
qed

lemma process_step:
  assumes "wq_inv (ctl_queue st)" and "wq_Get (ctl_queue st) = GotItem obj q"
    and "processWorkItem syncHandler obj (st\<lparr>ctl_queue := q\<rparr>) = (res, st')"
  shows "wq_inv (ctl_queue st')" "obj \<in> q_dirty (ctl_queue st)"
    "q_dirty (ctl_queue st') = q_dirty (ctl_queue st) - {obj}"
    "q_processing (ctl_queue st') = q_processing (ctl_queue st) - {obj}"
    "q_shuttingDown (ctl_queue st') = q_shuttingDown (ctl_queue st)"
proof -
  note got = Get_GotItem [OF assms(1,2)]
  from process_queue [OF assms(3)] obtain q1 where
    q1: "quiet q q1" "ctl_queue st' = wq_Done obj q1" by auto
  then have "wq_inv q1" "obj \<in> q_processing q1" using got quiet_inv [OF q1(1)] by (auto simp: quiet_def)
  then show "wq_inv (ctl_queue st')" using q1(2) wq_Done_inv by simp
  show "obj \<in> q_dirty (ctl_queue st)" by (rule got(2))
  show "q_dirty (ctl_queue st') = q_dirty (ctl_queue st) - {obj}"
    "q_processing (ctl_queue st') = q_processing (ctl_queue st) - {obj}"
    "q_shuttingDown (ctl_queue st') = q_shuttingDown (ctl_queue st)"
    using q1 got by (auto simp: quiet_def)
qed

lemma worker_rests:
  assumes "wq_inv (ctl_queue st)" and "q_processing (ctl_queue st) = {}"
    and "finite (q_dirty (ctl_queue st))" and "card (q_dirty (ctl_queue st)) < fuel"
    and "worker syncHandler fuel st = (status, st')"
  shows "status = Crashed \<or> q_dirty (ctl_queue st') = {}
      \<and> status = (if q_shuttingDown (ctl_queue st) then Returned else Waiting)"
  using assms
proof (induction fuel arbitrary: st)
  case (Suc fuel)
  show ?case
  proof (cases "wq_Get (ctl_queue st)")
    case Blocks
    then show ?thesis using wqi.get_blocks [OF Suc.prems(1) Blocks] Suc.prems(2,5) by auto
  next
    case GotShutdown
    then show ?thesis using wqi.get_shutdown [OF Suc.prems(1) GotShutdown] Suc.prems(2,5) by auto
  next
    case (GotItem obj q)
    obtain res st1 where process: "processWorkItem syncHandler obj (st\<lparr>ctl_queue := q\<rparr>) = (res, st1)"
      by fastforce
    note st1 = process_step [OF Suc.prems(1) GotItem process]
    have less: "finite (q_dirty (ctl_queue st1))" "card (q_dirty (ctl_queue st1)) < fuel"
      using Suc.prems(3,4) card_Diff1_less [OF Suc.prems(3) st1(2)] by (simp_all add: st1(3))
    have idle: "q_processing (ctl_queue st1) = {}" using st1(4) Suc.prems(2) by simp
    show ?thesis
    proof (cases res)
      case RetNil
      then show ?thesis
        using Suc.IH [OF st1(1) idle less] Suc.prems(5) GotItem process st1(5) by simp
    next
      case (RetErr err)
      let ?st2 = "on_queue (AddRateLimited obj) st1"
      have quiet: "quiet (ctl_queue st1) (ctl_queue ?st2)" using quiet_AddRateLimited by simp
      have "worker syncHandler fuel ?st2 = (status, st')" using Suc.prems(5) GotItem process RetErr by simp
      moreover have "wq_inv (ctl_queue ?st2)" using quiet_inv [OF quiet] st1(1) by blast
      ultimately show ?thesis
        using Suc.IH [of ?st2] quiet [unfolded quiet_def] st1(5) idle less by simp
    next
      case Panic
      then show ?thesis using Suc.prems(5) GotItem process by simp
    qed
  qed
qed simp

lemma worker_keeps:
  assumes "cluster_inv (ctl_cluster st)" and "worker syncHandler fuel st = (status, st')"
  shows "cluster_inv (ctl_cluster st')
    \<and> (\<exists>calls. cl_actions (ctl_cluster st') = cl_actions (ctl_cluster st) @ calls)"
  using assms
proof (induction fuel arbitrary: st)
  case (Suc fuel)
  show ?case
  proof (cases "wq_Get (ctl_queue st)")
    case (GotItem obj q)
    obtain res st1 where process: "processWorkItem syncHandler obj (st\<lparr>ctl_queue := q\<rparr>) = (res, st1)"
      by fastforce
    then have kept: "cluster_inv (ctl_cluster st1)"
      "\<exists>calls. cl_actions (ctl_cluster st1) = cl_actions (ctl_cluster st) @ calls"
      using process_caches [OF process] Suc.prems(1) by auto
    show ?thesis
    proof (cases res)
      case (RetErr err)
      then have "worker syncHandler fuel (on_queue (AddRateLimited obj) st1) = (status, st')"
        using Suc.prems(2) GotItem process by simp
      from Suc.IH [OF _ this] show ?thesis using kept by auto
    qed (use Suc.IH [of st1] Suc.prems GotItem process kept in auto)
  qed (use Suc.prems in auto)
qed simp

lemma failed_key_returns:
  assumes "processWorkItem syncHandler (StringItem key) st = (RetErr err, st')"
    and "\<not> q_shuttingDown (ctl_queue st)"
  shows "scheduled (StringItem key) (AddRateLimited (StringItem key) (ctl_queue st'))
    \<and> rl_failures (AddRateLimited (StringItem key) (ctl_queue st')) (StringItem key) > rl_failures (ctl_queue st) (StringItem key)"
proof -
  obtain r st1 where sync: "syncHandler key st = (r, st1)" by fastforce
  then obtain err' where st': "st' = on_queue (wq_Done (StringItem key)) st1"
    using assms(1) by (auto simp: processWorkItem_StringItem split: outcome.splits)
  have "requeued (StringItem key) (ctl_queue st) (ctl_queue st1)" using sync_queue [of key st] sync by simp
  then have "q_shuttingDown (ctl_queue st1) = q_shuttingDown (ctl_queue st)"
    "rl_failures (ctl_queue st1) (StringItem key) \<ge> rl_failures (ctl_queue st) (StringItem key)"
    by (auto simp: requeued_def)
  then show ?thesis using st' assms(2) by (simp add: scheduled_AddRateLimited)
qed

end

text \<open>A handler that never dereferences nil keeps the worker alive.\<close>

locale panic_free_handler = sync_handler +
  assumes sync_no_panic: "fst (syncHandler key st) \<noteq> Panic"
begin

lemma process_no_panic: "fst (processWorkItem syncHandler obj st) \<noteq> Panic"
proof (cases obj)
  case (StringItem key)
  then show ?thesis
    using sync_no_panic [of key st] by (auto simp: processWorkItem_StringItem split: prod.split outcome.split)
qed (simp add: processWorkItem_def)

lemma worker_no_crash: "fst (worker syncHandler fuel st) \<noteq> Crashed"
proof (induction fuel arbitrary: st)
  case (Suc fuel)
  show ?case
  proof (cases "wq_Get (ctl_queue st)")
    case (GotItem obj q)
    then show ?thesis
      using Suc.IH process_no_panic [of obj "st\<lparr>ctl_queue := q\<rparr>"]
      by (auto split: prod.split outcome.split)
  qed simp_all
qed simp

lemma worker_drains:
  assumes "wq_inv (ctl_queue st)" and "q_processing (ctl_queue st) = {}"
    and "finite (q_dirty (ctl_queue st))" and "card (q_dirty (ctl_queue st)) < fuel"
  shows "fst (worker syncHandler fuel st) = (if q_shuttingDown (ctl_queue st) then Returned else Waiting)
    \<and> q_dirty (ctl_queue (snd (worker syncHandler fuel st))) = {}"
  using worker_rests [OF assms prod.collapse [symmetric]] worker_no_crash [of fuel st] by auto

end

section \<open>Lemmas on looking a proxy up\<close>

lemma start_simps [simp]:
  "ctl_cluster (start cl) = cl" "q_dirty (ctl_queue (start cl)) = {}" "q_processing (ctl_queue (start cl)) = {}"
  "q_shuttingDown (ctl_queue (start cl)) = False"
  by (simp_all add: start_def new_rlq_def)

lemma wq_inv_start: "wq_inv (ctl_queue (start cl))"
  by (simp add: start_def new_rlq_def wq_inv_def)

lemma get_proxy_iff: "get_proxy cl ns name = Inr p \<longleftrightarrow> map_of (ix_items (cl_proxies cl)) (ns @ ''/'' @ name) = Some p"
  by (auto simp: get_proxy_def lister_Get_def ix_GetByKey_def split: option.splits)

lemma get_proxy_Inl: "get_proxy cl ns name = Inl err \<Longrightarrow> IsNotFound err"
  by (auto simp: get_proxy_def lister_Get_def NewNotFound_def split: option.splits)

lemma get_proxy_meta:
  assumes "cluster_inv cl" and "get_proxy cl ns name = Inr p" and "ns \<noteq> []"
    and "CHR ''/'' \<notin> set ns" and "CHR ''/'' \<notin> set name"
    and "CHR ''/'' \<notin> set (om_Namespace (mp_Meta p))" and "CHR ''/'' \<notin> set (om_Name (mp_Meta p))"
  shows "om_Namespace (mp_Meta p) = ns \<and> om_Name (mp_Meta p) = name"
proof -
  have "ns @ ''/'' @ name = meta_key (mp_Meta p)"
    using assms(1,2) by (intro ix_inv_map_of_key) (auto simp: cluster_inv_def get_proxy_iff)
  then have "SplitMetaNamespaceKey (meta_key (mp_Meta p)) = Inr (ns, name)"
    using SplitMetaNamespaceKey_pair [OF assms(4,5)] by simp
  then show ?thesis
    using SplitMetaNamespaceKey_pair [OF assms(6,7)] SplitMetaNamespaceKey_name [OF assms(7)] assms(3)
    by (auto simp: meta_key_def split: if_splits)
qed

lemma example_key: "SplitMetaNamespaceKey ''default/example'' = Inr (''default'', ''example'')"
  using SplitMetaNamespaceKey_pair [of "''default''" "''example''"] by simp

lemma get_proxy_example:
  assumes "cl_proxies cl = ix_Add mp_Meta p new_indexer" and "mp_Meta p = mp_Meta example_proxy"
  shows "get_proxy cl ''default'' ''example'' = Inr p"
proof -
  have "meta_key (mp_Meta example_proxy) = ''default/example''" by (simp add: meta_key_def example_proxy_def)
  then show ?thesis
    using assms by (simp add: get_proxy_def lister_Get_def ix_GetByKey_def ix_Add_def new_indexer_def Let_def)
qed

lemma observed_proxy_simps [simp]:
  "mp_Meta observed_proxy = mp_Meta example_proxy"
  "om_Generation (mp_Meta observed_proxy) = st_ObservedGeneration (mp_Status observed_proxy)"
  "mr_Port (spec_McRouter (mp_Spec observed_proxy)) = Some 11211"
  "om_Namespace (mp_Meta example_proxy) = ''default''" "om_Name (mp_Meta example_proxy) = ''example''"
  by (simp_all add: observed_proxy_def ApplyDefaults_McRouter McRouterSpec_ApplyDefaults_def Let_def)
    (simp_all add: example_proxy_def)

lemma get_observed_proxy: "cl_proxies cl = ix_Add mp_Meta observed_proxy new_indexer \<Longrightarrow>
    get_proxy cl ''default'' ''example'' = Inr observed_proxy"
  by (erule get_proxy_example) simp

lemma cluster_inv_observed: "cluster_inv observed_cluster"
  using cluster_inv_empty by (simp add: cluster_inv_def observed_cluster_def ix_Add_inv ix_inv_empty)

lemma with_observed_proxy_cases:
  assumes "\<And>err. P (RetErr err, st)" and "P (RetNil, st)"
    and "P (RetNil, on_queue (AddRateLimited (StringItem key)) st)"
    and "\<And>ns name p. SplitMetaNamespaceKey key = Inr (ns, name) \<Longrightarrow> get_proxy (ctl_cluster st) ns name = Inr p \<Longrightarrow>
      om_Generation (mp_Meta p) = st_ObservedGeneration (mp_Status p) \<Longrightarrow> P (k ns p)"
  shows "P (with_observed_proxy key st k)"
  using assms by (auto simp: with_observed_proxy_def split: sum.split)

lemma with_observed_proxy_current:
  assumes "SplitMetaNamespaceKey key = Inr (ns, name)" and "get_proxy (ctl_cluster st) ns name = Inr p"
    and "om_Generation (mp_Meta p) = st_ObservedGeneration (mp_Status p)"
  shows "with_observed_proxy key st k = k ns p"
  using assms by (simp add: with_observed_proxy_def)

lemma with_observed_proxy_stale:
  assumes "SplitMetaNamespaceKey key = Inr (ns, name)" and "get_proxy (ctl_cluster st) ns name = Inr p"
    and "om_Generation (mp_Meta p) \<noteq> st_ObservedGeneration (mp_Status p)"
  shows "with_observed_proxy key st k = (RetNil, on_queue (AddRateLimited (StringItem key)) st)"
  using assms by (simp add: with_observed_proxy_def)

lemma stale_proxy_processed:
  assumes "SplitMetaNamespaceKey key = Inr (ns, name)" and "get_proxy (ctl_cluster st) ns name = Inr p"
    and "om_Generation (mp_Meta p) \<noteq> st_ObservedGeneration (mp_Status p)" and "\<not> q_shuttingDown (ctl_queue st)"
    and "processWorkItem (\<lambda>key st. with_observed_proxy key st (k st)) (StringItem key) st = (res, st')"
  shows "res = RetNil \<and> ctl_cluster st' = ctl_cluster st \<and> scheduled (StringItem key) (ctl_queue st')
    \<and> rl_failures (ctl_queue st') (StringItem key) = 0"
  using assms(4,5) scheduled_AddRateLimited [OF assms(4), of "StringItem key"]
  by (auto simp: processWorkItem_StringItem with_observed_proxy_stale [OF assms(1-3)] scheduled_def)

section \<open>Lemmas on the handlers\<close>

lemma enqueue_MetaObj: "enqueue (MetaObj m) q = wq_Add (StringItem (meta_key m)) q"
  by (simp add: enqueue_def MetaNamespaceKeyFunc_def)

lemma enqueueOwned_controlled:
  assumes "GetControllerOf m = Some (NewProxyOwnerRef p)"
  shows "enqueueOwned (MetaObj m) q = wq_Add (StringItem (om_Namespace m @ ''/'' @ om_Name (mp_Meta p))) q"
  using assms by (simp add: enqueueOwned_def)

section \<open>Properties\<close>

text \<open>
  C34. An event on an object that a proxy controls reaches the proxy: the key that \<open>enqueueOwned\<close> adds is the key
  under which the proxy itself is cached and enqueued, and \<open>syncHandler\<close> gets its namespace and name back from it.
\<close>

theorem owned_event_reaches_owner:
  assumes "GetControllerOf m = Some (NewProxyOwnerRef p)" and "om_Namespace m = om_Namespace (mp_Meta p)"
    and "om_Namespace (mp_Meta p) \<noteq> []" and "CHR ''/'' \<notin> set (om_Namespace (mp_Meta p))"
    and "CHR ''/'' \<notin> set (om_Name (mp_Meta p))"
  shows "enqueueOwned (MetaObj m) q = enqueue (MetaObj (mp_Meta p)) q
    \<and> SplitMetaNamespaceKey (meta_key (mp_Meta p)) = Inr (om_Namespace (mp_Meta p), om_Name (mp_Meta p))"
  using assms SplitMetaNamespaceKey_pair [OF assms(4,5)]
  by (simp add: enqueueOwned_controlled enqueue_MetaObj meta_key_def)

theorem owned_event_reaches_owner_witness:
  "enqueueOwned (MetaObj (zero_meta\<lparr>om_Name := ''cm'', om_Namespace := ''default'',
       om_OwnerReferences := [NewProxyOwnerRef example_proxy]\<rparr>)) (new_rlq (\<lambda>_. 0))
     = enqueue (MetaObj (mp_Meta example_proxy)) (new_rlq (\<lambda>_. 0))"
proof -
  have "om_Namespace (mp_Meta example_proxy) = ''default''" "om_Name (mp_Meta example_proxy) = ''example''"
    by (simp_all add: example_proxy_def)
  then show ?thesis
    using owned_event_reaches_owner [of "zero_meta\<lparr>om_Name := ''cm'', om_Namespace := ''default'',
       om_OwnerReferences := [NewProxyOwnerRef example_proxy]\<rparr>" example_proxy "new_rlq (\<lambda>_. 0)"]
    by (simp add: GetControllerOf_single)
qed

text \<open>
  An item that is not a string comes back: \<open>processWorkItem\<close> forgets it "else we'd go into a loop", but it also
  returns an error, and for an error the worker adds the item again, each time with the shortest delay.
\<close>

theorem invalid_item_comes_back:
  assumes "wq_Get (ctl_queue st) = GotItem (OtherItem shown) q" and "\<not> q_shuttingDown (ctl_queue st)"
  shows "scheduled (OtherItem shown) (ctl_queue (snd (worker syncHandler 1 st)))
    \<and> rl_failures (ctl_queue (snd (worker syncHandler 1 st))) (OtherItem shown) = 1"
proof -
  have "q_shuttingDown q = q_shuttingDown (ctl_queue st)"
    using assms(1) by (auto simp: wq_Get_def split: list.splits if_splits)
  then show ?thesis
    using assms by (simp add: processWorkItem_def scheduled_AddRateLimited)
qed

theorem invalid_item_comes_back_witness:
  "let st = \<lparr>ctl_cluster = empty_cluster, ctl_queue = wq_Add (OtherItem ''42'') (new_rlq (\<lambda>_. 0))\<rparr>
   in scheduled (OtherItem ''42'') (ctl_queue (snd (worker (\<lambda>key st. (RetNil, st)) 1 st)))"
  using invalid_item_comes_back [of "\<lparr>ctl_cluster = empty_cluster, ctl_queue = wq_Add (OtherItem ''42'') (new_rlq (\<lambda>_. 0))\<rparr>"
      "''42''" _ "\<lambda>key st. (RetNil, st)"]
  by (auto simp: Let_def wq_Add_def new_rlq_def wq_Get_def)

end
