(* ===== verification/ProxyController.thy ===== *)
theory ProxyController
  imports ControllerLoop
begin

text \<open>
  The proxy controller: internal/controller/proxy/controller.go. It applies the defaults to a proxy, records
  the generation it has seen, and writes the proxy back if that changed anything. The other controllers wait
  for it: they act on a proxy only when its observed generation is its generation.

  \<open>p.DeepCopy()\<close> has the value of \<open>p\<close> and shares no pointer with it (theory \<open>ProxyHeap\<close>), so that working on the
  copy does not touch the cache.
\<close>

section \<open>Definitions\<close>

definition updateStatus :: "MemcachedProxy \<Rightarrow> MemcachedProxy" where
  \<comment> \<open>always returns nil, so the error branch of its caller is dead\<close>
  "updateStatus p = p\<lparr>mp_Status := (mp_Status p)\<lparr>st_ObservedGeneration := om_Generation (mp_Meta p)\<rparr>\<rparr>"

definition proxy_syncHandler :: "env \<Rightarrow> handler" where
  "proxy_syncHandler e key st =
     (case SplitMetaNamespaceKey key of
        Inl err \<Rightarrow> (RetErr (ErrorString (''invalid resource key: '' @ key)), st)
      | Inr (ns, name) \<Rightarrow>
          (case get_proxy (ctl_cluster st) ns name of
             Inl err \<Rightarrow> (if IsNotFound err then (RetNil, st) else (RetErr err, st))
           | Inr p \<Rightarrow>
               (let pCopy = updateStatus (ApplyDefaults p) in
                if mp_Spec p = mp_Spec pCopy \<and> mp_Status p = mp_Status pCopy then (RetNil, st)
                else (case api_call e (UpdateProxy (om_Namespace (mp_Meta pCopy)) pCopy) (ctl_cluster st) of
                        (Inl err, cl) \<Rightarrow>
                          (RetErr (ErrorString (''failed to update '' @ Quote key @ '': '' @ ErrorText err)),
                           st\<lparr>ctl_cluster := cl\<rparr>)
                      | (Inr _, cl) \<Rightarrow> (RetNil, st\<lparr>ctl_cluster := cl\<rparr>)))))"

definition proxy_enqueue :: "event_obj \<Rightarrow> item rlq \<Rightarrow> item rlq" where
  "proxy_enqueue = enqueue"

definition proxy_processWorkItem :: "env \<Rightarrow> item \<Rightarrow> ctl \<Rightarrow> outcome \<times> ctl" where
  "proxy_processWorkItem e = processWorkItem (proxy_syncHandler e)"

definition proxy_worker :: "env \<Rightarrow> nat \<Rightarrow> ctl \<Rightarrow> worker_status \<times> ctl" where
  "proxy_worker e = worker (proxy_syncHandler e)"

definition proxy_Run :: "int \<Rightarrow> nat list \<times> (ctl \<Rightarrow> ctl)" where
  "proxy_Run = Run"

definition proxy_New :: "string \<Rightarrow> int \<Rightarrow> controller" where
  "proxy_New name workers =
     \<lparr>c_name = name, c_workers = workers, c_Run = proxy_Run,
      c_handlers = (\<lambda>e inf ev.
        case inf of
          ProxyInformer \<Rightarrow> Some \<circ> on_queue (dispatch proxy_enqueue (\<lambda>old new. proxy_enqueue new) proxy_enqueue ev)
        | _ \<Rightarrow> Some),
      c_syncHandler = proxy_syncHandler\<rparr>"

declare proxy_Run_def [registration_defs] proxy_enqueue_def [registration_defs] proxy_New_def [registration_defs]

definition settled :: "MemcachedProxy \<Rightarrow> bool" where
  \<comment> \<open>nothing is left to default and the current generation has been observed\<close>
  "settled p \<longleftrightarrow> mp_Spec (ApplyDefaults p) = mp_Spec p \<and> st_ObservedGeneration (mp_Status p) = om_Generation (mp_Meta p)"

section \<open>Lemmas\<close>

lemma updateStatus_simps [simp]:
  "mp_Meta (updateStatus p) = mp_Meta p" "mp_Spec (updateStatus p) = mp_Spec p"
  "st_ObservedGeneration (mp_Status (updateStatus p)) = om_Generation (mp_Meta p)"
  by (simp_all add: updateStatus_def)

lemma sync_compares: "mp_Spec p = mp_Spec (updateStatus (ApplyDefaults p))
    \<and> mp_Status p = mp_Status (updateStatus (ApplyDefaults p)) \<longleftrightarrow> settled p"
proof -
  have "mp_Status p = (mp_Status p)\<lparr>st_ObservedGeneration := g\<rparr> \<longleftrightarrow> st_ObservedGeneration (mp_Status p) = g" for g
    by (cases "mp_Status p") auto
  then show ?thesis by (auto simp: settled_def updateStatus_def)
qed

lemma proxy_sync_result:
  assumes "SplitMetaNamespaceKey key = Inr (ns, name)" and "get_proxy (ctl_cluster st) ns name = Inr p"
  shows "proxy_syncHandler e key st =
    (if settled p then (RetNil, st)
     else let a = UpdateProxy (om_Namespace (mp_Meta p)) (updateStatus (ApplyDefaults p)) in
       ((case env_api e (cl_actions (ctl_cluster st)) a of
           Inl err \<Rightarrow> RetErr (ErrorString (''failed to update '' @ Quote key @ '': '' @ ErrorText err))
         | Inr _ \<Rightarrow> RetNil),
        on_cluster (\<lambda>cl. cl\<lparr>cl_actions := cl_actions cl @ [a]\<rparr>) st))"
  using assms sync_compares [of p]
  by (auto simp: proxy_syncHandler_def api_call_def Let_def on_cluster_def split: sum.split)

interpretation proxy_loop: panic_free_handler "proxy_syncHandler e" for e
proof
  fix key st
  show "requeued (StringItem key) (ctl_queue st) (ctl_queue (snd (proxy_syncHandler e key st)))"
    by (auto simp: proxy_syncHandler_def requeued_def api_call_def Let_def split: sum.split)
  show "\<exists>calls. cl_actions (ctl_cluster (snd (proxy_syncHandler e key st))) = cl_actions (ctl_cluster st) @ calls"
    by (auto simp: proxy_syncHandler_def api_call_def Let_def split: sum.split)
  show "fst (proxy_syncHandler e key st) \<noteq> Panic"
    by (auto simp: proxy_syncHandler_def api_call_def Let_def split: sum.split)
  have "same_caches (ctl_cluster st) (ctl_cluster (snd (proxy_syncHandler e key st)))"
    by (auto simp: proxy_syncHandler_def same_caches_def api_call_def Let_def split: sum.split)
  then show "cluster_inv (ctl_cluster st) \<Longrightarrow> cluster_inv (ctl_cluster (snd (proxy_syncHandler e key st)))"
    by (simp add: cluster_inv_same_caches)
qed

lemma settled_updated: "settled (updateStatus (ApplyDefaults p))"
proof -
  have "ApplyDefaults (updateStatus q) = updateStatus (ApplyDefaults q)" for q
    by (simp add: updateStatus_def ApplyDefaults_def)
  then show ?thesis by (simp add: settled_def ApplyDefaults_idem)
qed

section \<open>Properties\<close>

text \<open>
  C22. What a sync of the proxy controller does to a cached proxy: nothing when the proxy is settled; otherwise
  one update, of a proxy with the same metadata whose spec is defaulted and whose observed generation is its
  generation, and an error is returned exactly when the server refused it. Caches and queue are untouched.
\<close>

theorem proxy_sync_effect:
  assumes "SplitMetaNamespaceKey key = Inr (ns, name)" and "get_proxy (ctl_cluster st) ns name = Inr p"
    and "om_Namespace (mp_Meta p) \<noteq> []"
  shows "case proxy_syncHandler e key st of (res, st') \<Rightarrow>
    ctl_queue st' = ctl_queue st \<and> same_caches (ctl_cluster st) (ctl_cluster st')
    \<and> (if settled p then res = RetNil \<and> cl_actions (ctl_cluster st') = cl_actions (ctl_cluster st)
       else \<exists>p'. cl_actions (ctl_cluster st') = cl_actions (ctl_cluster st) @ [UpdateProxy (om_Namespace (mp_Meta p)) p']
         \<and> mp_Meta p' = mp_Meta p \<and> defaulted p' \<and> st_ObservedGeneration (mp_Status p') = om_Generation (mp_Meta p)
         \<and> (res = RetNil \<longleftrightarrow> \<not> isl (env_api e (cl_actions (ctl_cluster st)) (UpdateProxy (om_Namespace (mp_Meta p)) p'))))"
proof -
  have "defaulted (updateStatus (ApplyDefaults p))"
    using ApplyDefaults_defaulted [OF assms(3)] by (simp add: defaulted_def)
  then show ?thesis
    unfolding proxy_sync_result [OF assms(1,2)]
    by (auto simp: same_caches_def Let_def split: sum.split)
qed

text \<open>
  The proxy controller converges: once the cache holds what the controller last wrote, a sync makes no
  call, returns nil and leaves the whole state alone.
\<close>

theorem proxy_sync_converges:
  assumes "SplitMetaNamespaceKey key = Inr (ns, name)"
    and "get_proxy (ctl_cluster st) ns name = Inr (updateStatus (ApplyDefaults p))"
  shows "proxy_syncHandler e key st = (RetNil, st)"
  using proxy_sync_result [OF assms] settled_updated by simp

text \<open>
  The worker loop of the proxy controller makes progress: with one unit of fuel more than there are
  pending keys it handles all of them and comes to rest, waiting on an open queue or returning from a
  closed one. No handler panics and no failing key keeps the worker busy, since a retry is always delayed.
\<close>

theorem proxy_worker_drains:
  assumes "wq_inv (ctl_queue st)" and "q_processing (ctl_queue st) = {}"
    and "finite (q_dirty (ctl_queue st))" and "card (q_dirty (ctl_queue st)) < fuel"
  shows "fst (proxy_worker e fuel st) = (if q_shuttingDown (ctl_queue st) then Returned else Waiting)
    \<and> q_dirty (ctl_queue (snd (proxy_worker e fuel st))) = {}"
  unfolding proxy_worker_def by (rule proxy_loop.worker_drains [OF assms])

section \<open>Examples\<close>

lemma not_settled_example: "\<not> settled example_proxy"
  by (simp add: settled_def example_proxy_def)

theorem proxy_sync_effect_witness:
  "\<exists>p'. cl_actions (ctl_cluster (snd (proxy_syncHandler accepting_env ''default/example'' (start example_cluster))))
      = [UpdateProxy ''default'' p'] \<and> defaulted p'"
proof -
  have "get_proxy (ctl_cluster (start example_cluster)) ''default'' ''example'' = Inr example_proxy"
    by (rule get_proxy_example) (simp_all add: start_def example_cluster_def)
  moreover have "om_Namespace (mp_Meta example_proxy) = ''default''" by (simp add: example_proxy_def)
  moreover have "cl_actions (ctl_cluster (start example_cluster)) = []"
    by (simp add: start_def example_cluster_def empty_cluster_def)
  ultimately show ?thesis
    using proxy_sync_effect [OF example_key, of "start example_cluster" example_proxy accepting_env] not_settled_example
    by (auto split: prod.splits)
qed

theorem proxy_sync_converges_witness:
  "let st = start (empty_cluster\<lparr>cl_proxies := ix_Add mp_Meta (updateStatus (ApplyDefaults example_proxy)) new_indexer\<rparr>)
   in proxy_syncHandler accepting_env ''default/example'' st = (RetNil, st)"
  unfolding Let_def
  by (rule proxy_sync_converges [OF example_key, of _ example_proxy], rule get_proxy_example) (simp_all add: start_def)

theorem proxy_worker_drains_witness:
  "let st = on_queue (wq_Add (StringItem ''default/example'')) (start example_cluster)
   in card (q_dirty (ctl_queue st)) = 1 \<and> fst (proxy_worker refusing_env 2 st) = Waiting"
proof -
  let ?st = "on_queue (wq_Add (StringItem ''default/example'')) (start example_cluster)"
  have "wq_inv (ctl_queue ?st)" using wq_Add_inv [OF wq_inv_start] by simp
  moreover have "q_dirty (ctl_queue ?st) = {StringItem ''default/example''}" "q_processing (ctl_queue ?st) = {}"
    "\<not> q_shuttingDown (ctl_queue ?st)"
    by simp_all
  ultimately show ?thesis using proxy_worker_drains [of ?st 2 refusing_env] by (simp add: Let_def)
qed

end
