(* ===== verification/ServiceController.thy ===== *)
theory ServiceController
  imports ControllerLoop
begin

text \<open>
  The service controller: internal/controller/proxyservice. It keeps one service per proxy, in front of the
  proxy's mcrouter pods, and heals its selector.

  The service a lister returns is the cached object. \<open>updateService\<close> assigns to its selector before the update is
  sent, which \<open>ix_mutate\<close> does to the cache.
\<close>

section \<open>Events\<close>

definition service_recordEvent ::
  "string \<Rightarrow> MemcachedProxy \<Rightarrow> string \<Rightarrow> ObjectMeta option \<Rightarrow> go_error option \<Rightarrow> cluster \<Rightarrow> cluster" where
  "service_recordEvent verb p kind obj err cl =
     (case err of
        None \<Rightarrow>
          (let reason = ''Successful'' @ Title verb;
               msg = (case obj of
                  None \<Rightarrow> ToLower verb @ '' new '' @ kind @ '' for MemcachedProxy '' @ Quote (om_Name (mp_Meta p)) @ '' successful''
                | Some m \<Rightarrow> ToLower verb @ '' '' @ kind @ '' '' @ Quote (om_Name m) @ '' for MemcachedProxy ''
                    @ Quote (om_Name (mp_Meta p)) @ '' successful'')
           in record_event p EventTypeNormal reason msg cl)
      | Some er \<Rightarrow>
          (let reason = ''Failed'' @ Title verb;
               msg = (case obj of
                  None \<Rightarrow> ToLower verb @ '' new '' @ kind @ '' for MemcachedProxy '' @ Quote (om_Name (mp_Meta p))
                    @ '' failed error: '' @ ErrorText er
                | Some m \<Rightarrow> ToLower verb @ '' '' @ kind @ '' '' @ Quote (om_Name m) @ '' for MemcachedProxy ''
                    @ Quote (om_Name (mp_Meta p)) @ '' failed error: '' @ ErrorText er)
           in record_event p EventTypeWarning reason msg cl))"

definition recordServiceEvent ::
  "string \<Rightarrow> MemcachedProxy \<Rightarrow> Service \<Rightarrow> go_error option \<Rightarrow> cluster \<Rightarrow> cluster" where
  "recordServiceEvent verb p s err cl = service_recordEvent verb p ''Service'' (Some (svc_Meta s)) err cl"

section \<open>Definitions\<close>

definition updateService :: "MemcachedProxy \<Rightarrow> Service \<Rightarrow> bool \<times> Service" where
  "updateService p s =
     (let desiredSelector = GetProxyServiceSelector p in
      if \<not> map_equal (svc_Selector s) desiredSelector then (True, s\<lparr>svc_Selector := desiredSelector\<rparr>)
      else (False, s))"

definition desired_service :: "string \<Rightarrow> string \<Rightarrow> MemcachedProxy \<Rightarrow> 32 word \<Rightarrow> Service" where
  \<comment> \<open>the literal in \<open>syncHandler\<close>, given the port\<close>
  "desired_service ns sName p port =
     \<lparr>svc_Meta = zero_meta\<lparr>om_Name := sName, om_Namespace := ns, om_OwnerReferences := [NewProxyOwnerRef p]\<rparr>,
      svc_Selector = GetProxyServiceSelector p,
      svc_Type = ''ClusterIP'',
      svc_Ports = [\<lparr>sp_Name = ''mcrouter'', sp_Protocol = ''TCP'', sp_Port = port,
        sp_TargetPort = \<lparr>is_Type = 0, is_IntVal = port, is_StrVal = []\<rparr>\<rparr>],
      svc_Rest = []\<rparr>"

definition service_sync :: "env \<Rightarrow> ctl \<Rightarrow> string \<Rightarrow> MemcachedProxy \<Rightarrow> outcome \<times> ctl" where
  \<comment> \<open>\<open>syncHandler\<close> from the lookup of the service on\<close>
  "service_sync e st ns p =
     (let cl = ctl_cluster st; sName = GetProxyServiceName p in
      case lister_Get ''service'' (cl_services cl) ns sName of
        Inl err \<Rightarrow>
          (if IsNotFound err then
             (case mr_Port (spec_McRouter (mp_Spec p)) of
                None \<Rightarrow> (Panic, st)
              | Some port \<Rightarrow>
                  (let s = desired_service ns sName p port in
                   case api_call e (CreateService ns s) cl of
                     (Inl err, cl1) \<Rightarrow> (RetErr err, st\<lparr>ctl_cluster := recordServiceEvent ''create'' p s (Some err) cl1\<rparr>)
                   | (Inr _, cl1) \<Rightarrow> (RetNil, st\<lparr>ctl_cluster := recordServiceEvent ''create'' p s None cl1\<rparr>)))
           else (RetErr err, st))
      | Inr s \<Rightarrow>
          (case updateService p s of
             (False, _) \<Rightarrow> (RetNil, st)
           | (True, s') \<Rightarrow>
               (let cl0 = cl\<lparr>cl_services := ix_mutate (ns @ ''/'' @ sName) (\<lambda>s. snd (updateService p s)) (cl_services cl)\<rparr> in
                case api_call e (UpdateService ns s') cl0 of
                  (Inl err, cl1) \<Rightarrow> (RetErr err, st\<lparr>ctl_cluster := recordServiceEvent ''update'' p s' (Some err) cl1\<rparr>)
                | (Inr _, cl1) \<Rightarrow> (RetNil, st\<lparr>ctl_cluster := recordServiceEvent ''update'' p s' None cl1\<rparr>))))"

definition service_syncHandler :: "env \<Rightarrow> handler" where
  "service_syncHandler e key st = with_observed_proxy key st (service_sync e st)"

definition service_enqueue :: "event_obj \<Rightarrow> item rlq \<Rightarrow> item rlq" where
  "service_enqueue = enqueue"

definition service_enqueueOwned :: "event_obj \<Rightarrow> item rlq \<Rightarrow> item rlq" where
  "service_enqueueOwned = enqueueOwned"

definition service_processWorkItem :: "env \<Rightarrow> item \<Rightarrow> ctl \<Rightarrow> outcome \<times> ctl" where
  "service_processWorkItem e = processWorkItem (service_syncHandler e)"

definition service_worker :: "env \<Rightarrow> nat \<Rightarrow> ctl \<Rightarrow> worker_status \<times> ctl" where
  "service_worker e = worker (service_syncHandler e)"

definition service_Run :: "int \<Rightarrow> nat list \<times> (ctl \<Rightarrow> ctl)" where
  "service_Run = Run"

definition service_New :: "string \<Rightarrow> int \<Rightarrow> controller" where
  "service_New name workers =
     \<lparr>c_name = name, c_workers = workers, c_Run = service_Run,
      c_handlers = (\<lambda>e inf ev.
        case inf of
          ProxyInformer \<Rightarrow> Some \<circ> on_queue (dispatch service_enqueue (\<lambda>old new. service_enqueue new) service_enqueue ev)
        | ServiceInformer \<Rightarrow> Some \<circ> on_queue (dispatch service_enqueueOwned
            (\<lambda>old new q. service_enqueueOwned new (service_enqueueOwned old q)) service_enqueueOwned ev)
        | _ \<Rightarrow> Some),
      c_syncHandler = service_syncHandler\<rparr>"

declare service_Run_def [registration_defs] service_enqueue_def [registration_defs] service_enqueueOwned_def [registration_defs] service_New_def [registration_defs]

definition drifted_service :: Service where
  \<comment> \<open>the example proxy's service with a selector that somebody emptied\<close>
  "drifted_service = (desired_service ''default'' (GetProxyServiceName observed_proxy) observed_proxy 11211)\<lparr>svc_Selector := []\<rparr>"

definition drifted_cluster :: cluster where
  "drifted_cluster = observed_cluster\<lparr>cl_services := ix_Add svc_Meta drifted_service new_indexer\<rparr>"

section \<open>Lemmas\<close>

lemma recordServiceEvent_simps [simp]:
  "cl_actions (recordServiceEvent verb p s err cl) = cl_actions cl"
  "cl_proxies (recordServiceEvent verb p s err cl) = cl_proxies cl"
  "cl_services (recordServiceEvent verb p s err cl) = cl_services cl"
  "cl_endpoints (recordServiceEvent verb p s err cl) = cl_endpoints cl"
  "cl_configmaps (recordServiceEvent verb p s err cl) = cl_configmaps cl"
  "cl_deployments (recordServiceEvent verb p s err cl) = cl_deployments cl"
  "cl_replicasets (recordServiceEvent verb p s err cl) = cl_replicasets cl"
  by (simp_all add: recordServiceEvent_def service_recordEvent_def Let_def split: option.split)

lemma updateService_cases:
  "updateService p s = (if map_of (svc_Selector s) = map_of (GetProxyServiceSelector p) then (False, s)
     else (True, s\<lparr>svc_Selector := GetProxyServiceSelector p\<rparr>))"
  by (simp add: updateService_def map_equal_iff)

lemma service_sync_queue [simp]: "ctl_queue (snd (service_sync e st ns p)) = ctl_queue st"
  by (auto simp: service_sync_def Let_def api_call_def split: sum.split option.split prod.split bool.split)

lemma service_sync_log:
  "\<exists>calls. cl_actions (ctl_cluster (snd (service_sync e st ns p))) = cl_actions (ctl_cluster st) @ calls"
  by (auto simp: service_sync_def Let_def api_call_def split: sum.split option.split prod.split bool.split)

lemma service_sync_caches:
  assumes "cluster_inv (ctl_cluster st)"
  shows "cluster_inv (ctl_cluster (snd (service_sync e st ns p)))"
proof -
  have "ix_inv svc_Meta (ix_mutate k (\<lambda>s. snd (updateService p s)) (cl_services (ctl_cluster st)))" for k
    using assms by (intro ix_mutate_inv) (auto simp: cluster_inv_def updateService_cases)
  then show ?thesis
    using assms
    by (auto simp: service_sync_def Let_def api_call_def cluster_inv_def
        split: sum.split option.split prod.split bool.split)
qed

interpretation service_loop: sync_handler "service_syncHandler e" for e
proof
  fix key st
  show "requeued (StringItem key) (ctl_queue st) (ctl_queue (snd (service_syncHandler e key st)))"
    unfolding service_syncHandler_def
    by (rule with_observed_proxy_cases) (simp_all add: requeued_def)
  show "\<exists>calls. cl_actions (ctl_cluster (snd (service_syncHandler e key st))) = cl_actions (ctl_cluster st) @ calls"
    unfolding service_syncHandler_def
    by (rule with_observed_proxy_cases) (simp_all add: service_sync_log)
  show "cluster_inv (ctl_cluster st) \<Longrightarrow> cluster_inv (ctl_cluster (snd (service_syncHandler e key st)))"
    unfolding service_syncHandler_def
    by (rule with_observed_proxy_cases) (simp_all add: service_sync_caches)
qed

lemma service_sync_missing:
  assumes "lister_Get ''service'' (cl_services (ctl_cluster st)) ns (GetProxyServiceName p) = Inl err"
    and "mr_Port (spec_McRouter (mp_Spec p)) = Some port"
  shows "service_sync e st ns p =
    (let s = desired_service ns (GetProxyServiceName p) p port;
         r = env_api e (cl_actions (ctl_cluster st)) (CreateService ns s)
     in ((case r of Inl er \<Rightarrow> RetErr er | Inr _ \<Rightarrow> RetNil),
         on_cluster (\<lambda>cl. recordServiceEvent ''create'' p s (case r of Inl er \<Rightarrow> Some er | Inr _ \<Rightarrow> None)
           (snd (api_call e (CreateService ns s) cl))) st))"
proof -
  have "IsNotFound err" using assms(1) by (auto simp: lister_Get_def NewNotFound_def split: option.splits)
  then show ?thesis
    using assms by (auto simp: service_sync_def Let_def api_call_def on_cluster_def split: sum.split)
qed

lemma service_sync_healthy:
  assumes "lister_Get ''service'' (cl_services (ctl_cluster st)) ns (GetProxyServiceName p) = Inr s"
    and "map_of (svc_Selector s) = map_of (GetProxyServiceSelector p)"
  shows "service_sync e st ns p = (RetNil, st)"
  using assms by (simp add: service_sync_def Let_def updateService_cases)

lemma service_sync_drifted:
  assumes "lister_Get ''service'' (cl_services (ctl_cluster st)) ns (GetProxyServiceName p) = Inr s"
    and "map_of (svc_Selector s) \<noteq> map_of (GetProxyServiceSelector p)"
  shows "service_sync e st ns p =
    (let s' = s\<lparr>svc_Selector := GetProxyServiceSelector p\<rparr>;
         r = env_api e (cl_actions (ctl_cluster st)) (UpdateService ns s')
     in ((case r of Inl er \<Rightarrow> RetErr er | Inr _ \<Rightarrow> RetNil),
         on_cluster (\<lambda>cl. recordServiceEvent ''update'' p s' (case r of Inl er \<Rightarrow> Some er | Inr _ \<Rightarrow> None)
           (snd (api_call e (UpdateService ns s')
             (cl\<lparr>cl_services := ix_mutate (ns @ ''/'' @ GetProxyServiceName p) (\<lambda>s. snd (updateService p s)) (cl_services cl)\<rparr>)))) st))"
  using assms by (auto simp: service_sync_def Let_def updateService_cases api_call_def on_cluster_def split: sum.split)

lemma service_cached_after_drift:
  assumes "lister_Get ''service'' (cl_services (ctl_cluster st)) ns (GetProxyServiceName p) = Inr s"
    and "map_of (svc_Selector s) \<noteq> map_of (GetProxyServiceSelector p)"
  shows "lister_Get ''service'' (cl_services (ctl_cluster (snd (service_sync e st ns p)))) ns (GetProxyServiceName p)
    = Inr (s\<lparr>svc_Selector := GetProxyServiceSelector p\<rparr>)"
  using assms(1) unfolding service_sync_drifted [OF assms] Let_def
  by (auto simp: lister_Get_def ix_GetByKey_mutate updateService_cases assms(2) split: option.splits)

lemma service_sync_proxies [simp]: "cl_proxies (ctl_cluster (snd (service_sync e st ns p))) = cl_proxies (ctl_cluster st)"
  by (auto simp: service_sync_def Let_def api_call_def split: sum.split option.split prod.split bool.split)

section \<open>Properties\<close>

text \<open>
  C20. For an observed proxy whose service is not in the cache, a sync creates exactly one service: in the
  key's namespace, controlled by the proxy, selecting the proxy's pods and forwarding the proxy's port to
  the same port of the pods. It returns the server's error, if any, and records one event either way.
\<close>

theorem service_sync_creates:
  assumes "SplitMetaNamespaceKey key = Inr (ns, name)" and "get_proxy (ctl_cluster st) ns name = Inr p"
    and "om_Generation (mp_Meta p) = st_ObservedGeneration (mp_Status p)"
    and "mr_Port (spec_McRouter (mp_Spec p)) = Some port"
    and "isl (lister_Get ''service'' (cl_services (ctl_cluster st)) ns (GetProxyServiceName p))"
  shows "\<exists>s. cl_actions (ctl_cluster (snd (service_syncHandler e key st))) = cl_actions (ctl_cluster st) @ [CreateService ns s]
    \<and> meta_key (svc_Meta s) = (if ns = [] then [] else ns @ ''/'') @ GetProxyServiceName p
    \<and> IsControlledBy (svc_Meta s) (mp_Meta p) \<and> svc_Selector s = GetProxyServiceSelector p
    \<and> map (\<lambda>sp. (sp_Protocol sp, sp_Port sp, sp_TargetPort sp)) (svc_Ports s)
        = [(''TCP'', port, \<lparr>is_Type = IntstrInt, is_IntVal = port, is_StrVal = []\<rparr>)]
    \<and> fst (service_syncHandler e key st)
        = (case env_api e (cl_actions (ctl_cluster st)) (CreateService ns s) of Inl err \<Rightarrow> RetErr err | Inr _ \<Rightarrow> RetNil)
    \<and> length (cl_events (ctl_cluster (snd (service_syncHandler e key st)))) = Suc (length (cl_events (ctl_cluster st)))"
proof -
  obtain err where "lister_Get ''service'' (cl_services (ctl_cluster st)) ns (GetProxyServiceName p) = Inl err"
    using assms(5) by (auto simp: isl_def)
  note missing = service_sync_missing [OF this assms(4), of e]
  have "IsControlledBy (svc_Meta (desired_service ns (GetProxyServiceName p) p port)) (mp_Meta p)"
    by (rule IsControlledBy_NewProxyOwnerRef) (simp add: desired_service_def)
  moreover have "length (cl_events (recordServiceEvent v p s r cl)) = Suc (length (cl_events cl))" for v s r cl
    by (simp add: recordServiceEvent_def service_recordEvent_def record_event_def Let_def split: option.split)
  ultimately show ?thesis
    unfolding service_syncHandler_def with_observed_proxy_current [OF assms(1-3)] missing Let_def
    by (intro exI [of _ "desired_service ns (GetProxyServiceName p) p port"])
      (simp add: desired_service_def meta_key_def IntstrInt_def)
qed

text \<open>
  C21. A service whose selector differs from the proxy's pod labels is healed with one update that changes the
  selector and nothing else; a service that already has it is left alone and no call is made.
\<close>

theorem service_sync_heals:
  assumes "SplitMetaNamespaceKey key = Inr (ns, name)" and "get_proxy (ctl_cluster st) ns name = Inr p"
    and "om_Generation (mp_Meta p) = st_ObservedGeneration (mp_Status p)"
    and "lister_Get ''service'' (cl_services (ctl_cluster st)) ns (GetProxyServiceName p) = Inr s"
  shows "if map_of (svc_Selector s) = map_of (GetProxyServiceSelector p)
    then service_syncHandler e key st = (RetNil, st)
    else cl_actions (ctl_cluster (snd (service_syncHandler e key st)))
        = cl_actions (ctl_cluster st) @ [UpdateService ns (s\<lparr>svc_Selector := GetProxyServiceSelector p\<rparr>)]"
  unfolding service_syncHandler_def with_observed_proxy_current [OF assms(1-3)]
  by (simp add: service_sync_healthy [OF assms(4)] service_sync_drifted [OF assms(4)] Let_def)

text \<open>
  C40. A refused update is not tried again: the first sync has already written the new selector into the cache, so
  the retry after the error finds nothing to do and returns nil, while the server still has the old selector.
\<close>

theorem failed_service_update_not_retried:
  assumes "SplitMetaNamespaceKey key = Inr (ns, name)" and "get_proxy (ctl_cluster st) ns name = Inr p"
    and "om_Generation (mp_Meta p) = st_ObservedGeneration (mp_Status p)"
    and "lister_Get ''service'' (cl_services (ctl_cluster st)) ns (GetProxyServiceName p) = Inr s"
    and "map_of (svc_Selector s) \<noteq> map_of (GetProxyServiceSelector p)"
    and "service_syncHandler e key st = (RetErr err, st')"
  shows "service_syncHandler e key st' = (RetNil, st')"
proof -
  have st': "st' = snd (service_sync e st ns p)"
    using assms(6) by (simp add: service_syncHandler_def with_observed_proxy_current [OF assms(1-3)])
  have "get_proxy (ctl_cluster st') ns name = Inr p" using assms(2) by (simp add: st' get_proxy_def)
  then show ?thesis
    using service_sync_healthy [OF service_cached_after_drift [OF assms(4,5), of e]]
    by (simp add: service_syncHandler_def with_observed_proxy_current [OF assms(1) _ assms(3)] st')
qed

text \<open>
  The only nil dereference of the service controller is the port of the proxy: for a proxy with a port,
  in particular for every defaulted one, a sync does not panic.
\<close>

theorem service_sync_panics_iff:
  assumes "SplitMetaNamespaceKey key = Inr (ns, name)" and "get_proxy (ctl_cluster st) ns name = Inr p"
  shows "fst (service_syncHandler e key st) = Panic \<longleftrightarrow>
    om_Generation (mp_Meta p) = st_ObservedGeneration (mp_Status p) \<and> mr_Port (spec_McRouter (mp_Spec p)) = None
    \<and> isl (lister_Get ''service'' (cl_services (ctl_cluster st)) ns (GetProxyServiceName p))"
  using assms
  by (auto simp: service_syncHandler_def with_observed_proxy_def service_sync_def Let_def api_call_def
      lister_Get_def NewNotFound_def split: sum.split option.split prod.split bool.split)

text \<open>
  A proxy whose generation has not been observed is not acted on: its key is put back, but since
  \<open>syncHandler\<close> returns nil, \<open>processWorkItem\<close> also forgets the key, so the back-off never grows.
\<close>

theorem stale_proxy_requeued_without_backoff:
  assumes "SplitMetaNamespaceKey key = Inr (ns, name)" and "get_proxy (ctl_cluster st) ns name = Inr p"
    and "om_Generation (mp_Meta p) \<noteq> st_ObservedGeneration (mp_Status p)" and "\<not> q_shuttingDown (ctl_queue st)"
    and "service_processWorkItem e (StringItem key) st = (res, st')"
  shows "res = RetNil \<and> ctl_cluster st' = ctl_cluster st \<and> scheduled (StringItem key) (ctl_queue st')
    \<and> rl_failures (ctl_queue st') (StringItem key) = 0"
  by (rule stale_proxy_processed [OF assms(1-4), where k = "service_sync e"])
    (use assms(5) in \<open>simp add: service_processWorkItem_def service_syncHandler_def [abs_def]\<close>)

section \<open>Examples\<close>

lemma observed_start: "get_proxy (ctl_cluster (start observed_cluster)) ''default'' ''example'' = Inr observed_proxy"
  "get_proxy (ctl_cluster (start drifted_cluster)) ''default'' ''example'' = Inr observed_proxy"
  by (simp_all add: get_observed_proxy observed_cluster_def drifted_cluster_def)

lemma no_service_observed:
  "isl (lister_Get ''service'' (cl_services (ctl_cluster (start observed_cluster))) ''default'' (GetProxyServiceName observed_proxy))"
  by (simp add: observed_cluster_def empty_cluster_def new_indexer_def lister_Get_def ix_GetByKey_def)

lemma drifted_service_cached:
  "lister_Get ''service'' (cl_services (ctl_cluster (start drifted_cluster))) ''default'' (GetProxyServiceName observed_proxy)
     = Inr drifted_service"
  unfolding drifted_cluster_def
  by (simp, rule lister_Get_single) (simp add: drifted_service_def desired_service_def meta_key_def)

lemma drifted_selector: "map_of (svc_Selector drifted_service) \<noteq> map_of (GetProxyServiceSelector observed_proxy)"
proof -
  have "map_of (svc_Selector drifted_service) ''mcrouter'' = None" by (simp add: drifted_service_def)
  moreover have "map_of (GetProxyServiceSelector observed_proxy) ''mcrouter'' \<noteq> None"
    by (simp add: GetProxyServiceSelector_def)
  ultimately show ?thesis by metis
qed

theorem service_sync_creates_witness:
  "\<exists>s. cl_actions (ctl_cluster (snd (service_syncHandler accepting_env ''default/example'' (start observed_cluster))))
      = [CreateService ''default'' s] \<and> IsControlledBy (svc_Meta s) (mp_Meta observed_proxy)"
  using service_sync_creates [OF example_key observed_start(1) observed_proxy_simps(2,3) no_service_observed, of accepting_env]
  by (auto simp: observed_cluster_def empty_cluster_def)

theorem service_sync_heals_witness:
  "cl_actions (ctl_cluster (snd (service_syncHandler accepting_env ''default/example'' (start drifted_cluster))))
     = [UpdateService ''default'' (drifted_service\<lparr>svc_Selector := GetProxyServiceSelector observed_proxy\<rparr>)]"
  using service_sync_heals [OF example_key observed_start(2) observed_proxy_simps(2) drifted_service_cached, of accepting_env]
    drifted_selector
  by (simp add: drifted_cluster_def observed_cluster_def empty_cluster_def)

theorem failed_service_update_not_retried_witness:
  "\<exists>err st'. service_syncHandler refusing_env ''default/example'' (start drifted_cluster) = (RetErr err, st')
     \<and> service_syncHandler refusing_env ''default/example'' st' = (RetNil, st')"
proof -
  have "service_syncHandler refusing_env ''default/example'' (start drifted_cluster)
      = service_sync refusing_env (start drifted_cluster) ''default'' observed_proxy"
    unfolding service_syncHandler_def
    by (rule with_observed_proxy_current [OF example_key observed_start(2) observed_proxy_simps(2)])
  then obtain err st' where
    "service_syncHandler refusing_env ''default/example'' (start drifted_cluster) = (RetErr err, st')"
    using service_sync_drifted [OF drifted_service_cached drifted_selector, of refusing_env]
    by (simp add: Let_def refusing_env_def)
  with failed_service_update_not_retried [OF example_key observed_start(2) observed_proxy_simps(2)
      drifted_service_cached drifted_selector this]
  show ?thesis by blast
qed

theorem service_sync_panics_iff_witness:
  "fst (service_syncHandler accepting_env ''default/example'' (start observed_cluster)) \<noteq> Panic"
  using service_sync_panics_iff [OF example_key observed_start(1), of accepting_env] by simp

theorem stale_proxy_requeued_without_backoff_witness:
  "case service_processWorkItem accepting_env (StringItem ''default/example'') (start example_cluster) of (res, st') \<Rightarrow>
     res = RetNil \<and> scheduled (StringItem ''default/example'') (ctl_queue st')"
proof -
  have "get_proxy (ctl_cluster (start example_cluster)) ''default'' ''example'' = Inr example_proxy"
    by (rule get_proxy_example) (simp_all add: example_cluster_def)
  moreover have "om_Generation (mp_Meta example_proxy) \<noteq> st_ObservedGeneration (mp_Status example_proxy)"
    by (simp add: example_proxy_def)
  moreover have "\<not> q_shuttingDown (ctl_queue (start example_cluster))" by simp
  moreover obtain res st' where
    eq: "service_processWorkItem accepting_env (StringItem ''default/example'') (start example_cluster) = (res, st')"
    by fastforce
  ultimately show ?thesis
    unfolding eq prod.case using stale_proxy_requeued_without_backoff [OF example_key _ _ _ eq] by blast
qed

end
