(* ===== verification/Json.thy ===== *)
theory Json
  imports Prelude "HOL-Library.List_Lexorder" "HOL-Library.Char_ord"
begin

text \<open>
  The part of \<open>encoding/json\<close> that rendering an mcrouter configuration needs: values made of null,
  strings, arrays and objects, the text \<open>json.Marshal\<close> writes for them, and the order in which it writes
  the entries of a Go map (sorted by key, bytewise).

  Strings are escaped as \<open>encodeState.string\<close> does with HTML escaping on. As in \<open>Prelude\<close>, strings are
  ASCII; on bytes from 128 the source would also check for valid UTF-8.

  The text determines the value: \<open>render_inj\<close>. Every value delimits itself, so no value's text is a proper
  prefix of another's.
\<close>

section \<open>Values and their text\<close>

datatype json = JNull | JStr string | JArr "json list" | JObj "(string \<times> json) list"

definition unicode_escape :: "nat \<Rightarrow> string" where
  \<comment> \<open>a backslash, \<open>u00\<close> and two hexadecimal digits\<close>
  "unicode_escape n = [CHR 0x5C, CHR ''u'', CHR ''0'', CHR ''0'', hexdigit (n div 16), hexdigit (n mod 16)]"

definition json_char :: "char \<Rightarrow> string" where
  "json_char c =
     (let n = (of_char c :: nat) in
      if n = 34 \<or> n = 92 then [CHR 0x5C, c]
      else if n = 10 then [CHR 0x5C, CHR ''n'']
      else if n = 13 then [CHR 0x5C, CHR ''r'']
      else if n = 9 then [CHR 0x5C, CHR ''t'']
      else if n < 32 \<or> n = 60 \<or> n = 62 \<or> n = 38 then unicode_escape n
      else [c])"

definition json_string :: "string \<Rightarrow> string" where
  "json_string s = [CHR 0x22] @ concat (map json_char s) @ [CHR 0x22]"

fun render :: "json \<Rightarrow> string"
  and render_elems :: "json list \<Rightarrow> string"
  and render_members :: "(string \<times> json) list \<Rightarrow> string"
where
  "render JNull = ''null''"
| "render (JStr s) = json_string s"
| "render (JArr []) = ''[]''"
| "render (JArr (j # js)) = ''['' @ render j @ render_elems js"
| "render (JObj []) = ''{}''"
| "render (JObj ((k, j) # kvs)) = ''{'' @ json_string k @ '':'' @ render j @ render_members kvs"
| "render_elems [] = '']''"
| "render_elems (j # js) = '','' @ render j @ render_elems js"
| "render_members [] = ''}''"
| "render_members ((k, j) # kvs) = '','' @ json_string k @ '':'' @ render j @ render_members kvs"

definition omitempty :: "string \<Rightarrow> json option \<Rightarrow> (string \<times> json) list" where
  \<comment> \<open>a pointer field tagged \<open>omitempty\<close>: nil is left out\<close>
  "omitempty k v = (case v of None \<Rightarrow> [] | Some j \<Rightarrow> [(k, j)])"

definition omitempty_arr :: "string \<Rightarrow> json list option \<Rightarrow> (string \<times> json) list" where
  \<comment> \<open>a slice field tagged \<open>omitempty\<close>: nil and empty are left out\<close>
  "omitempty_arr k v = (if elems v = [] then [] else [(k, JArr (elems v))])"

definition map_members :: "('v \<Rightarrow> json) \<Rightarrow> (string \<times> 'v) list \<Rightarrow> (string \<times> json) list" where
  \<comment> \<open>the entries of a Go map in the order of their keys\<close>
  "map_members f m =
     concat (map (\<lambda>k. case map_of m k of None \<Rightarrow> [] | Some v \<Rightarrow> [(k, f v)]) (sort (keys m)))"

section \<open>The text determines the value\<close>

lemma char_code_eqI: "(of_char c :: nat) = of_char d \<Longrightarrow> c = d"
  by simp

lemma hexdigit_inj:
  assumes "hexdigit a = hexdigit b" and "a < 16" and "b < 16"
  shows "a = b"
proof -
  have "(of_char (hexdigit a) :: nat) = of_char (hexdigit b)" using assms(1) by simp
  then show ?thesis using assms(2,3) by (auto simp: hexdigit_def split: if_splits)
qed

lemma unicode_escape_inj:
  assumes "unicode_escape m = unicode_escape n" and "m < 256" and "n < 256"
  shows "m = n"
proof -
  have "m div 16 = n div 16" "m mod 16 = n mod 16"
    using assms by (auto simp: unicode_escape_def intro!: hexdigit_inj)
  then show ?thesis by (metis div_mult_mod_eq)
qed

lemma json_char_not_quote: "json_char c \<noteq> [] \<and> hd (json_char c) \<noteq> CHR 0x22"
proof -
  have "(of_char c :: nat) \<noteq> 34 \<Longrightarrow> c \<noteq> CHR 0x22" by auto
  then show ?thesis by (auto simp: json_char_def unicode_escape_def Let_def)
qed

lemma json_char_cases:
  obtains (plain) "json_char c = [c]" "c \<noteq> CHR 0x5C"
    | (short) x where "json_char c = [CHR 0x5C, x]" "x \<noteq> CHR ''u''"
      "(x, of_char c :: nat) \<in> {(CHR 0x22, 34), (CHR 0x5C, 92), (CHR ''n'', 10), (CHR ''r'', 13), (CHR ''t'', 9)}"
    | (uni) "json_char c = unicode_escape (of_char c)"
proof -
  have codes: "(of_char c :: nat) = 34 \<Longrightarrow> c = CHR 0x22" "(of_char c :: nat) = 92 \<Longrightarrow> c = CHR 0x5C"
    by (auto intro: char_code_eqI)
  show ?thesis
  proof (cases "(of_char c :: nat) \<in> {34, 92, 10, 13, 9}")
    case True
    then consider "(of_char c :: nat) = 34" | "(of_char c :: nat) = 92" | "(of_char c :: nat) = 10"
      | "(of_char c :: nat) = 13" | "(of_char c :: nat) = 9" by auto
    then show ?thesis
    proof cases
      case 1
      then have "json_char c = [CHR 0x5C, CHR 0x22]"
        using codes(1) [OF 1] by (simp add: json_char_def)
      then show ?thesis using 1 by (intro short) simp_all
    next
      case 2
      then have "json_char c = [CHR 0x5C, CHR 0x5C]"
        using codes(2) [OF 2] by (simp add: json_char_def)
      then show ?thesis using 2 by (intro short) simp_all
    next
      case 3
      then have "json_char c = [CHR 0x5C, CHR ''n'']" by (simp add: json_char_def)
      then show ?thesis using 3 by (intro short) simp_all
    next
      case 4
      then have "json_char c = [CHR 0x5C, CHR ''r'']" by (simp add: json_char_def)
      then show ?thesis using 4 by (intro short) simp_all
    next
      case 5
      then have "json_char c = [CHR 0x5C, CHR ''t'']" by (simp add: json_char_def)
      then show ?thesis using 5 by (intro short) simp_all
    qed
  next
    case False
    then have "c \<noteq> CHR 0x5C" by auto
    then show ?thesis
      using False plain uni by (cases "json_char c = [c]") (auto simp: json_char_def Let_def split: if_splits)
  qed
qed

lemma json_char_prefix_free:
  assumes "json_char c @ r = json_char d @ s"
  shows "c = d \<and> r = s"
proof (cases c rule: json_char_cases)
  case plain
  then show ?thesis using assms by (cases d rule: json_char_cases) (auto simp: unicode_escape_def)
next
  case (short x)
  note c = short
  show ?thesis
  proof (cases d rule: json_char_cases)
    case (short y)
    then have "x = y" "r = s" using c assms by auto
    then have "(of_char c :: nat) = of_char d" using c(3) short(3) by (elim insertE emptyE) simp_all
    then have "c = d" by (rule char_code_eqI)
    then show ?thesis using \<open>r = s\<close> by simp
  qed (use c assms in \<open>auto simp: unicode_escape_def\<close>)
next
  case uni
  note c = uni
  show ?thesis
  proof (cases d rule: json_char_cases)
    case uni
    have "unicode_escape (of_char c) = unicode_escape (of_char d)" "r = s"
      using assms unfolding c uni by (auto simp: unicode_escape_def)
    moreover have "(of_char c :: nat) < 256" "(of_char d :: nat) < 256"
      by (simp_all add: of_char_def)
    ultimately show ?thesis using unicode_escape_inj char_code_eqI by metis
  qed (use c assms in \<open>auto simp: unicode_escape_def\<close>)
qed

lemma json_chars_prefix_free:
  assumes "concat (map json_char s) @ CHR 0x22 # r = concat (map json_char t) @ CHR 0x22 # u"
  shows "s = t \<and> r = u"
  using assms
proof (induction s arbitrary: t)
  case Nil
  then show ?case
  proof (cases t)
    case (Cons d t')
    then show ?thesis using Nil json_char_not_quote [of d] by (cases "json_char d") auto
  qed simp
next
  case (Cons c s)
  show ?case
  proof (cases t)
    case Nil
    then show ?thesis using Cons.prems json_char_not_quote [of c] by (cases "json_char c") auto
  next
    case (Cons d t')
    then have "json_char c @ concat (map json_char s) @ CHR 0x22 # r
        = json_char d @ concat (map json_char t') @ CHR 0x22 # u"
      using Cons.prems by simp
    from json_char_prefix_free [OF this] show ?thesis using Cons.IH [of t'] Cons by simp
  qed
qed

lemma json_string_prefix_free: "json_string s @ r = json_string t @ u \<Longrightarrow> s = t \<and> r = u"
  using json_chars_prefix_free [of s r t u] by (simp add: json_string_def)

lemma member_prefix_free:
  "json_string s @ CHR '':'' # r = json_string t @ CHR '':'' # u \<Longrightarrow> s = t \<and> r = u"
  using json_string_prefix_free [of s "CHR '':'' # r" t "CHR '':'' # u"] by simp

lemma hd_render: "\<exists>c r. render j = c # r \<and> c \<in> {CHR ''n'', CHR 0x22, CHR ''['', CHR ''{''}"
  by (cases j rule: render.cases) (auto simp: json_string_def)

text \<open>The first character of a text tells the shape of the value.\<close>

lemma render_shape:
  "render j @ r = CHR ''n'' # t \<Longrightarrow> j = JNull \<and> t = ''ull'' @ r"
  "render j @ r = CHR 0x22 # t \<Longrightarrow> \<exists>s. j = JStr s \<and> CHR 0x22 # t = json_string s @ r"
  "render j @ r = CHR ''['' # t \<Longrightarrow> j = JArr [] \<and> t = CHR '']'' # r
     \<or> (\<exists>i js. j = JArr (i # js) \<and> render i @ render_elems js @ r = t)"
  "render j @ r = CHR ''{'' # t \<Longrightarrow> j = JObj [] \<and> t = CHR ''}'' # r
     \<or> (\<exists>k i kvs. j = JObj ((k, i) # kvs) \<and> json_string k @ CHR '':'' # render i @ render_members kvs @ r = t)"
  by (cases j rule: render.cases; auto simp: json_string_def)+

lemma render_JStr:
  assumes "render j' @ r' = json_string s @ r"
  shows "j' = JStr s \<and> r' = r"
proof -
  have "render j' @ r' = CHR 0x22 # concat (map json_char s) @ [CHR 0x22] @ r"
    using assms by (simp add: json_string_def)
  from render_shape(2) [OF this] obtain t where "j' = JStr t" by auto
  then show ?thesis using assms json_string_prefix_free [of t r' s r] by simp
qed

lemma render_elems_shape:
  "render_elems js @ r = CHR '']'' # t \<Longrightarrow> js = [] \<and> t = r"
  "render_elems js @ r = CHR '','' # t \<Longrightarrow> \<exists>i js'. js = i # js' \<and> render i @ render_elems js' @ r = t"
  by (cases js; auto)+

lemma render_members_shape:
  "render_members kvs @ r = CHR ''}'' # t \<Longrightarrow> kvs = [] \<and> t = r"
  "render_members kvs @ r = CHR '','' # t \<Longrightarrow>
     \<exists>k i kvs'. kvs = (k, i) # kvs' \<and> json_string k @ CHR '':'' # render i @ render_members kvs' @ r = t"
  by (cases kvs rule: render_members.cases; auto)+

lemma render_not_close [simp]: "render j @ r \<noteq> CHR '']'' # t"
  using hd_render [of j] by auto

lemma json_string_not_close [simp]: "json_string s @ r \<noteq> CHR ''}'' # t"
  by (simp add: json_string_def)

lemma render_prefix_free:
  shows "render j' @ r' = render j @ r \<Longrightarrow> j' = j \<and> r' = r"
    and "render_elems js' @ r' = render_elems js @ r \<Longrightarrow> js' = js \<and> r' = r"
    and "render_members kvs' @ r' = render_members kvs @ r \<Longrightarrow> kvs' = kvs \<and> r' = r"
proof (induction j and js and kvs arbitrary: j' r r' and js' r r' and kvs' r r'
    rule: render_render_elems_render_members.induct)
  case (1 j' r r')
  then show ?case using render_shape(1) [of j' r' "''ull'' @ r"] by simp
next
  case (2 s j' r r')
  then show ?case using render_JStr by simp
next
  case (3 j' r r')
  then have "render j' @ r' = CHR ''['' # CHR '']'' # r" by simp
  from render_shape(3) [OF this] show ?case by auto
next
  case (4 j js j' r r')
  from 4(3) have "render j' @ r' = CHR ''['' # render j @ render_elems js @ r" by simp
  from render_shape(3) [OF this] obtain i js1 where
    j': "j' = JArr (i # js1)" and "render i @ render_elems js1 @ r' = render j @ render_elems js @ r" by auto
  then have "i = j \<and> render_elems js1 @ r' = render_elems js @ r" by (intro 4(1))
  then show ?case using 4(2) [of js1 r' r] j' by simp
next
  case (5 j' r r')
  then have "render j' @ r' = CHR ''{'' # CHR ''}'' # r" by simp
  from render_shape(4) [OF this] show ?case by auto
next
  case (6 k j kvs j' r r')
  from 6(3) have "render j' @ r' = CHR ''{'' # json_string k @ CHR '':'' # render j @ render_members kvs @ r" by simp
  from render_shape(4) [OF this] obtain k1 i kvs1 where j': "j' = JObj ((k1, i) # kvs1)" and
    "json_string k1 @ CHR '':'' # render i @ render_members kvs1 @ r'
      = json_string k @ CHR '':'' # render j @ render_members kvs @ r" by auto
  from member_prefix_free [OF this(2)] have k: "k1 = k" and
    "i = j \<and> render_members kvs1 @ r' = render_members kvs @ r" by (auto intro!: 6(1))
  then show ?case using 6(2) [of kvs1 r' r] j' by simp
next
  case (7 js' r r')
  then show ?case using render_elems_shape(1) [of js' r' r] by simp
next
  case (8 j js js' r r')
  from 8(3) have "render_elems js' @ r' = CHR '','' # render j @ render_elems js @ r" by simp
  from render_elems_shape(2) [OF this] obtain i js1 where
    js': "js' = i # js1" and "render i @ render_elems js1 @ r' = render j @ render_elems js @ r" by auto
  then have "i = j \<and> render_elems js1 @ r' = render_elems js @ r" by (intro 8(1))
  then show ?case using 8(2) [of js1 r' r] js' by simp
next
  case (9 kvs' r r')
  then show ?case using render_members_shape(1) [of kvs' r' r] by simp
next
  case (10 k j kvs kvs' r r')
  from 10(3) have "render_members kvs' @ r' = CHR '','' # json_string k @ CHR '':'' # render j @ render_members kvs @ r"
    by simp
  from render_members_shape(2) [OF this] obtain k1 i kvs1 where kvs': "kvs' = (k1, i) # kvs1" and
    "json_string k1 @ CHR '':'' # render i @ render_members kvs1 @ r'
      = json_string k @ CHR '':'' # render j @ render_members kvs @ r" by auto
  from member_prefix_free [OF this(2)] have k: "k1 = k" and
    "i = j \<and> render_members kvs1 @ r' = render_members kvs @ r" by (auto intro!: 10(1))
  then show ?case using 10(2) [of kvs1 r' r] kvs' by simp
qed

lemma render_inj: "render j = render j' \<longleftrightarrow> j = j'"
  using render_prefix_free(1) [of j "[]" j' "[]"] by auto

section \<open>Maps\<close>

lemma map_members_cong:
  assumes "map_of m = map_of m'" and "distinct (keys m)" and "distinct (keys m')"
  shows "map_members f m = map_members f m'"
proof -
  have "set (keys m) = set (keys m')"
    using assms(1) by (metis dom_map_of_conv_image_fst set_map)
  then have "sort (keys m) = sort (keys m')"
    using assms(2,3) by (metis set_eq_iff_mset_eq_distinct properties_for_sort sorted_sort mset_sort)
  then show ?thesis by (simp add: map_members_def assms(1))
qed

lemma keys_map_members: "distinct (keys m) \<Longrightarrow> map fst (map_members f m) = sort (keys m)"
proof -
  have *: "set ks \<subseteq> fst ` set m \<Longrightarrow>
      map fst (concat (map (\<lambda>k. case map_of m k of None \<Rightarrow> [] | Some v \<Rightarrow> [(k, f v)]) ks)) = ks" for ks
    by (induction ks) (auto split: option.split simp: map_of_eq_None_iff)
  show ?thesis unfolding map_members_def by (rule *) simp
qed

lemma map_of_map_members: "distinct (keys m) \<Longrightarrow> map_of (map_members f m) k = map_option f (map_of m k)"
proof -
  have *: "map_of (concat (map (\<lambda>k. case map_of m k of None \<Rightarrow> [] | Some v \<Rightarrow> [(k, f v)]) ks)) k
      = (if k \<in> set ks then map_option f (map_of m k) else None)" for ks
    by (induction ks) (auto split: option.split)
  show ?thesis unfolding map_members_def * by (auto simp: map_of_eq_None_iff)
qed

end
