(* ===== verification/McRouterConfig.thy ===== *)
theory McRouterConfig
  imports Cluster Json
begin

text \<open>
  The mcrouter configuration of a proxy: internal/controller/proxyconfigmap/config.go.

  \<open>routeForRule\<close> walks the rule tree and fills the map \<open>services\<close> it is given as a side effect, also on the
  way to an error; the map is passed through explicitly. \<open>poolForService\<close> resolves one service to the
  addresses behind it. \<open>configForProxy\<close> combines them, ranging over the Go map \<open>services\<close> in the order
  \<open>env_range\<close> chooses.

  The specification side: \<open>first_unknown_type\<close> is the type the traversal trips over, if any, \<open>route_of\<close> the
  route a rule tree stands for and \<open>used_services\<close> the services it reads, in order.
\<close>

section \<open>Types\<close>

record Pool =
  pool_Servers :: "string slice"

datatype StringOrRoute = StringOrRoute (sor_Route: "Route option") (sor_StringVal: string)
and Route = Route (rt_Type: string) (rt_DefaultPolicy: "StringOrRoute option")
  (rt_OperationPolicies: "OperationPolicies option") (rt_Children: "StringOrRoute list option")
and OperationPolicies = OperationPolicies (op_Add: "StringOrRoute option") (op_Set: "StringOrRoute option")
  (op_Delete: "StringOrRoute option") (op_Get: "StringOrRoute option")

record McRouterConfig =
  mc_Pools :: "(string \<times> Pool) list"
  mc_Route :: StringOrRoute

section \<open>JSON\<close>

primrec MarshalJSON :: "StringOrRoute \<Rightarrow> json"
  and marshal_Route :: "Route \<Rightarrow> json"
  and marshal_OperationPolicies :: "OperationPolicies \<Rightarrow> json"
where
  "MarshalJSON (StringOrRoute r s) =
     (if s \<noteq> [] then JStr s else case map_option marshal_Route r of None \<Rightarrow> JNull | Some j \<Rightarrow> j)"
| "marshal_Route (Route t dp ops cs) =
     JObj ([(''type'', JStr t)]
       @ omitempty ''default_policy'' (map_option MarshalJSON dp)
       @ omitempty ''operation_policies'' (map_option marshal_OperationPolicies ops)
       @ omitempty_arr ''children'' (map_option (map MarshalJSON) cs))"
| "marshal_OperationPolicies (OperationPolicies ad st de ge) =
     JObj (omitempty ''add'' (map_option MarshalJSON ad)
       @ omitempty ''set'' (map_option MarshalJSON st)
       @ omitempty ''delete'' (map_option MarshalJSON de)
       @ omitempty ''empty'' (map_option MarshalJSON ge))"

definition marshal_Pool :: "Pool \<Rightarrow> json" where
  "marshal_Pool pool =
     JObj [(''servers'', case pool_Servers pool of None \<Rightarrow> JNull | Some ss \<Rightarrow> JArr (map JStr ss))]"

definition marshal_config :: "McRouterConfig \<Rightarrow> json" where
  \<comment> \<open>\<open>omitempty\<close> drops an empty map; it has no effect on the struct \<open>Route\<close>\<close>
  "marshal_config c =
     JObj ((if mc_Pools c = [] then [] else [(''pools'', JObj (map_members marshal_Pool (mc_Pools c)))])
       @ [(''route'', MarshalJSON (mc_Route c))])"

definition config_json :: "McRouterConfig \<Rightarrow> string" where
  \<comment> \<open>\<open>json.Marshal(config)\<close>, which cannot fail on these types\<close>
  "config_json c = render (marshal_config c)"

section \<open>Pools\<close>

definition ProtocolTCP :: string where "ProtocolTCP = ''TCP''"

definition portMatches :: "EndpointPort \<Rightarrow> IntOrString \<Rightarrow> bool" where
  "portMatches eport targetPort =
     (if is_Type targetPort = IntstrInt
      then epp_Protocol eport = ProtocolTCP \<and> epp_Port eport = is_IntVal targetPort
      else epp_Protocol eport = ProtocolTCP \<and> epp_Name eport = is_StrVal targetPort)"

definition find_port :: "IntOrString \<Rightarrow> ServicePort list \<Rightarrow> ServicePort option" where
  \<comment> \<open>the loop has no break: the last match wins\<close>
  "find_port want ports =
     fold (\<lambda>p port.
       if is_Type want = IntstrInt
       then (if sp_Port p = is_IntVal want then Some p else port)
       else (if sp_Name p = is_StrVal want then Some p else port)) ports None"

definition server_address :: "EndpointAddress \<Rightarrow> EndpointPort \<Rightarrow> string" where
  "server_address addr eport = ea_IP addr @ '':'' @ Sprint_int32 (epp_Port eport)"

definition subset_servers :: "IntOrString \<Rightarrow> EndpointSubset \<Rightarrow> string list" where
  "subset_servers targetPort ss =
     concat (map (\<lambda>eport.
       if portMatches eport targetPort
       then map (\<lambda>addr. server_address addr eport) (elems (ss_Addresses ss))
       else []) (elems (ss_Ports ss)))"

definition poolForService :: "cluster \<Rightarrow> ServiceSpec \<Rightarrow> go_error + Pool" where
  "poolForService cl s =
     (case lister_Get ''service'' (cl_services cl) (ss_Namespace s) (ss_Name s) of
        Inl err \<Rightarrow> Inl err
      | Inr svc \<Rightarrow>
          (case find_port (ss_Port s) (svc_Ports svc) of
             None \<Rightarrow> Inl (ErrorString (''failed to find port '' @ Quote (IntOrStringText (ss_Port s))
                 @ '' for service '' @ Quote (ss_Namespace s @ ''/'' @ ss_Name s)))
           | Some port \<Rightarrow>
               (case lister_Get ''endpoints'' (cl_endpoints cl) (om_Namespace (svc_Meta svc)) (om_Name (svc_Meta svc)) of
                  Inl err \<Rightarrow> Inl err
                | Inr ep \<Rightarrow>
                    Inr \<lparr>pool_Servers = append_slice None
                      (concat (map (subset_servers (sp_TargetPort port)) (elems (eps_Subsets ep))))\<rparr>)))"

section \<open>Routes\<close>

type_synonym services = "(string \<times> ServiceSpec) list"

definition unknown_rule_type :: "string \<Rightarrow> go_error" where
  "unknown_rule_type t = ErrorString (''unknown rule type: '' @ Quote t)"

definition string_route :: "string \<Rightarrow> StringOrRoute" where
  "string_route s = StringOrRoute None s"

definition object_route :: "Route \<Rightarrow> StringOrRoute" where
  "object_route r = StringOrRoute (Some r) []"

definition replicated_service_route :: "string \<Rightarrow> StringOrRoute" where
  "replicated_service_route poolName =
     object_route (Route ''OperationSelectorRoute''
       (Some (string_route (''AllSyncRoute|Pool|'' @ poolName)))
       (Some (OperationPolicies None None (Some (string_route (''LatestRoute|Pool|'' @ poolName))) None))
       None)"

definition replicated_children_route :: "StringOrRoute slice \<Rightarrow> StringOrRoute" where
  "replicated_children_route children =
     object_route (Route ''OperationSelectorRoute''
       (Some (object_route (Route ''AllSyncRoute'' None None children)))
       (Some (OperationPolicies None None (Some (object_route (Route ''LatestRoute'' None None children))) None))
       None)"

definition sharded_service_route :: "string \<Rightarrow> StringOrRoute" where
  "sharded_service_route poolName = string_route (''PoolRoute|'' @ poolName)"

definition sharded_children_route :: "StringOrRoute slice \<Rightarrow> StringOrRoute" where
  "sharded_children_route children = object_route (Route ''HashRoute'' None None children)"

fun routeForRule :: "RuleSpec \<Rightarrow> services \<Rightarrow> (go_error + StringOrRoute) \<times> services"
  and routesForRules :: "RuleSpec list \<Rightarrow> services \<Rightarrow> (go_error + StringOrRoute list) \<times> services"
where
  "routeForRule (RuleSpec t s cs) services =
     (if t = ReplicatedRuleType then
        (case s of
           Some svc \<Rightarrow>
             (let poolName = poolNameForServiceSpec svc
              in (Inr (replicated_service_route poolName), map_put poolName svc services))
         | None \<Rightarrow>
             (case routesForRules (elems cs) services of
                (Inl err, services') \<Rightarrow> (Inl err, services')
              | (Inr children, services') \<Rightarrow>
                  (Inr (replicated_children_route (append_slice None children)), services')))
      else if t = ShardedRuleType then
        (case s of
           Some svc \<Rightarrow>
             (let poolName = poolNameForServiceSpec svc
              in (Inr (sharded_service_route poolName), map_put poolName svc services))
         | None \<Rightarrow>
             (case routesForRules (elems cs) services of
                (Inl err, services') \<Rightarrow> (Inl err, services')
              | (Inr children, services') \<Rightarrow>
                  (Inr (sharded_children_route (append_slice None children)), services')))
      else (Inl (unknown_rule_type t), services))"
| "routesForRules [] services = (Inr [], services)"
| "routesForRules (r # rs) services =
     (case routeForRule r services of
        (Inl err, services') \<Rightarrow> (Inl err, services')
      | (Inr child, services') \<Rightarrow>
          (case routesForRules rs services' of
             (Inl err, services'') \<Rightarrow> (Inl err, services'')
           | (Inr children, services'') \<Rightarrow> (Inr (child # children), services'')))"

section \<open>The configuration\<close>

fun poolsForServices ::
  "cluster \<Rightarrow> services \<Rightarrow> string list \<Rightarrow> (string \<times> Pool) list \<Rightarrow> go_error + (string \<times> Pool) list" where
  "poolsForServices cl services [] pools = Inr pools"
| "poolsForServices cl services (poolName # names) pools =
     (case map_of services poolName of
        None \<Rightarrow> poolsForServices cl services names pools
      | Some s \<Rightarrow>
          (case poolForService cl s of
             Inl err \<Rightarrow> Inl err
           | Inr pool \<Rightarrow> poolsForServices cl services names (map_put poolName pool pools)))"

definition configForProxy :: "env \<Rightarrow> cluster \<Rightarrow> MemcachedProxy \<Rightarrow> go_error + McRouterConfig" where
  "configForProxy e cl p =
     (case routeForRule (spec_Rules (mp_Spec p)) [] of
        (Inl err, services) \<Rightarrow> Inl err
      | (Inr route, services) \<Rightarrow>
          (case poolsForServices cl services (env_range e RangePools (keys services)) [] of
             Inl err \<Rightarrow> Inl err
           | Inr pools \<Rightarrow> Inr \<lparr>mc_Pools = pools, mc_Route = route\<rparr>))"

section \<open>What a rule tree stands for\<close>

definition known_type :: "string \<Rightarrow> bool" where
  "known_type t \<longleftrightarrow> t = ReplicatedRuleType \<or> t = ShardedRuleType"

definition first_Some :: "'a option list \<Rightarrow> 'a option" where
  "first_Some xs = (case filter (\<lambda>x. x \<noteq> None) xs of [] \<Rightarrow> None | x # _ \<Rightarrow> x)"

primrec first_unknown_type :: "RuleSpec \<Rightarrow> string option" where
  \<comment> \<open>rules below a rule that has a service are never looked at\<close>
  "first_unknown_type (RuleSpec t s cs) =
     (if \<not> known_type t then Some t
      else if s \<noteq> None then None
      else first_Some (elems (map_option (map first_unknown_type) cs)))"

primrec reachable_types :: "RuleSpec \<Rightarrow> string list" where
  \<comment> \<open>the types of the rules the traversal can look at, parents first\<close>
  "reachable_types (RuleSpec t s cs) =
     t # (if s \<noteq> None then [] else concat (elems (map_option (map reachable_types) cs)))"

primrec used_services :: "RuleSpec \<Rightarrow> ServiceSpec list" where
  "used_services (RuleSpec t s cs) =
     (case s of Some svc \<Rightarrow> [svc] | None \<Rightarrow> concat (elems (map_option (map used_services) cs)))"

primrec route_of :: "RuleSpec \<Rightarrow> StringOrRoute" where
  "route_of (RuleSpec t s cs) =
     (if t = ReplicatedRuleType then
        (case s of
           Some svc \<Rightarrow> replicated_service_route (poolNameForServiceSpec svc)
         | None \<Rightarrow> replicated_children_route (append_slice None (elems (map_option (map route_of) cs))))
      else
        (case s of
           Some svc \<Rightarrow> sharded_service_route (poolNameForServiceSpec svc)
         | None \<Rightarrow> sharded_children_route (append_slice None (elems (map_option (map route_of) cs)))))"

definition put_service :: "ServiceSpec \<Rightarrow> services \<Rightarrow> services" where
  "put_service s services = map_put (poolNameForServiceSpec s) s services"

primrec sor_strings :: "StringOrRoute \<Rightarrow> string list"
  and route_strings :: "Route \<Rightarrow> string list"
  and policies_strings :: "OperationPolicies \<Rightarrow> string list"
where
  \<comment> \<open>the string routes that occur in a route\<close>
  "sor_strings (StringOrRoute r s) =
     (if s \<noteq> [] then [s] else case map_option route_strings r of None \<Rightarrow> [] | Some ss \<Rightarrow> ss)"
| "route_strings (Route t dp ops cs) =
     (case map_option sor_strings dp of None \<Rightarrow> [] | Some ss \<Rightarrow> ss)
     @ (case map_option policies_strings ops of None \<Rightarrow> [] | Some ss \<Rightarrow> ss)
     @ concat (elems (map_option (map sor_strings) cs))"
| "policies_strings (OperationPolicies ad st de ge) =
     (case map_option sor_strings ad of None \<Rightarrow> [] | Some ss \<Rightarrow> ss)
     @ (case map_option sor_strings st of None \<Rightarrow> [] | Some ss \<Rightarrow> ss)
     @ (case map_option sor_strings de of None \<Rightarrow> [] | Some ss \<Rightarrow> ss)
     @ (case map_option sor_strings ge of None \<Rightarrow> [] | Some ss \<Rightarrow> ss)"

primrec sor_wf :: "StringOrRoute \<Rightarrow> bool"
  and route_wf :: "Route \<Rightarrow> bool"
  and policies_wf :: "OperationPolicies \<Rightarrow> bool"
where
  \<comment> \<open>a value in the form \<open>routeForRule\<close> builds: a string or an object, not both and not neither, and
      no slice that is empty without being nil\<close>
  "sor_wf (StringOrRoute r s) =
     (if s \<noteq> [] then r = None else pred_option (\<lambda>b. b) (map_option route_wf r) \<and> r \<noteq> None)"
| "route_wf (Route t dp ops cs) =
     (pred_option (\<lambda>b. b) (map_option sor_wf dp) \<and> pred_option (\<lambda>b. b) (map_option policies_wf ops)
      \<and> list_all (\<lambda>b. b) (elems (map_option (map sor_wf) cs)) \<and> cs \<noteq> Some [])"
| "policies_wf (OperationPolicies ad st de ge) =
     (pred_option (\<lambda>b. b) (map_option sor_wf ad) \<and> pred_option (\<lambda>b. b) (map_option sor_wf st)
      \<and> pred_option (\<lambda>b. b) (map_option sor_wf de) \<and> pred_option (\<lambda>b. b) (map_option sor_wf ge))"

definition pool_of_string :: "string \<Rightarrow> string" where
  \<comment> \<open>mcrouter's short form: the pool is what follows the last bar\<close>
  "pool_of_string s = last (Split (CHR ''|'') s)"

definition proxy_services :: "MemcachedProxy \<Rightarrow> services" where
  "proxy_services p = fold put_service (used_services (spec_Rules (mp_Spec p))) []"

definition renderable :: "cluster \<Rightarrow> MemcachedProxy \<Rightarrow> bool" where
  \<comment> \<open>every rule that is looked at has a known type and every service in the map resolves\<close>
  "renderable cl p \<longleftrightarrow> list_all known_type (reachable_types (spec_Rules (mp_Spec p)))
     \<and> list_all (\<lambda>(n, s). \<not> isl (poolForService cl s)) (proxy_services p)"

definition sharded_proxy :: MemcachedProxy where
  \<comment> \<open>docs/sharded-example.yaml after the proxy controller has seen it\<close>
  "sharded_proxy = ApplyDefaults
     \<lparr>mp_APIVersion = ''ianlewis.org/v1alpha1'', mp_Kind = ''MemcachedProxy'',
      mp_Meta = zero_meta\<lparr>om_Name := ''sharded-example'', om_Namespace := ''default'', om_UID := ''uid-2'',
        om_Generation := 1\<rparr>,
      mp_Spec = \<lparr>
        spec_Rules = RuleSpec ''sharded'' (Some \<lparr>ss_Name = ''sharded-memcached'', ss_Namespace = [],
             ss_Port = \<lparr>is_Type = 0, is_IntVal = 11211, is_StrVal = []\<rparr>\<rparr>) None,
        spec_McRouter = \<lparr>mr_Image = [], mr_Resources = [], mr_Port = None,
          mr_SecurityContext = None, mr_StatsRoot = []\<rparr>\<rparr>,
      mp_Status = \<lparr>st_ObservedGeneration = 1\<rparr>\<rparr>"

definition memcached_service :: Service where
  \<comment> \<open>the service that \<open>sharded_proxy\<close> references\<close>
  "memcached_service =
     \<lparr>svc_Meta = zero_meta\<lparr>om_Name := ''sharded-memcached'', om_Namespace := ''default''\<rparr>,
      svc_Selector = [], svc_Type = ''ClusterIP'',
      svc_Ports = [\<lparr>sp_Name = ''memcached'', sp_Protocol = ''TCP'', sp_Port = 11211,
         sp_TargetPort = \<lparr>is_Type = 0, is_IntVal = 11211, is_StrVal = []\<rparr>\<rparr>],
      svc_Rest = []\<rparr>"

definition memcached_endpoints :: Endpoints where
  \<comment> \<open>two pods behind it\<close>
  "memcached_endpoints =
     \<lparr>eps_Meta = zero_meta\<lparr>om_Name := ''sharded-memcached'', om_Namespace := ''default''\<rparr>,
      eps_Subsets = Some [\<lparr>ss_Addresses = Some [\<lparr>ea_IP = ''10.0.0.1'', ea_Rest = []\<rparr>, \<lparr>ea_IP = ''10.0.0.2'', ea_Rest = []\<rparr>],
        ss_Ports = Some [\<lparr>epp_Name = ''memcached'', epp_Port = 11211, epp_Protocol = ''TCP''\<rparr>],
        ss_Rest = []\<rparr>]\<rparr>"

definition serving_cluster :: cluster where
  "serving_cluster = empty_cluster\<lparr>
     cl_proxies := ix_Add mp_Meta sharded_proxy new_indexer,
     cl_services := ix_Add svc_Meta memcached_service new_indexer,
     cl_endpoints := ix_Add eps_Meta memcached_endpoints new_indexer\<rparr>"

definition idle_cluster :: cluster where
  \<comment> \<open>the same cluster with no pod ready\<close>
  "idle_cluster = serving_cluster\<lparr>cl_endpoints :=
     ix_Add eps_Meta (memcached_endpoints\<lparr>eps_Subsets := None\<rparr>) new_indexer\<rparr>"

definition memcached_ref :: ServiceSpec where
  "memcached_ref = \<lparr>ss_Name = ''sharded-memcached'', ss_Namespace = ''default'',
     ss_Port = \<lparr>is_Type = 0, is_IntVal = 11211, is_StrVal = []\<rparr>\<rparr>"

section \<open>Lemmas on routes\<close>

lemma first_Some_simps [simp]:
  "first_Some [] = None"
  "first_Some (None # xs) = first_Some xs"
  "first_Some (Some x # xs) = Some x"
  by (simp_all add: first_Some_def)

lemma types_distinct [simp]: "ShardedRuleType \<noteq> ReplicatedRuleType" "ReplicatedRuleType \<noteq> ShardedRuleType"
  by (simp_all add: ShardedRuleType_def ReplicatedRuleType_def)

lemma routeForRule_refines:
  shows "first_unknown_type r = None \<Longrightarrow>
      routeForRule r sv = (Inr (route_of r), fold put_service (used_services r) sv)"
    and "first_Some (map first_unknown_type rs) = None \<Longrightarrow>
      routesForRules rs sv = (Inr (map route_of rs), fold put_service (concat (map used_services rs)) sv)"
proof (induction r sv and rs sv rule: routeForRule_routesForRules.induct)
  case (1 t s cs services)
  show ?case
  proof (cases s)
    case None
    then show ?thesis using 1 by (auto simp: known_type_def split: if_splits)
  next
    case (Some svc)
    then show ?thesis using 1(3) by (auto simp: known_type_def put_service_def Let_def split: if_splits)
  qed
next
  case (3 r rs services)
  then show ?case by (cases "first_unknown_type r") auto
qed simp

lemma routeForRule_unknown:
  shows "first_unknown_type r = Some t \<Longrightarrow> fst (routeForRule r sv) = Inl (unknown_rule_type t)"
    and "first_Some (map first_unknown_type rs) = Some t \<Longrightarrow>
      fst (routesForRules rs sv) = Inl (unknown_rule_type t)"
proof (induction r sv and rs sv rule: routeForRule_routesForRules.induct)
  case (1 t' s cs services)
  show ?case
  proof (cases s)
    case None
    then show ?thesis
      using 1 by (cases "routesForRules (elems cs) services") (auto simp: known_type_def split: if_splits)
  next
    case (Some svc)
    then show ?thesis using 1(3) by (auto simp: known_type_def split: if_splits)
  qed
next
  case (3 r rs services)
  show ?case
  proof (cases "first_unknown_type r")
    case None
    then show ?thesis
      using 3 routeForRule_refines(1) [OF None, of services]
      by (cases "routesForRules rs (snd (routeForRule r services))") auto
  next
    case (Some u)
    then show ?thesis using 3 by (cases "routeForRule r services") auto
  qed
qed simp

lemma map_of_fold_put_service:
  "map_of (fold put_service ss sv) n =
     (case filter (\<lambda>s. poolNameForServiceSpec s = n) ss of
        [] \<Rightarrow> map_of sv n | s # rest \<Rightarrow> Some (last (s # rest)))"
  by (induction ss arbitrary: sv) (auto simp: put_service_def split: list.splits)

lemma proxy_services_last:
  "map_of (proxy_services p) n = Some s \<longleftrightarrow>
     (\<exists>ss. filter (\<lambda>s. poolNameForServiceSpec s = n) (used_services (spec_Rules (mp_Spec p))) = ss @ [s])"
proof -
  have "(case xs of [] \<Rightarrow> None | y # ys \<Rightarrow> Some (last (y # ys))) = Some s \<longleftrightarrow> (\<exists>ss. xs = ss @ [s])" for xs :: "ServiceSpec list"
  proof -
    have "(case xs of [] \<Rightarrow> None | y # ys \<Rightarrow> Some (last (y # ys))) = (if xs = [] then None else Some (last xs))"
      by (cases xs) simp_all
    then show ?thesis by (cases xs rule: rev_cases) auto
  qed
  then show ?thesis unfolding proxy_services_def map_of_fold_put_service map_of.simps(1) .
qed

lemma keys_fold_put_service:
  "fst ` set (fold put_service ss sv) = fst ` set sv \<union> poolNameForServiceSpec ` set ss"
  by (induction ss arbitrary: sv) (auto simp: put_service_def)

lemma distinct_fold_put_service:
  "distinct (keys sv) \<Longrightarrow> distinct (keys (fold put_service ss sv))"
  by (induction ss arbitrary: sv) (auto simp: put_service_def)

lemma pool_of_string_bar:
  assumes "CHR ''|'' \<notin> set n"
  shows "pool_of_string (''PoolRoute|'' @ n) = n" "pool_of_string (''AllSyncRoute|Pool|'' @ n) = n"
    "pool_of_string (''LatestRoute|Pool|'' @ n) = n"
  using assms by (simp_all add: pool_of_string_def Split_no_sep)

lemma poolName_no_bar: "CHR ''|'' \<notin> set (poolNameForServiceSpec s)"
proof -
  have "\<not> is_hex (CHR ''|'')" by (simp add: is_hex_def)
  then show ?thesis
    using MakeName_suffix [of "[]" "[ss_Name s, ss_Namespace s, IntOrStringText (ss_Port s)]"]
    by (auto simp: poolNameForServiceSpec_def list_all_iff)
qed

lemma sor_strings_routes:
  "set (map pool_of_string (sor_strings (replicated_service_route (poolNameForServiceSpec s)))) = {poolNameForServiceSpec s}"
  "set (map pool_of_string (sor_strings (sharded_service_route (poolNameForServiceSpec s)))) = {poolNameForServiceSpec s}"
  "set (sor_strings (replicated_children_route cs)) = (\<Union>c \<in> set (elems cs). set (sor_strings c))"
  "set (sor_strings (sharded_children_route cs)) = (\<Union>c \<in> set (elems cs). set (sor_strings c))"
  using pool_of_string_bar [OF poolName_no_bar [of s]]
  by (simp_all add: replicated_service_route_def sharded_service_route_def replicated_children_route_def
      sharded_children_route_def object_route_def string_route_def)

lemma route_of_pools:
  "pool_of_string ` set (sor_strings (route_of r)) = poolNameForServiceSpec ` set (used_services r)"
proof (induction r rule: RuleSpec_induct)
  case (RuleSpec t s cs)
  show ?case
  proof (cases s)
    case None
    then show ?thesis
      using RuleSpec by (auto simp: sor_strings_routes image_UN simp del: append_slice_None)
  next
    case (Some svc)
    then show ?thesis using sor_strings_routes(1,2) [of svc] by simp
  qed
qed

section \<open>Lemmas on pools\<close>


lemma poolsForServices_Inr:
  assumes "\<forall>n \<in> set ns. \<exists>s pool. map_of services n = Some s \<and> poolForService cl s = Inr pool"
  shows "\<exists>pools'. poolsForServices cl services ns pools = Inr pools' \<and>
    (\<forall>n. map_of pools' n = (if n \<in> set ns then (case poolForService cl (the (map_of services n)) of
        Inl _ \<Rightarrow> None | Inr pool \<Rightarrow> Some pool) else map_of pools n))
    \<and> (distinct (keys pools) \<longrightarrow> distinct (keys pools'))"
  using assms
proof (induction ns arbitrary: pools)
  case (Cons n ns)
  obtain s pool where n: "map_of services n = Some s" "poolForService cl s = Inr pool"
    using Cons.prems by auto
  have "\<forall>n \<in> set ns. \<exists>s pool. map_of services n = Some s \<and> poolForService cl s = Inr pool"
    using Cons.prems by simp
  from Cons.IH [OF this, of "map_put n pool pools"] show ?case
    using n by auto
qed simp

lemma poolsForServices_Inl:
  assumes "n \<in> set ns" and "map_of services n = Some s" and "poolForService cl s = Inl err"
  shows "\<exists>err'. poolsForServices cl services ns pools = Inl err'
    \<and> (\<exists>s' \<in> ran (map_of services). poolForService cl s' = Inl err')"
  using assms
proof (induction ns arbitrary: pools)
  case (Cons m ns)
  show ?case
  proof (cases "m = n")
    case True
    then show ?thesis using Cons.prems by (auto simp: ran_def)
  next
    case False
    then show ?thesis
      using Cons by (auto simp: ran_def split: option.split sum.split)
  qed
qed simp

section \<open>The text determines the configuration\<close>

lemma omitempty_eq [simp]:
  "omitempty k v @ xs = omitempty k v' @ ys \<longleftrightarrow> v = v' \<and> xs = ys"
  if "k \<notin> fst ` set xs" "k \<notin> fst ` set ys"
  using that by (auto simp: omitempty_def image_iff split: option.splits)

lemma fst_omitempty [simp]:
  "(k \<in> fst ` set (omitempty j v)) = (k = j \<and> v \<noteq> None)"
  "(k \<in> fst ` set (omitempty_arr j w)) = (k = j \<and> elems w \<noteq> [])"
  by (auto simp: omitempty_def omitempty_arr_def split: option.splits)

lemma omitempty_arr_eq:
  "omitempty_arr k v = omitempty_arr k v' \<longleftrightarrow> elems v = elems v'"
  by (auto simp: omitempty_arr_def)

lemma map_option_inj_on:
  "map_option f x = map_option f y \<Longrightarrow> (\<And>a b. x = Some a \<Longrightarrow> y = Some b \<Longrightarrow> f a = f b \<Longrightarrow> a = b) \<Longrightarrow> x = y"
  by (cases x; cases y) auto

lemma map_inj_on_elems:
  "map f xs = map f ys \<Longrightarrow> (\<And>a b. a \<in> set xs \<Longrightarrow> b \<in> set ys \<Longrightarrow> f a = f b \<Longrightarrow> a = b) \<Longrightarrow> xs = ys"
  by (induction xs arbitrary: ys) (auto simp: Cons_eq_map_conv)

lemma marshal_Route_eq:
  "marshal_Route (Route t dp ops cs) = marshal_Route (Route t' dp' ops' cs') \<longleftrightarrow>
     t = t' \<and> map_option MarshalJSON dp = map_option MarshalJSON dp'
     \<and> map_option marshal_OperationPolicies ops = map_option marshal_OperationPolicies ops'
     \<and> map MarshalJSON (elems cs) = map MarshalJSON (elems cs')"
  by (simp add: image_Un omitempty_arr_eq)

lemma marshal_policies_eq:
  "marshal_OperationPolicies (OperationPolicies a b c d) = marshal_OperationPolicies (OperationPolicies a' b' c' d') \<longleftrightarrow>
     map_option MarshalJSON a = map_option MarshalJSON a' \<and> map_option MarshalJSON b = map_option MarshalJSON b'
     \<and> map_option MarshalJSON c = map_option MarshalJSON c' \<and> map_option MarshalJSON d = map_option MarshalJSON d'"
proof -
  have last: "omitempty ''empty'' v = omitempty ''empty'' v' \<longleftrightarrow> v = v'" for v v'
    using omitempty_eq [of "''empty''" "[]" "[]" v v'] by simp
  show ?thesis by (simp add: image_Un last)
qed

lemma marshal_shape: "\<exists>kvs. marshal_Route r = JObj kvs" "\<exists>kvs. marshal_OperationPolicies ops = JObj kvs"
  by (cases r; simp) (cases ops; simp)

lemma slice_eqI: "elems cs = elems cs' \<Longrightarrow> cs \<noteq> Some [] \<Longrightarrow> cs' \<noteq> Some [] \<Longrightarrow> cs = cs'"
  by (cases cs; cases cs') auto

lemma marshal_inj:
  shows "sor_wf x \<Longrightarrow> sor_wf x' \<Longrightarrow> MarshalJSON x = MarshalJSON x' \<Longrightarrow> x = x'"
    and "route_wf r \<Longrightarrow> route_wf r' \<Longrightarrow> marshal_Route r = marshal_Route r' \<Longrightarrow> r = r'"
    and "policies_wf ops \<Longrightarrow> policies_wf ops' \<Longrightarrow> marshal_OperationPolicies ops = marshal_OperationPolicies ops' \<Longrightarrow> ops = ops'"
proof (induction x and r and ops arbitrary: x' and r' and ops' rule: StringOrRoute.induct Route.induct OperationPolicies.induct)
  case (StringOrRoute ro s)
  obtain ro' s' where x': "x' = StringOrRoute ro' s'" by (cases x')
  show ?case
  proof (cases "s = []")
    case True
    then obtain r where r: "ro = Some r" "route_wf r" using StringOrRoute.prems(1) by auto
    have "s' = []"
      using StringOrRoute.prems(3) marshal_shape(1) [of r] True r by (auto simp: x' split: if_splits)
    then obtain r' where "ro' = Some r'" "route_wf r'" using StringOrRoute.prems(2) x' by auto
    then show ?thesis
      using StringOrRoute.IH [of r r'] StringOrRoute.prems(3) r x' True \<open>s' = []\<close> by simp
  next
    case False
    have "s' \<noteq> []"
    proof
      assume "s' = []"
      then obtain r' where "ro' = Some r'" using StringOrRoute.prems(2) x' by auto
      then show False
        using StringOrRoute.prems(3) marshal_shape(1) [of r'] x' False \<open>s' = []\<close> by auto
    qed
    then show ?thesis using StringOrRoute.prems False x' by simp
  qed
next
  case (Route t dp ops cs)
  obtain t' dp' ops' cs' where r': "r' = Route t' dp' ops' cs'" by (cases r')
  note eq = Route.prems(3) [unfolded r' marshal_Route_eq]
  have "dp = dp'"
    by (rule map_option_inj_on [of MarshalJSON]) (use eq Route.IH(1) Route.prems(1,2) r' in auto)
  moreover have "ops = ops'"
    by (rule map_option_inj_on [of marshal_OperationPolicies]) (use eq Route.IH(2) Route.prems(1,2) r' in auto)
  moreover have "\<forall>a \<in> set (elems cs). sor_wf a" "\<forall>a \<in> set (elems cs'). sor_wf a"
    using Route.prems(1,2) r' by (auto simp: list_all_iff)
  then have "elems cs = elems cs'"
    using eq Route.IH(3)
    by (intro map_inj_on_elems [of MarshalJSON]) (auto simp: elems_def split: option.splits)
  ultimately show ?case using eq Route.prems(1,2) r' by (auto intro: slice_eqI)
next
  case (OperationPolicies a b c d)
  obtain a' b' c' d' where o': "ops' = OperationPolicies a' b' c' d'" by (cases ops')
  note eq = OperationPolicies.prems(3) [unfolded o' marshal_policies_eq]
  note wf = OperationPolicies.prems(1,2)
  have "a = a'" "b = b'" "c = c'" "d = d'"
    by (rule map_option_inj_on [of MarshalJSON]; use eq OperationPolicies.IH wf o' in auto)+
  then show ?case by (simp add: o')
qed

lemma route_wf_simps [simp]:
  "sor_wf (string_route s) = (s \<noteq> [])" "sor_wf (object_route r) = route_wf r"
  by (simp_all add: string_route_def object_route_def)

lemma sor_wf_route_of: "sor_wf (route_of r)"
proof (induction r rule: RuleSpec_induct)
  case (RuleSpec t s cs)
  then show ?case
    by (cases s) (auto simp: replicated_service_route_def sharded_service_route_def
        replicated_children_route_def sharded_children_route_def list_all_iff)
qed

lemma marshal_Pool_inj: "marshal_Pool a = marshal_Pool b \<longleftrightarrow> a = b"
proof -
  have "inj_on (map JStr) UNIV" by (simp add: inj_on_def)
  then show ?thesis
    by (cases a; cases b) (auto simp: marshal_Pool_def inj_on_def split: option.splits)
qed

lemma first_Some_find: "first_Some (map (\<lambda>x. List.find P (f x)) xs) = List.find P (concat (map f xs))"
proof (induction xs)
  case (Cons x xs)
  have "List.find P (ys @ zs) = (case List.find P ys of None \<Rightarrow> List.find P zs | Some y \<Rightarrow> Some y)" for ys zs
    by (induction ys) auto
  then show ?case using Cons by (cases "List.find P (f x)") auto
qed simp

lemma first_unknown_type_find:
  "first_unknown_type r = List.find (\<lambda>t. \<not> known_type t) (reachable_types r)"
proof (induction r rule: RuleSpec_induct)
  case (RuleSpec t s cs)
  then have eq: "map first_unknown_type (elems cs)
      = map (\<lambda>r. List.find (\<lambda>t. \<not> known_type t) (reachable_types r)) (elems cs)" by simp
  show ?case by (simp add: eq first_Some_find)
qed

section \<open>The result of configForProxy\<close>

lemma list_all_known_iff: "list_all known_type ts \<longleftrightarrow> List.find (\<lambda>t. \<not> known_type t) ts = None"
  by (auto simp: find_None_iff list_all_iff)

lemma distinct_proxy_services [simp]: "distinct (keys (proxy_services p))"
  by (simp add: proxy_services_def distinct_fold_put_service)

lemma routeForRule_known:
  "list_all known_type (reachable_types (spec_Rules (mp_Spec p))) \<Longrightarrow>
     routeForRule (spec_Rules (mp_Spec p)) [] = (Inr (route_of (spec_Rules (mp_Spec p))), proxy_services p)"
  using routeForRule_refines(1) by (simp add: list_all_known_iff first_unknown_type_find proxy_services_def)

lemma configForProxy_renderable:
  assumes "permutes_keys (env_range e)" and "renderable cl p"
  obtains pools where "configForProxy e cl p = Inr \<lparr>mc_Pools = pools, mc_Route = route_of (spec_Rules (mp_Spec p))\<rparr>"
    and "distinct (keys pools)"
    and "map_of pools = (\<lambda>n. case map_of (proxy_services p) n of None \<Rightarrow> None
           | Some s \<Rightarrow> (case poolForService cl s of Inl _ \<Rightarrow> None | Inr pool \<Rightarrow> Some pool))"
proof -
  define ns where "ns = env_range e RangePools (keys (proxy_services p))"
  have ns: "set ns = set (keys (proxy_services p))"
    unfolding ns_def by (rule permutes_keys_set [OF assms(1)])
  have "\<forall>n \<in> set ns. \<exists>s pool. map_of (proxy_services p) n = Some s \<and> poolForService cl s = Inr pool"
  proof
    fix n assume "n \<in> set ns"
    then obtain s where s: "map_of (proxy_services p) n = Some s" "(n, s) \<in> set (proxy_services p)"
      unfolding ns by fastforce
    then have "\<not> isl (poolForService cl s)" using assms(2) by (auto simp: renderable_def list_all_iff)
    then show "\<exists>s pool. map_of (proxy_services p) n = Some s \<and> poolForService cl s = Inr pool"
      using s by (auto simp: isl_def) (metis sum.exhaust)
  qed
  from poolsForServices_Inr [OF this, of "[]"] obtain pools where
    pools: "poolsForServices cl (proxy_services p) ns [] = Inr pools" "distinct (keys pools)"
    "\<And>n. map_of pools n = (if n \<in> set ns then (case poolForService cl (the (map_of (proxy_services p) n)) of
        Inl _ \<Rightarrow> None | Inr pool \<Rightarrow> Some pool) else None)" by auto
  have mo: "map_of pools n = (case map_of (proxy_services p) n of None \<Rightarrow> None
      | Some s \<Rightarrow> (case poolForService cl s of Inl _ \<Rightarrow> None | Inr pool \<Rightarrow> Some pool))" for n
  proof -
    have "n \<in> set ns \<longleftrightarrow> map_of (proxy_services p) n \<noteq> None" by (simp add: ns map_of_eq_None_iff)
    then show ?thesis by (auto simp: pools(3) split: option.split)
  qed
  show ?thesis
    by (rule that [OF _ pools(2)])
      (use assms(2) pools(1) mo in \<open>auto simp: configForProxy_def renderable_def routeForRule_known ns_def [symmetric]\<close>)
qed

lemma configForProxy_not_renderable:
  assumes "permutes_keys (env_range e)" and "\<not> renderable cl p"
  shows "isl (configForProxy e cl p)"
proof (cases "list_all known_type (reachable_types (spec_Rules (mp_Spec p)))")
  case True
  then obtain n s where ns: "(n, s) \<in> set (proxy_services p)" "isl (poolForService cl s)"
    using assms(2) by (auto simp: renderable_def list_all_iff)
  then obtain err where "poolForService cl s = Inl err" by (auto simp: isl_def)
  moreover have "n \<in> set (env_range e RangePools (keys (proxy_services p)))"
    unfolding permutes_keys_set [OF assms(1)] using ns(1) by force
  moreover have "map_of (proxy_services p) n = Some s" using ns(1) by simp
  ultimately show ?thesis
    using poolsForServices_Inl [of n _ "proxy_services p" s cl err "[]"] True
    by (fastforce simp: configForProxy_def routeForRule_known)
next
  case False
  then obtain t where "first_unknown_type (spec_Rules (mp_Spec p)) = Some t"
    by (auto simp: list_all_known_iff first_unknown_type_find)
  from routeForRule_unknown(1) [OF this, of "[]"] show ?thesis
    by (auto simp: configForProxy_def split: prod.split sum.split)
qed

lemma config_json_cong:
  assumes "map_of (mc_Pools c) = map_of (mc_Pools c')" and "mc_Route c = mc_Route c'"
    and "distinct (keys (mc_Pools c))" and "distinct (keys (mc_Pools c'))"
  shows "config_json c = config_json c'"
proof -
  have "mc_Pools c = [] \<longleftrightarrow> mc_Pools c' = []"
    using assms(1) by (metis map_of_eq_empty_iff)
  then show ?thesis
    using map_members_cong [OF assms(1,3,4), of marshal_Pool] assms(2)
    by (simp add: config_json_def marshal_config_def)
qed

lemma configForProxy_wf:
  assumes "permutes_keys (env_range e)" and "configForProxy e cl p = Inr config"
  shows "distinct (keys (mc_Pools config)) \<and> sor_wf (mc_Route config)"
proof -
  have "renderable cl p"
    using configForProxy_not_renderable [OF assms(1), of cl p] assms(2) by auto
  from configForProxy_renderable [OF assms(1) this] show ?thesis
    using assms(2) sor_wf_route_of by (metis McRouterConfig.select_convs sum.inject(2))
qed

lemma marshal_config_inj:
  assumes "marshal_config c = marshal_config c'"
    and "distinct (keys (mc_Pools c))" "sor_wf (mc_Route c)" "distinct (keys (mc_Pools c'))" "sor_wf (mc_Route c')"
  shows "map_of (mc_Pools c) = map_of (mc_Pools c') \<and> mc_Route c = mc_Route c'"
proof -
  have r: "MarshalJSON (mc_Route c) = MarshalJSON (mc_Route c')"
    and m: "mc_Pools c = mc_Pools c' \<or> map_members marshal_Pool (mc_Pools c) = map_members marshal_Pool (mc_Pools c')"
    using assms(1) by (auto simp: marshal_config_def split: if_splits)
  have "map_of (mc_Pools c) n = map_of (mc_Pools c') n" for n
    using m map_of_map_members [OF assms(2), of marshal_Pool n] map_of_map_members [OF assms(4), of marshal_Pool n]
    by (cases "map_of (mc_Pools c) n"; cases "map_of (mc_Pools c') n") (auto simp: marshal_Pool_inj)
  then show ?thesis using marshal_inj(1) [OF assms(3,5) r] by auto
qed

lemma nested_type_not_renderable:
  assumes "spec_Rules (mp_Spec p) = RuleSpec t None (Some rules)" and "r \<in> set rules" and "rs_Type r = []"
    and "mp_Spec q = mp_Spec (ApplyDefaults p)"
  shows "\<not> renderable cl q"
proof -
  let ?ns = "om_Namespace (mp_Meta p)"
  have "spec_Rules (mp_Spec q) = RuleSpec_ApplyDefaults ?ns (spec_Rules (mp_Spec p))"
    by (simp add: assms(4) ApplyDefaults_def MemcachedProxySpec_ApplyDefaults_def Let_def)
  moreover have "rs_Type (ApplyDefaultsToCopy ?ns r) \<in> set (reachable_types (ApplyDefaultsToCopy ?ns r))"
    by (cases "ApplyDefaultsToCopy ?ns r") simp
  moreover have "rs_Type (ApplyDefaultsToCopy ?ns r) = []" using assms(3) by (cases r) simp
  ultimately have "[] \<in> set (reachable_types (spec_Rules (mp_Spec q)))"
    using assms(1,2) by auto
  moreover have "\<not> known_type []"
    by (simp add: known_type_def ReplicatedRuleType_def ShardedRuleType_def)
  ultimately show ?thesis by (auto simp: renderable_def list_all_iff)
qed

lemma config_text:
  assumes "permutes_keys (env_range e)" and "permutes_keys (env_range e')" and "configForProxy e cl p = Inr c"
  obtains c' where "configForProxy e' cl p = Inr c'" and "config_json c' = config_json c"
proof -
  have "renderable cl p" using configForProxy_not_renderable [OF assms(1), of cl p] assms(3) by auto
  note pools = configForProxy_renderable [OF assms(1) this] configForProxy_renderable [OF assms(2) this]
  obtain ps where ps: "configForProxy e cl p = Inr \<lparr>mc_Pools = ps, mc_Route = route_of (spec_Rules (mp_Spec p))\<rparr>" "distinct (keys ps)"
    "map_of ps = (\<lambda>n. case map_of (proxy_services p) n of None \<Rightarrow> None
       | Some s \<Rightarrow> (case poolForService cl s of Inl _ \<Rightarrow> None | Inr pool \<Rightarrow> Some pool))" by (rule pools(1))
  obtain ps' where ps': "configForProxy e' cl p = Inr \<lparr>mc_Pools = ps', mc_Route = route_of (spec_Rules (mp_Spec p))\<rparr>" "distinct (keys ps')"
    "map_of ps' = map_of ps" unfolding ps(3) by (rule pools(2))
  have "config_json \<lparr>mc_Pools = ps', mc_Route = route_of (spec_Rules (mp_Spec p))\<rparr> = config_json c"
    by (rule config_json_cong) (use ps ps'(2,3) assms(3) in simp_all)
  with ps'(1) show ?thesis by (rule that)
qed

section \<open>Properties\<close>

text \<open>
  C7. \<open>routeForRule\<close> computes the reference route of a rule tree and enters every service the tree uses into the map under the name of its
  pool, in the order of the rules, leaving the other entries alone. If a rule that is looked at has an unknown type, it
  fails with the first such type, parents before children and children in order.
\<close>

theorem routeForRule_result:
  "case List.find (\<lambda>t. \<not> known_type t) (reachable_types r) of
     Some t \<Rightarrow> fst (routeForRule r services) = Inl (unknown_rule_type t)
   | None \<Rightarrow> routeForRule r services = (Inr (route_of r), fold put_service (used_services r) services)"
  using routeForRule_refines(1) [of r services] routeForRule_unknown(1) [of r _ services]
  by (simp add: first_unknown_type_find split: option.split)

text \<open>
  C11. A configuration is produced exactly when all the rule types that matter are known and every
  service resolves to a pool, whatever order the service map is ranged over.
\<close>

theorem configForProxy_succeeds_iff:
  assumes "permutes_keys (env_range e)"
  shows "(\<exists>config. configForProxy e cl p = Inr config) \<longleftrightarrow> renderable cl p"
proof
  assume "\<exists>config. configForProxy e cl p = Inr config"
  then show "renderable cl p" using configForProxy_not_renderable [OF assms, of cl p] by force
next
  assume "renderable cl p"
  from configForProxy_renderable [OF assms this] show "\<exists>config. configForProxy e cl p = Inr config" by blast
qed

text \<open>
  C6. The configuration is closed: the pools it defines are exactly the pools its route refers to, each
  defined once, so mcrouter never meets an undefined pool. What is in a pool is what \<open>poolForService\<close> makes of a service
  that the rules use and that the pool is named after, the last of them in the order of the rules.
\<close>

theorem configForProxy_pools_closed:
  assumes "permutes_keys (env_range e)" and "configForProxy e cl p = Inr config"
  shows "distinct (keys (mc_Pools config))
    \<and> set (keys (mc_Pools config)) = pool_of_string ` set (sor_strings (mc_Route config))
    \<and> (\<forall>n pool. map_of (mc_Pools config) n = Some pool \<longleftrightarrow>
         (\<exists>ss s. filter (\<lambda>s. poolNameForServiceSpec s = n) (used_services (spec_Rules (mp_Spec p))) = ss @ [s]
            \<and> poolForService cl s = Inr pool))"
proof -
  have ok: "renderable cl p"
    using configForProxy_not_renderable [OF assms(1), of cl p] assms(2) by auto
  from configForProxy_renderable [OF assms(1) ok] obtain pools where
    cfg: "config = \<lparr>mc_Pools = pools, mc_Route = route_of (spec_Rules (mp_Spec p))\<rparr>" and
    pools: "distinct (keys pools)"
      "map_of pools = (\<lambda>n. case map_of (proxy_services p) n of None \<Rightarrow> None
           | Some s \<Rightarrow> (case poolForService cl s of Inl _ \<Rightarrow> None | Inr pool \<Rightarrow> Some pool))"
    using assms(2) by auto
  have resolves: "\<not> isl (poolForService cl s)" if "map_of (proxy_services p) n = Some s" for n s
    using that ok by (fastforce simp: renderable_def list_all_iff)
  have "set (keys pools) = dom (map_of pools)" by (simp add: dom_map_of_conv_image_fst)
  also have "\<dots> = dom (map_of (proxy_services p))"
    unfolding pools(2) using resolves by (auto split: option.splits sum.splits) fastforce
  also have "\<dots> = pool_of_string ` set (sor_strings (route_of (spec_Rules (mp_Spec p))))"
    by (simp add: route_of_pools dom_map_of_conv_image_fst proxy_services_def keys_fold_put_service)
  finally have keys: "set (keys pools) = pool_of_string ` set (sor_strings (route_of (spec_Rules (mp_Spec p))))" .
  have "map_of pools n = Some pool \<longleftrightarrow> (\<exists>s. map_of (proxy_services p) n = Some s \<and> poolForService cl s = Inr pool)" for n pool
    unfolding pools(2) by (cases "map_of (proxy_services p) n") (simp_all split: sum.split)
  then show ?thesis using pools(1) keys by (auto simp: cfg proxy_services_last)
qed

text \<open>
  C10. The text of the configuration does not depend on the iteration order of Go maps, so the config map's
  hashed name is a function of the cluster's state.
\<close>

theorem config_json_deterministic:
  assumes "permutes_keys (env_range e)" and "permutes_keys (env_range e')"
  shows "map_sum (\<lambda>_. ()) config_json (configForProxy e cl p)
    = map_sum (\<lambda>_. ()) config_json (configForProxy e' cl p)"
proof (cases "configForProxy e cl p")
  case (Inr c)
  from config_text [OF assms Inr] show ?thesis by (metis Inr map_sum.simps(2))
next
  case (Inl err)
  then have "\<not> renderable cl p" using configForProxy_renderable [OF assms(1), of cl p] by force
  then show ?thesis using configForProxy_not_renderable [OF assms(2)] Inl by (metis isl_def map_sum.simps(1))
qed

text \<open>
  C9. Two configurations have the same text exactly when they define the same pools with the same servers
  and have the same route. In particular a pod that joins or leaves a cluster changes the text, and
  with it what the config map's name is computed from. Strings are ASCII, as theory \<open>Json\<close> says; the names and addresses that
  the configuration is made of are, by the rules of Kubernetes for them.
\<close>

theorem config_json_faithful:
  assumes "configForProxy e cl p = Inr c" and "configForProxy e' cl' p' = Inr c'"
    and "permutes_keys (env_range e)" and "permutes_keys (env_range e')"
  shows "config_json c = config_json c' \<longleftrightarrow>
    map_of (mc_Pools c) = map_of (mc_Pools c') \<and> mc_Route c = mc_Route c'"
proof -
  have c: "distinct (keys (mc_Pools c))" "sor_wf (mc_Route c)"
    using configForProxy_wf [OF assms(3,1)] by auto
  have c': "distinct (keys (mc_Pools c'))" "sor_wf (mc_Route c')"
    using configForProxy_wf [OF assms(4,2)] by auto
  have "map_of (mc_Pools c) = map_of (mc_Pools c')" and "mc_Route c = mc_Route c'"
    if "config_json c = config_json c'"
    using marshal_config_inj [OF _ c c'] that by (auto simp: config_json_def render_inj)
  then show ?thesis using config_json_cong c(1) c'(1) by blast
qed


text \<open>
  A child rule without a type makes the configuration fail even after defaulting, because defaulting
  leaves the types of child rules alone: the documented default for rule types holds for the root only.
\<close>

theorem nested_rule_without_type_rejected:
  assumes "spec_Rules (mp_Spec p) = RuleSpec t None (Some rules)"
    and "r \<in> set rules" and "rs_Type r = []" and "permutes_keys (env_range e)"
  shows "isl (configForProxy e cl (ApplyDefaults p))"
  by (rule configForProxy_not_renderable [OF assms(4) nested_type_not_renderable [OF assms(1-3)]]) simp

section \<open>Examples\<close>

lemma sharded_proxy_rules: "spec_Rules (mp_Spec sharded_proxy) = RuleSpec ''sharded'' (Some memcached_ref) None"
  by (simp add: sharded_proxy_def ApplyDefaults_def MemcachedProxySpec_ApplyDefaults_def Let_def
      ServiceSpec_ApplyDefaults_def ShardedRuleType_def memcached_ref_def)

lemma sharded_proxy_services: "proxy_services sharded_proxy = [(poolNameForServiceSpec memcached_ref, memcached_ref)]"
  by (simp add: proxy_services_def sharded_proxy_rules put_service_def)

lemma Sprint_11211 [simp]: "Sprint_int32 11211 = ''11211''"
  by (simp add: Sprint_int32_def Itoa_def digits10.simps) code_simp

lemma pool_of_memcached_service:
  assumes "cl_services cl = ix_Add svc_Meta memcached_service new_indexer"
    and "cl_endpoints cl = ix_Add eps_Meta ep new_indexer" and "meta_key (eps_Meta ep) = ''default/sharded-memcached''"
  shows "poolForService cl memcached_ref = Inr \<lparr>pool_Servers = append_slice None
    (concat (map (subset_servers \<lparr>is_Type = 0, is_IntVal = 11211, is_StrVal = []\<rparr>) (elems (eps_Subsets ep))))\<rparr>"
proof -
  have svc: "lister_Get ''service'' (cl_services cl) ''default'' ''sharded-memcached'' = Inr memcached_service"
    unfolding assms(1) by (rule lister_Get_single) (simp add: meta_key_def memcached_service_def)
  have ep: "lister_Get ''endpoints'' (cl_endpoints cl) ''default'' ''sharded-memcached'' = Inr ep"
    unfolding assms(2) by (rule lister_Get_single) (simp add: assms(3))
  have meta: "om_Namespace (svc_Meta memcached_service) = ''default''" "om_Name (svc_Meta memcached_service) = ''sharded-memcached''"
    by (simp_all add: memcached_service_def)
  have port: "find_port \<lparr>is_Type = 0, is_IntVal = 11211, is_StrVal = []\<rparr> (svc_Ports memcached_service)
      = Some (hd (svc_Ports memcached_service))"
    "sp_TargetPort (hd (svc_Ports memcached_service)) = \<lparr>is_Type = 0, is_IntVal = 11211, is_StrVal = []\<rparr>"
    by (simp_all add: find_port_def IntstrInt_def memcached_service_def)
  show ?thesis by (simp add: poolForService_def svc meta port ep memcached_ref_def)
qed

lemma memcached_endpoints_key: "meta_key (eps_Meta memcached_endpoints) = ''default/sharded-memcached''"
  by (simp add: meta_key_def memcached_endpoints_def)

lemma serving_pool:
  "poolForService serving_cluster memcached_ref = Inr \<lparr>pool_Servers = Some [''10.0.0.1:11211'', ''10.0.0.2:11211'']\<rparr>"
  by (subst pool_of_memcached_service [where ep = memcached_endpoints])
    (simp_all add: serving_cluster_def memcached_endpoints_key,
      simp add: memcached_endpoints_def subset_servers_def portMatches_def ProtocolTCP_def IntstrInt_def server_address_def)

lemma idle_pool: "poolForService idle_cluster memcached_ref = Inr \<lparr>pool_Servers = None\<rparr>"
  by (subst pool_of_memcached_service [where ep = "memcached_endpoints\<lparr>eps_Subsets := None\<rparr>"])
    (simp_all add: idle_cluster_def serving_cluster_def memcached_endpoints_key)

lemma renderable_example: "renderable serving_cluster sharded_proxy" "renderable idle_cluster sharded_proxy"
  by (simp_all add: renderable_def sharded_proxy_services sharded_proxy_rules serving_pool idle_pool
      known_type_def ShardedRuleType_def)

lemma config_example:
  obtains config where "configForProxy accepting_env serving_cluster sharded_proxy = Inr config"
    and "map_of (mc_Pools config) (poolNameForServiceSpec memcached_ref)
      = Some \<lparr>pool_Servers = Some [''10.0.0.1:11211'', ''10.0.0.2:11211'']\<rparr>"
  by (rule configForProxy_renderable [OF permutes_keys_accepting(1) renderable_example(1)])
    (erule that, simp add: sharded_proxy_services serving_pool)

lemma config_idle_example:
  obtains config where "configForProxy accepting_env idle_cluster sharded_proxy = Inr config"
    and "map_of (mc_Pools config) (poolNameForServiceSpec memcached_ref) = Some \<lparr>pool_Servers = None\<rparr>"
  by (rule configForProxy_renderable [OF permutes_keys_accepting(1) renderable_example(2)])
    (erule that, simp add: sharded_proxy_services idle_pool)

theorem configForProxy_succeeds_iff_witness:
  "permutes_keys (env_range accepting_env)
   \<and> (\<exists>config. configForProxy accepting_env serving_cluster sharded_proxy = Inr config)"
  using configForProxy_succeeds_iff [OF permutes_keys_accepting(1), of serving_cluster sharded_proxy]
    renderable_example(1) permutes_keys_accepting(1) by simp

theorem configForProxy_pools_closed_witness:
  "\<exists>config. configForProxy accepting_env serving_cluster sharded_proxy = Inr config
    \<and> set (keys (mc_Pools config)) = pool_of_string ` set (sor_strings (mc_Route config))
    \<and> map_of (mc_Pools config) (poolNameForServiceSpec memcached_ref)
        = Some \<lparr>pool_Servers = Some [''10.0.0.1:11211'', ''10.0.0.2:11211'']\<rparr>"
proof -
  obtain config where config: "configForProxy accepting_env serving_cluster sharded_proxy = Inr config"
    by (rule config_example)
  have "used_services (spec_Rules (mp_Spec sharded_proxy)) = [memcached_ref]" by (simp add: sharded_proxy_rules)
  with configForProxy_pools_closed [OF permutes_keys_accepting(1) config] config serving_pool show ?thesis by auto
qed

theorem config_json_deterministic_witness:
  "permutes_keys (env_range accepting_env) \<and> permutes_keys (\<lambda>_. rev)
   \<and> map_sum (\<lambda>_. ()) config_json (configForProxy accepting_env serving_cluster sharded_proxy)
     = map_sum (\<lambda>_. ()) config_json (configForProxy (accepting_env\<lparr>env_range := (\<lambda>_. rev)\<rparr>) serving_cluster sharded_proxy)"
  using config_json_deterministic [OF permutes_keys_accepting(1), of "accepting_env\<lparr>env_range := (\<lambda>_. rev)\<rparr>"]
  by (simp add: permutes_keys_def permutes_order_def accepting_env_def)

theorem config_json_faithful_witness:
  "\<exists>c c'. configForProxy accepting_env serving_cluster sharded_proxy = Inr c
    \<and> configForProxy accepting_env idle_cluster sharded_proxy = Inr c' \<and> config_json c \<noteq> config_json c'"
proof -
  obtain c where c: "configForProxy accepting_env serving_cluster sharded_proxy = Inr c"
    "map_of (mc_Pools c) (poolNameForServiceSpec memcached_ref) = Some \<lparr>pool_Servers = Some [''10.0.0.1:11211'', ''10.0.0.2:11211'']\<rparr>"
    by (rule config_example)
  obtain c' where c': "configForProxy accepting_env idle_cluster sharded_proxy = Inr c'"
    "map_of (mc_Pools c') (poolNameForServiceSpec memcached_ref) = Some \<lparr>pool_Servers = None\<rparr>"
    by (rule config_idle_example)
  have "map_of (mc_Pools c) \<noteq> map_of (mc_Pools c')" using c(2) c'(2) by auto
  with config_json_faithful [OF c(1) c'(1) permutes_keys_accepting(1) permutes_keys_accepting(1)] c(1) c'(1)
  show ?thesis by blast
qed


theorem nested_rule_without_type_rejected_witness:
  "isl (configForProxy accepting_env empty_cluster (ApplyDefaults example_proxy))"
  using nested_rule_without_type_rejected [OF _ _ _ permutes_keys_accepting(1), of example_proxy]
  by (fastforce simp: example_proxy_def)

end
