(* ===== verification/EndpointsHandlers.thy ===== *)
theory EndpointsHandlers
  imports ControllerLoop McRouterConfig
begin

text \<open>
  internal/controller/proxyconfigmap/endpoints.go: which proxies a change of endpoints concerns, and the three
  handlers the config map controller registers with the endpoints informer.

  A proxy's services are collected in a Go map keyed by namespace and name. The proxies are listed from
  the cache, in the namespace the controller watches (all of them when it is empty). The handlers assert the type
  of the object they get; \<open>None\<close> is the panic of a failed assertion.
\<close>

section \<open>Affected proxies\<close>

definition service_key :: "ServiceSpec \<Rightarrow> string" where
  "service_key s = ss_Namespace s @ ''/'' @ ss_Name s"

definition put_all :: "services \<Rightarrow> services \<Rightarrow> services" where
  \<comment> \<open>\<open>for k, spec := range services { result[k] = spec }\<close>\<close>
  "put_all services result = fold (\<lambda>(k, spec). map_put k spec) services result"

fun serviceSpecsForRule :: "RuleSpec \<Rightarrow> services"
  and serviceSpecsForRules :: "RuleSpec list \<Rightarrow> services \<Rightarrow> services"
where
  "serviceSpecsForRule (RuleSpec t s cs) =
     (case s of
        Some svc \<Rightarrow> [(service_key svc, svc)]
      | None \<Rightarrow> serviceSpecsForRules (elems cs) [])"
| "serviceSpecsForRules [] result = result"
| "serviceSpecsForRules (r # rs) result = serviceSpecsForRules rs (put_all (serviceSpecsForRule r) result)"

definition getProxyServiceSpecs :: "env \<Rightarrow> MemcachedProxy \<Rightarrow> ServiceSpec list" where
  "getProxyServiceSpecs e p =
     (let serviceMap = serviceSpecsForRule (spec_Rules (mp_Spec p))
      in List.map_filter (map_of serviceMap) (env_range e (RangeServiceMap (meta_key (mp_Meta p))) (keys serviceMap)))"

fun specs_of_proxies :: "env \<Rightarrow> MemcachedProxy list \<Rightarrow> (string \<times> ServiceSpec list) list \<Rightarrow> (string \<times> ServiceSpec list) list"
where
  \<comment> \<open>\<open>KeyFunc\<close> cannot fail on a proxy, which has metadata\<close>
  "specs_of_proxies e [] result = result"
| "specs_of_proxies e (p # ps) result =
     specs_of_proxies e ps (map_put (meta_key (mp_Meta p)) (getProxyServiceSpecs e p) result)"

definition getAllProxyServiceSpecs ::
  "env \<Rightarrow> string \<Rightarrow> cluster \<Rightarrow> go_error + (string \<times> ServiceSpec list) list" where
  "getAllProxyServiceSpecs e namespace cl =
     (case ListAllByNamespace (env_range e RangeProxies) mp_Meta (cl_proxies cl) namespace Everything of
        Inl err \<Rightarrow> Inl (ErrorString (''failed to get memcached proxies for namespace '' @ Quote namespace))
      | Inr proxies \<Rightarrow> Inr (specs_of_proxies e proxies []))"

definition getAffectedProxies :: "env \<Rightarrow> string \<Rightarrow> cluster \<Rightarrow> Endpoints \<Rightarrow> go_error + string list" where
  \<comment> \<open>the set is the list of its members, each once\<close>
  "getAffectedProxies e namespace cl ep =
     (case getAllProxyServiceSpecs e namespace cl of
        Inl err \<Rightarrow> Inl (ErrorString (''failed to get services for memcached proxies: '' @ ErrorText err))
      | Inr proxyMap \<Rightarrow>
          Inr (filter (\<lambda>key. case map_of proxyMap key of None \<Rightarrow> False
            | Some serviceSpecs \<Rightarrow> list_ex (\<lambda>s. ss_Namespace s = om_Namespace (eps_Meta ep) \<and> ss_Name s = om_Name (eps_Meta ep)) serviceSpecs)
            (keys proxyMap)))"

section \<open>The handlers\<close>

definition add_keys :: "string list \<Rightarrow> item rlq \<Rightarrow> item rlq" where
  "add_keys ks q = fold (\<lambda>key. wq_Add (StringItem key)) ks q"

definition enqueue_affected :: "env \<Rightarrow> string \<Rightarrow> Endpoints \<Rightarrow> ctl \<Rightarrow> ctl" where
  \<comment> \<open>an error is logged\<close>
  "enqueue_affected e namespace ep st =
     (case getAffectedProxies e namespace (ctl_cluster st) ep of
        Inl err \<Rightarrow> st
      | Inr ks \<Rightarrow> on_queue (add_keys (env_range e RangeAffected ks)) st)"

fun addEndpoints :: "env \<Rightarrow> string \<Rightarrow> event_obj \<Rightarrow> ctl \<Rightarrow> ctl option" where
  "addEndpoints e namespace (EndpointsObj ep) st = Some (enqueue_affected e namespace ep st)"
| "addEndpoints e namespace _ st = None"

fun updateEndpoints :: "env \<Rightarrow> string \<Rightarrow> event_obj \<Rightarrow> event_obj \<Rightarrow> ctl \<Rightarrow> ctl option" where
  "updateEndpoints e namespace (EndpointsObj old) (EndpointsObj new) st =
     (if om_ResourceVersion (eps_Meta old) = om_ResourceVersion (eps_Meta new) then Some st
      else if eps_Subsets old \<noteq> eps_Subsets new then addEndpoints e namespace (EndpointsObj new) st
      else Some st)"
| "updateEndpoints e namespace _ _ st = None"

fun deleteEndpoints :: "env \<Rightarrow> string \<Rightarrow> event_obj \<Rightarrow> ctl \<Rightarrow> ctl option" where
  "deleteEndpoints e namespace (EndpointsObj ep) st = addEndpoints e namespace (EndpointsObj ep) st"
| "deleteEndpoints e namespace (DeletedFinalStateUnknown k (EndpointsObj ep)) st = addEndpoints e namespace (EndpointsObj ep) st"
| "deleteEndpoints e namespace (DeletedFinalStateUnknown k _) st = Some st"
| "deleteEndpoints e namespace _ st = Some st"

definition reads_endpoints :: "MemcachedProxy \<Rightarrow> string \<Rightarrow> string \<Rightarrow> bool" where
  \<comment> \<open>rendering the proxy's configuration looks at the service of this namespace and name\<close>
  "reads_endpoints p ns name \<longleftrightarrow>
     list_ex (\<lambda>s. ss_Namespace s = ns \<and> ss_Name s = name) (used_services (spec_Rules (mp_Spec p)))"

section \<open>Lemmas\<close>

lemma service_key_inj:
  assumes "service_key s = service_key s'" and "CHR ''/'' \<notin> set (ss_Namespace s)" and "CHR ''/'' \<notin> set (ss_Namespace s')"
  shows "ss_Namespace s = ss_Namespace s' \<and> ss_Name s = ss_Name s'"
  using assms by (auto simp: service_key_def append_sep_eq)

lemma put_all_simps [simp]:
  "put_all [] result = result" "put_all ((k, spec) # m) result = put_all m (map_put k spec result)"
  by (simp_all add: put_all_def)

lemma put_all_set: "set (put_all m result) \<subseteq> set m \<union> set result"
proof (induction m arbitrary: result)
  case (Cons kv m)
  obtain k v where kv: "kv = (k, v)" by fastforce
  show ?case using Cons [of "map_put k v result"] map_put_set [of k v result] by (auto simp: kv)
qed simp

lemma put_all_keys: "fst ` set (put_all m result) = fst ` set m \<union> fst ` set result"
proof (induction m arbitrary: result)
  case (Cons kv m)
  then show ?case by (cases kv) simp
qed simp

lemma put_all_distinct: "distinct (keys result) \<Longrightarrow> distinct (keys (put_all m result))"
proof (induction m arbitrary: result)
  case (Cons kv m)
  then show ?case by (cases kv) simp
qed simp

lemma serviceSpecs_sound:
  shows "set (serviceSpecsForRule r) \<subseteq> {(service_key s, s) | s. s \<in> set (used_services r)}"
    and "set (serviceSpecsForRules rs result) \<subseteq>
      {(service_key s, s) | s. s \<in> set (concat (map used_services rs))} \<union> set result"
proof (induction r and rs result rule: serviceSpecsForRule_serviceSpecsForRules.induct)
  case (1 t s cs)
  then show ?case by (cases s) auto
next
  case (3 r rs result)
  then show ?case using put_all_set [of "serviceSpecsForRule r" result] by fastforce
qed simp

lemma serviceSpecs_complete:
  shows "fst ` set (serviceSpecsForRule r) = service_key ` set (used_services r)"
    and "fst ` set (serviceSpecsForRules rs result) = service_key ` set (concat (map used_services rs)) \<union> fst ` set result"
proof (induction r and rs result rule: serviceSpecsForRule_serviceSpecsForRules.induct)
  case (1 t s cs)
  then show ?case by (cases s) auto
next
  case (3 r rs result)
  then show ?case by (auto simp: put_all_keys image_Un)
qed simp

lemma serviceSpecs_distinct:
  shows "distinct (keys (serviceSpecsForRule r))"
    and "distinct (keys result) \<Longrightarrow> distinct (keys (serviceSpecsForRules rs result))"
proof (induction r and rs result rule: serviceSpecsForRule_serviceSpecsForRules.induct)
  case (1 t s cs)
  then show ?case by (cases s) auto
next
  case (3 r rs result)
  then show ?case by (simp add: put_all_distinct)
qed simp

lemma getProxyServiceSpecs_set:
  assumes "permutes_keys (env_range e)"
  shows "set (getProxyServiceSpecs e p) = snd ` set (serviceSpecsForRule (spec_Rules (mp_Spec p)))"
proof -
  let ?m = "serviceSpecsForRule (spec_Rules (mp_Spec p))"
  have "set (env_range e site (keys ?m)) = set (keys ?m)" for site by (rule permutes_keys_set [OF assms])
  moreover have "map_of ?m k = Some v \<longleftrightarrow> (k, v) \<in> set ?m" for k v
    using serviceSpecs_distinct(1) by simp
  ultimately show ?thesis
    by (force simp: getProxyServiceSpecs_def Let_def List.map_filter_def)
qed

lemma affected_iff_reads:
  assumes "permutes_keys (env_range e)"
    and "\<forall>s \<in> set (used_services (spec_Rules (mp_Spec p))). CHR ''/'' \<notin> set (ss_Namespace s)"
  shows "list_ex (\<lambda>s. ss_Namespace s = ns \<and> ss_Name s = name) (getProxyServiceSpecs e p) \<longleftrightarrow> reads_endpoints p ns name"
proof
  let ?r = "spec_Rules (mp_Spec p)"
  assume "reads_endpoints p ns name"
  then obtain s where s: "s \<in> set (used_services ?r)" "ss_Namespace s = ns" "ss_Name s = name"
    by (auto simp: reads_endpoints_def list_ex_iff)
  then have "service_key s \<in> fst ` set (serviceSpecsForRule ?r)" by (simp add: serviceSpecs_complete(1))
  then obtain s' where s': "(service_key s, s') \<in> set (serviceSpecsForRule ?r)" by auto
  then have "service_key s' = service_key s" "s' \<in> set (used_services ?r)"
    using serviceSpecs_sound(1) [of ?r] by auto
  then have "ss_Namespace s' = ns \<and> ss_Name s' = name"
    using service_key_inj [of s' s] assms(2) s by auto
  moreover have "s' \<in> set (getProxyServiceSpecs e p)"
    using s' by (force simp: getProxyServiceSpecs_set [OF assms(1)])
  ultimately show "list_ex (\<lambda>s. ss_Namespace s = ns \<and> ss_Name s = name) (getProxyServiceSpecs e p)"
    by (auto simp: list_ex_iff)
next
  assume "list_ex (\<lambda>s. ss_Namespace s = ns \<and> ss_Name s = name) (getProxyServiceSpecs e p)"
  then show "reads_endpoints p ns name"
    using serviceSpecs_sound(1) [of "spec_Rules (mp_Spec p)"]
    by (force simp: reads_endpoints_def list_ex_iff getProxyServiceSpecs_set [OF assms(1)])
qed

lemma map_of_specs_of_proxies:
  "map_of (specs_of_proxies e ps result) key =
     (case filter (\<lambda>p. meta_key (mp_Meta p) = key) ps of
        [] \<Rightarrow> map_of result key | q # qs \<Rightarrow> Some (getProxyServiceSpecs e (last (q # qs))))"
  by (induction ps arbitrary: result) (auto split: list.splits)

lemma keys_specs_of_proxies:
  "fst ` set (specs_of_proxies e ps result) = (\<lambda>p. meta_key (mp_Meta p)) ` set ps \<union> fst ` set result"
  by (induction ps arbitrary: result) auto

lemma fold_add_keys:
  "\<not> q_shuttingDown q \<Longrightarrow> q_dirty (add_keys ks q) = q_dirty q \<union> StringItem ` set ks"
  unfolding add_keys_def by (induction ks arbitrary: q) auto

lemma getAffectedProxies_set:
  assumes "cluster_inv cl" and "permutes_keys (env_range e)"
    and "\<forall>p \<in> objects (cl_proxies cl). \<forall>s \<in> set (used_services (spec_Rules (mp_Spec p))). CHR ''/'' \<notin> set (ss_Namespace s)"
  obtains ks where "getAffectedProxies e namespace cl ep = Inr ks"
    and "set ks = {meta_key (mp_Meta p) | p. p \<in> objects (cl_proxies cl) \<and> (namespace = [] \<or> om_Namespace (mp_Meta p) = namespace)
       \<and> reads_endpoints p (om_Namespace (eps_Meta ep)) (om_Name (eps_Meta ep))}"
proof -
  have inv: "ix_inv mp_Meta (cl_proxies cl)" using assms(1) by (simp add: cluster_inv_def)
  obtain ps where ps: "ListAllByNamespace (env_range e RangeProxies) mp_Meta (cl_proxies cl) namespace Everything = Inr ps"
    "set ps = {x \<in> objects (cl_proxies cl). namespace = [] \<or> om_Namespace (mp_Meta x) = namespace}"
    by (rule list_proxies [OF assms(1,2)])
  define m where "m = specs_of_proxies e ps []"
  have m: "map_of m (meta_key (mp_Meta p)) = Some (getProxyServiceSpecs e p)" if "p \<in> set ps" for p
  proof -
    have "\<forall>q \<in> set (filter (\<lambda>q. meta_key (mp_Meta q) = meta_key (mp_Meta p)) ps). q = p"
      using ix_inv_unique [OF inv] that ps(2) by auto
    moreover have "p \<in> set (filter (\<lambda>q. meta_key (mp_Meta q) = meta_key (mp_Meta p)) ps)" using that by simp
    ultimately show ?thesis
      unfolding m_def map_of_specs_of_proxies
      by (cases "filter (\<lambda>q. meta_key (mp_Meta q) = meta_key (mp_Meta p)) ps") (auto dest: last_in_set)
  qed
  have keys: "set (keys m) = (\<lambda>p. meta_key (mp_Meta p)) ` set ps" by (simp add: m_def keys_specs_of_proxies)
  let ?hit = "\<lambda>key. case map_of m key of None \<Rightarrow> False
    | Some specs \<Rightarrow> list_ex (\<lambda>s. ss_Namespace s = om_Namespace (eps_Meta ep) \<and> ss_Name s = om_Name (eps_Meta ep)) specs"
  have hit: "?hit (meta_key (mp_Meta p)) \<longleftrightarrow> reads_endpoints p (om_Namespace (eps_Meta ep)) (om_Name (eps_Meta ep))"
    if "p \<in> set ps" for p
  proof -
    have "\<forall>s \<in> set (used_services (spec_Rules (mp_Spec p))). CHR ''/'' \<notin> set (ss_Namespace s)"
      using that assms(3) ps(2) by auto
    from affected_iff_reads [OF assms(2) this] show ?thesis using m [OF that] by simp
  qed
  show ?thesis
  proof (rule that)
    show "getAffectedProxies e namespace cl ep = Inr (filter ?hit (keys m))"
      by (simp add: getAffectedProxies_def getAllProxyServiceSpecs_def ps(1) m_def)
    show "set (filter ?hit (keys m)) = {meta_key (mp_Meta p) | p. p \<in> objects (cl_proxies cl)
       \<and> (namespace = [] \<or> om_Namespace (mp_Meta p) = namespace)
       \<and> reads_endpoints p (om_Namespace (eps_Meta ep)) (om_Name (eps_Meta ep))}"
      unfolding set_filter keys using hit ps(2) by blast
  qed
qed

lemma deleteEndpoints_total: "deleteEndpoints e namespace obj st \<noteq> None"
  by (induction e namespace obj st rule: deleteEndpoints.induct) simp_all

section \<open>Properties\<close>

text \<open>
  C28. A change of endpoints reaches exactly the proxies it matters to: the handler marks the keys of the cached
  proxies of the watched namespace whose configuration reads the service of that name, and no other.
\<close>

theorem addEndpoints_enqueues_readers:
  assumes "cluster_inv (ctl_cluster st)" and "permutes_keys (env_range e)" and "\<not> q_shuttingDown (ctl_queue st)"
    and "\<forall>p \<in> objects (cl_proxies (ctl_cluster st)). \<forall>s \<in> set (used_services (spec_Rules (mp_Spec p))).
      CHR ''/'' \<notin> set (ss_Namespace s)"
  shows "\<exists>st'. addEndpoints e namespace (EndpointsObj ep) st = Some st' \<and> ctl_cluster st' = ctl_cluster st
    \<and> q_dirty (ctl_queue st') = q_dirty (ctl_queue st) \<union>
      {StringItem (meta_key (mp_Meta p)) | p. p \<in> objects (cl_proxies (ctl_cluster st))
         \<and> (namespace = [] \<or> om_Namespace (mp_Meta p) = namespace)
         \<and> reads_endpoints p (om_Namespace (eps_Meta ep)) (om_Name (eps_Meta ep))}"
proof -
  obtain ks where ks: "getAffectedProxies e namespace (ctl_cluster st) ep = Inr ks"
    "set ks = {meta_key (mp_Meta p) | p. p \<in> objects (cl_proxies (ctl_cluster st)) \<and> (namespace = [] \<or> om_Namespace (mp_Meta p) = namespace)
       \<and> reads_endpoints p (om_Namespace (eps_Meta ep)) (om_Name (eps_Meta ep))}"
    by (rule getAffectedProxies_set [OF assms(1,2,4)])
  have "set (env_range e RangeAffected ks) = set ks" by (rule permutes_keys_set [OF assms(2)])
  then show ?thesis using ks fold_add_keys [OF assms(3), of "env_range e RangeAffected ks"] by (auto simp: enqueue_affected_def)
qed

text \<open>
  Updates are filtered: a resync, which repeats a version, and a new version with the same subsets change
  nothing; a version with other subsets is handled like an addition. A deletion is handled like an addition
  too, also when only a tombstone with the last known endpoints arrives.
\<close>

theorem endpoints_events_filtered:
  "(updateEndpoints e namespace (EndpointsObj old) (EndpointsObj new) st =
      (if om_ResourceVersion (eps_Meta old) \<noteq> om_ResourceVersion (eps_Meta new) \<and> eps_Subsets old \<noteq> eps_Subsets new
       then addEndpoints e namespace (EndpointsObj new) st else Some st))
   \<and> deleteEndpoints e namespace (EndpointsObj ep) st = addEndpoints e namespace (EndpointsObj ep) st
   \<and> deleteEndpoints e namespace (DeletedFinalStateUnknown k (EndpointsObj ep)) st = addEndpoints e namespace (EndpointsObj ep) st
   \<and> deleteEndpoints e namespace obj st \<noteq> None"
  using deleteEndpoints_total [of e namespace obj st] by simp

section \<open>Examples\<close>

lemma cluster_inv_serving: "cluster_inv serving_cluster"
  using cluster_inv_empty by (simp add: cluster_inv_def serving_cluster_def ix_Add_inv ix_inv_empty)

lemma serving_proxies: "objects (cl_proxies serving_cluster) = {sharded_proxy}"
  by (simp add: serving_cluster_def objects_def ix_Add_def Let_def new_indexer_def)

lemma sharded_proxy_meta: "meta_key (mp_Meta sharded_proxy) = ''default/sharded-example''"
  by (simp add: sharded_proxy_def meta_key_def)

theorem addEndpoints_enqueues_readers_witness:
  "\<exists>st'. addEndpoints accepting_env [] (EndpointsObj memcached_endpoints) (start serving_cluster) = Some st'
     \<and> q_dirty (ctl_queue st') = {StringItem ''default/sharded-example''}"
proof -
  have "reads_endpoints sharded_proxy (om_Namespace (eps_Meta memcached_endpoints)) (om_Name (eps_Meta memcached_endpoints))"
    by (simp add: reads_endpoints_def sharded_proxy_rules memcached_ref_def memcached_endpoints_def)
  moreover have "CHR ''/'' \<notin> set (ss_Namespace memcached_ref)" by (simp add: memcached_ref_def)
  ultimately show ?thesis
    using addEndpoints_enqueues_readers [of "start serving_cluster" accepting_env "[]" memcached_endpoints]
      cluster_inv_serving permutes_keys_accepting(1)
    by (auto simp: serving_proxies sharded_proxy_rules sharded_proxy_meta)
qed

end
