(* ===== verification/DeploymentController.thy ===== *)
theory DeploymentController
  imports ControllerLoop
begin

text \<open>
  The deployment controller: internal/controller/proxydeployment. It keeps the deployment of mcrouter pods of a
  proxy: it creates one, points its \<open>config\<close> volume at the proxy's newest config map, and tries to remove surplus
  deployments.

  \<open>updateDeployment\<close> ranges over the volumes by value but assigns through the pointer \<open>v.VolumeSource.ConfigMap\<close>,
  so it changes the cached deployment. It dereferences that pointer without a check, as \<open>deploymentForProxy\<close> does with
  the port; both are the outcome \<open>Panic\<close>. A panic ends the process, so the state it leaves is not described further.

  The two functions that end in \<open>fmt.Errorf(msg)\<close> use the message as a format; as long as it has no percent sign
  the error's text is the message.
\<close>

section \<open>Events\<close>

definition DeploymentCreateReason :: string where "DeploymentCreateReason = ''MemcachedProxyDeploymentCreated''"
definition FailedDeploymentCreateReason :: string where
  "FailedDeploymentCreateReason = ''MemcachedProxyDeploymentCreateError''"
definition DeploymentUpdateReason :: string where "DeploymentUpdateReason = ''MemcachedProxyDeploymentUpdated''"
definition FailedDeploymentUpdateReason :: string where
  "FailedDeploymentUpdateReason = ''MemcachedProxyDeploymentUpdateError''"
definition DeleteDeploymentReason :: string where "DeleteDeploymentReason = ''MemcachedProxyDeploymentDelete''"

definition slashed :: "ObjectMeta \<Rightarrow> string" where
  "slashed m = om_Namespace m @ ''/'' @ om_Name m"

section \<open>The deployment of a proxy\<close>

definition mcrouter_container :: "MemcachedProxy \<Rightarrow> 32 word \<Rightarrow> Container" where
  "mcrouter_container p port =
     (let mc = spec_McRouter (mp_Spec p) in
      \<lparr>ct_Name = ''mcrouter'', ct_Image = mr_Image mc, ct_Command = [''mcrouter''],
       ct_Args = [''-p'', Sprint_int32 port, ''--config-file=/etc/mcrouter/config.json'', ''--asynclog-disable'',
         ''--stats-root='' @ mr_StatsRoot mc],
       ct_Ports = [\<lparr>cp_Name = ''mcrouter'', cp_ContainerPort = port\<rparr>],
       ct_VolumeMounts = [\<lparr>vm_Name = ''config'', vm_MountPath = ''/etc/mcrouter''\<rparr>,
         \<lparr>vm_Name = ''stats'', vm_MountPath = mr_StatsRoot mc\<rparr>],
       ct_SecurityContext = mr_SecurityContext mc, ct_Rest = []\<rparr>)"

definition desired_deployment :: "MemcachedProxy \<Rightarrow> string \<Rightarrow> 32 word \<Rightarrow> Deployment" where
  \<comment> \<open>the literal in \<open>deploymentForProxy\<close>, given the name of the config map and the port\<close>
  "desired_deployment p cmName port =
     \<lparr>d_Meta = zero_meta\<lparr>om_Name := [], om_GenerateName := om_Name (mp_Meta p) @ ''-mcrouter-'',
        om_Namespace := om_Namespace (mp_Meta p), om_OwnerReferences := [NewProxyOwnerRef p]\<rparr>,
      d_Replicas = Some 1,
      d_Selector = Some \<lparr>ls_MatchLabels = GetProxyServiceSelector p, ls_MatchExpressions = []\<rparr>,
      d_Template =
        \<lparr>pt_Meta = zero_meta\<lparr>om_Labels := GetProxyServiceSelector p\<rparr>,
         pt_Containers = [mcrouter_container p port],
         pt_Volumes =
           [\<lparr>v_Name = ''config'', v_ConfigMap = Some \<lparr>cmv_Name = cmName, cmv_Rest = []\<rparr>, v_EmptyDir = False, v_Rest = []\<rparr>,
            \<lparr>v_Name = ''stats'', v_ConfigMap = None, v_EmptyDir = True, v_Rest = []\<rparr>],
         pt_Rest = []\<rparr>,
      d_Rest = []\<rparr>"

definition deploymentForProxy :: "env \<Rightarrow> cluster \<Rightarrow> MemcachedProxy \<Rightarrow> Deployment result" where
  "deploymentForProxy e cl p =
     (case GetConfigMapForProxy e cl p of
        Inl err \<Rightarrow> Err err
      | Inr None \<Rightarrow> Err (ErrorString (''no configmap for '' @ Quote (proxy_key p)))
      | Inr (Some cm) \<Rightarrow>
          (case mr_Port (spec_McRouter (mp_Spec p)) of
             None \<Rightarrow> NilDeref
           | Some port \<Rightarrow> Ok (desired_deployment p (om_Name (cm_Meta cm)) port)))"

section \<open>Operations\<close>

definition createDeployment :: "env \<Rightarrow> MemcachedProxy \<Rightarrow> ctl \<Rightarrow> outcome \<times> ctl" where
  \<comment> \<open>\<open>fmt.Errorf(msg)\<close> takes the message as a format; a message without a percent sign is the error's text\<close>
  "createDeployment e p st =
     (case deploymentForProxy e (ctl_cluster st) p of
        Err err \<Rightarrow> (RetErr err, st)
      | NilDeref \<Rightarrow> (Panic, st)
      | Ok d \<Rightarrow>
          (case api_call e (CreateDeployment (om_Namespace (mp_Meta p)) d) (ctl_cluster st) of
             (Inl err, cl) \<Rightarrow>
               (let msg = ''failed to create deployment for '' @ Quote (proxy_key p) @ '': '' @ ErrorText err
                in (RetErr (ErrorString msg),
                    st\<lparr>ctl_cluster := record_event p EventTypeWarning FailedDeploymentCreateReason msg cl\<rparr>))
           | (Inr result, cl) \<Rightarrow>
               (let msg = ''deployment '' @ Quote (slashed result) @ '' created''
                in (RetNil, st\<lparr>ctl_cluster := record_event p EventTypeNormal DeploymentCreateReason msg cl\<rparr>))))"

fun set_config_volumes :: "string \<Rightarrow> Volume list \<Rightarrow> Volume list option" where
  \<comment> \<open>the loop of \<open>updateDeployment\<close>; \<open>None\<close> when it dereferences nil\<close>
  "set_config_volumes cmName [] = Some []"
| "set_config_volumes cmName (v # vs) =
     (if v_Name v = ''config'' then
        (case v_ConfigMap v of
           None \<Rightarrow> None
         | Some src \<Rightarrow> map_option ((#) (v\<lparr>v_ConfigMap := Some (src\<lparr>cmv_Name := cmName\<rparr>)\<rparr>)) (set_config_volumes cmName vs))
      else map_option ((#) v) (set_config_volumes cmName vs))"

definition with_volumes :: "Volume list \<Rightarrow> Deployment \<Rightarrow> Deployment" where
  "with_volumes vs d = d\<lparr>d_Template := (d_Template d)\<lparr>pt_Volumes := vs\<rparr>\<rparr>"

definition updateDeployment :: "env \<Rightarrow> MemcachedProxy \<Rightarrow> Deployment \<Rightarrow> ctl \<Rightarrow> outcome \<times> ctl" where
  "updateDeployment e p d st =
     (case GetConfigMapForProxy e (ctl_cluster st) p of
        Inl err \<Rightarrow> (RetErr err, st)
      | Inr None \<Rightarrow> (RetNil, st)
      | Inr (Some cm) \<Rightarrow>
          (case set_config_volumes (om_Name (cm_Meta cm)) (pt_Volumes (d_Template d)) of
             None \<Rightarrow> (Panic, st)
           | Some vs \<Rightarrow>
               (let d' = with_volumes vs d;
                    cl0 = (ctl_cluster st)\<lparr>cl_deployments :=
                      ix_mutate (meta_key (d_Meta d)) (with_volumes vs) (cl_deployments (ctl_cluster st))\<rparr>
                in case api_call e (UpdateDeployment (om_Namespace (d_Meta d)) d') cl0 of
                     (Inl err, cl) \<Rightarrow>
                       (let msg = ''failed to update deployment for '' @ Quote (proxy_key p) @ '': '' @ ErrorText err
                        in (RetErr (ErrorString msg),
                            st\<lparr>ctl_cluster := record_event p EventTypeWarning FailedDeploymentUpdateReason msg cl\<rparr>))
                   | (Inr result, cl) \<Rightarrow>
                       (let msg = ''deployment '' @ Quote (slashed result) @ '' updated''
                        in (RetNil, st\<lparr>ctl_cluster := record_event p EventTypeNormal DeploymentUpdateReason msg cl\<rparr>)))))"

fun deleteDeployments :: "env \<Rightarrow> MemcachedProxy \<Rightarrow> Deployment list \<Rightarrow> cluster \<Rightarrow> outcome \<times> cluster" where
  "deleteDeployments e p [] cl = (RetNil, cl)"
| "deleteDeployments e p (d # ds) cl =
     (case api_call e (DeleteDeployment (om_Namespace (d_Meta d)) (om_Name (d_Meta d))) cl of
        (Inl err, cl1) \<Rightarrow> (RetErr err, cl1)
      | (Inr _, cl1) \<Rightarrow>
          (let msg = ''deleted deployment '' @ Quote (slashed (d_Meta d))
           in deleteDeployments e p ds (record_event p EventTypeWarning DeleteDeploymentReason msg cl1)))"

definition deployment_sync :: "env \<Rightarrow> string \<Rightarrow> ctl \<Rightarrow> string \<Rightarrow> MemcachedProxy \<Rightarrow> outcome \<times> ctl" where
  \<comment> \<open>\<open>syncHandler\<close> from the lookup of the deployments on\<close>
  "deployment_sync e key st ns p =
     (case GetDeploymentsForProxy e (ctl_cluster st) p of
        (_, _, Some err) \<Rightarrow>
          (RetErr (ErrorString (''failed to get deployments for '' @ Quote key @ '': '' @ ErrorText err)), st)
      | (found, dList, None) \<Rightarrow>
          (case (case found of None \<Rightarrow> createDeployment e p st | Some d \<Rightarrow> updateDeployment e p d st) of
             (RetErr err, st1) \<Rightarrow> (RetErr err, st1)
           | (Panic, st1) \<Rightarrow> (Panic, st1)
           | (RetNil, st1) \<Rightarrow>
               (if length dList > 0 then
                  (case deleteDeployments e p (drop 1 dList) (ctl_cluster st1) of
                     (RetErr err, cl) \<Rightarrow> (RetErr err, st1\<lparr>ctl_cluster := cl\<rparr>)
                   | (_, cl) \<Rightarrow>
                       (RetErr (ErrorString (''Found multiple deployments for '' @ Quote key @ ''. Requeueing...'')),
                        st1\<lparr>ctl_cluster := cl\<rparr>))
                else (RetNil, st1))))"

definition deployment_syncHandler :: "env \<Rightarrow> handler" where
  "deployment_syncHandler e key st = with_observed_proxy key st (deployment_sync e key st)"

definition deployment_enqueue :: "event_obj \<Rightarrow> item rlq \<Rightarrow> item rlq" where
  "deployment_enqueue = enqueue"

definition deployment_enqueueOwned :: "event_obj \<Rightarrow> item rlq \<Rightarrow> item rlq" where
  "deployment_enqueueOwned = enqueueOwned"

definition deployment_processWorkItem :: "env \<Rightarrow> item \<Rightarrow> ctl \<Rightarrow> outcome \<times> ctl" where
  "deployment_processWorkItem e = processWorkItem (deployment_syncHandler e)"

definition deployment_worker :: "env \<Rightarrow> nat \<Rightarrow> ctl \<Rightarrow> worker_status \<times> ctl" where
  "deployment_worker e = worker (deployment_syncHandler e)"

definition deployment_Run :: "int \<Rightarrow> nat list \<times> (ctl \<Rightarrow> ctl)" where
  "deployment_Run = Run"

definition deployment_New :: "string \<Rightarrow> int \<Rightarrow> controller" where
  "deployment_New name workers =
     (let owned = dispatch deployment_enqueueOwned
            (\<lambda>old new q. deployment_enqueueOwned new (deployment_enqueueOwned old q)) deployment_enqueueOwned in
      \<lparr>c_name = name, c_workers = workers, c_Run = deployment_Run,
       c_handlers = (\<lambda>e inf ev.
         case inf of
           ProxyInformer \<Rightarrow> Some \<circ> on_queue (dispatch deployment_enqueue (\<lambda>old new. deployment_enqueue new) deployment_enqueue ev)
         | ConfigMapInformer \<Rightarrow> Some \<circ> on_queue (owned ev)
         | DeploymentInformer \<Rightarrow> Some \<circ> on_queue (owned ev)
         | _ \<Rightarrow> Some),
       c_syncHandler = deployment_syncHandler\<rparr>)"

declare deployment_Run_def [registration_defs] deployment_enqueue_def [registration_defs] deployment_enqueueOwned_def [registration_defs]
  deployment_New_def [registration_defs]

definition point_at :: "string \<Rightarrow> Volume \<Rightarrow> Volume" where
  \<comment> \<open>what the update does to a volume: a \<open>config\<close> volume refers to the given config map, others stay\<close>
  "point_at cmName v =
     (if v_Name v = ''config'' then v\<lparr>v_ConfigMap := map_option (cmv_Name_update (\<lambda>_. cmName)) (v_ConfigMap v)\<rparr> else v)"

definition config_volumes_ok :: "Deployment \<Rightarrow> bool" where
  "config_volumes_ok d = list_all (\<lambda>v. v_Name v = ''config'' \<longrightarrow> v_ConfigMap v \<noteq> None) (pt_Volumes (d_Template d))"

text \<open>The first half of a sync; \<open>deployment_sync_eq\<close> splits a sync into it and the removal of surplus deployments.\<close>

definition ensure_deployment :: "env \<Rightarrow> ctl \<Rightarrow> MemcachedProxy \<Rightarrow> Deployment option \<Rightarrow> outcome \<times> ctl" where
  "ensure_deployment e st p found = (case found of None \<Rightarrow> createDeployment e p st | Some d \<Rightarrow> updateDeployment e p d st)"

definition configured_cluster :: cluster where
  \<comment> \<open>the observed proxy with one config map of its own\<close>
  "configured_cluster = observed_cluster\<lparr>cl_configmaps := ix_Add cm_Meta example_configmap new_indexer\<rparr>"

definition old_deployment :: "string \<Rightarrow> int \<Rightarrow> Deployment" where
  "old_deployment name created =
     (desired_deployment observed_proxy ''old'' 11211)\<lparr>d_Meta := zero_meta\<lparr>om_Name := name, om_Namespace := ''default'',
        om_CreationTimestamp := created, om_OwnerReferences := [NewProxyOwnerRef observed_proxy]\<rparr>\<rparr>"

definition deployed_cluster :: cluster where
  "deployed_cluster = configured_cluster\<lparr>cl_deployments := ix_Add d_Meta (old_deployment ''a'' 1) new_indexer\<rparr>"

definition surplus_cluster :: cluster where
  "surplus_cluster = configured_cluster\<lparr>cl_deployments :=
     ix_Add d_Meta (old_deployment ''b'' 2) (ix_Add d_Meta (old_deployment ''a'' 1) new_indexer)\<rparr>"

section \<open>Lemmas\<close>

lemma with_volumes_simps [simp]:
  "d_Meta (with_volumes vs d) = d_Meta d" "pt_Volumes (d_Template (with_volumes vs d)) = vs"
  by (simp_all add: with_volumes_def)

lemma set_config_volumes_eq:
  "set_config_volumes cmName vs =
     (if list_all (\<lambda>v. v_Name v = ''config'' \<longrightarrow> v_ConfigMap v \<noteq> None) vs then Some (map (point_at cmName) vs) else None)"
  by (induction vs) (auto simp: point_at_def split: option.split)

lemma deleteDeployments_log:
  "\<exists>n. cl_actions (snd (deleteDeployments e p ds cl)) = cl_actions cl
     @ map (\<lambda>d. DeleteDeployment (om_Namespace (d_Meta d)) (om_Name (d_Meta d))) (take n ds)"
proof (induction ds arbitrary: cl)
  case (Cons d ds)
  show ?case
  proof (cases "env_api e (cl_actions cl) (DeleteDeployment (om_Namespace (d_Meta d)) (om_Name (d_Meta d)))")
    case (Inl err)
    then show ?thesis by (intro exI [of _ 1]) (simp add: api_call_def)
  next
    case (Inr r)
    let ?cl = "record_event p EventTypeWarning DeleteDeploymentReason (''deleted deployment '' @ Quote (slashed (d_Meta d)))
      (snd (api_call e (DeleteDeployment (om_Namespace (d_Meta d)) (om_Name (d_Meta d))) cl))"
    obtain n where "cl_actions (snd (deleteDeployments e p ds ?cl)) = cl_actions ?cl
        @ map (\<lambda>d. DeleteDeployment (om_Namespace (d_Meta d)) (om_Name (d_Meta d))) (take n ds)"
      using Cons.IH by blast
    then show ?thesis using Inr by (intro exI [of _ "Suc n"]) (simp add: api_call_def)
  qed
qed simp

lemma deleteDeployments_accepted:
  assumes "\<And>as a. \<not> isl (env_api e as a)"
  shows "fst (deleteDeployments e p ds cl) = RetNil \<and> cl_actions (snd (deleteDeployments e p ds cl)) = cl_actions cl
     @ map (\<lambda>d. DeleteDeployment (om_Namespace (d_Meta d)) (om_Name (d_Meta d))) ds"
proof (induction ds arbitrary: cl)
  case (Cons d ds)
  obtain r where "env_api e (cl_actions cl) (DeleteDeployment (om_Namespace (d_Meta d)) (om_Name (d_Meta d))) = Inr r"
    using assms by (metis isl_def sum.exhaust)
  then show ?case using Cons by (simp add: api_call_def)
qed simp

lemma deleteDeployments_caches [simp]: "same_caches cl (snd (deleteDeployments e p ds cl))"
proof (induction ds arbitrary: cl)
  case (Cons d ds)
  then show ?case by (auto simp: api_call_def same_caches_def split: sum.split)
qed (simp add: same_caches_def)

lemma deleteDeployments_no_panic: "fst (deleteDeployments e p ds cl) \<noteq> Panic"
  by (induction ds arbitrary: cl) (auto simp: api_call_def split: sum.split)

lemma create_update_queue [simp]:
  "ctl_queue (snd (createDeployment e p st)) = ctl_queue st"
  "ctl_queue (snd (updateDeployment e p d st)) = ctl_queue st"
  by (auto simp: createDeployment_def updateDeployment_def api_call_def Let_def
      split: result.split sum.split option.split)

lemma create_update_log:
  "\<exists>calls. cl_actions (ctl_cluster (snd (createDeployment e p st))) = cl_actions (ctl_cluster st) @ calls"
  "\<exists>calls. cl_actions (ctl_cluster (snd (updateDeployment e p d st))) = cl_actions (ctl_cluster st) @ calls"
  by (auto simp: createDeployment_def updateDeployment_def api_call_def Let_def
      split: result.split sum.split option.split)

lemma create_update_caches:
  assumes "cluster_inv (ctl_cluster st)"
  shows "cluster_inv (ctl_cluster (snd (createDeployment e p st)))"
    "cluster_inv (ctl_cluster (snd (updateDeployment e p d st)))"
proof -
  have "ix_inv d_Meta (ix_mutate k (with_volumes vs) (cl_deployments (ctl_cluster st)))" for k vs
    using assms by (intro ix_mutate_inv) (auto simp: cluster_inv_def)
  then show "cluster_inv (ctl_cluster (snd (createDeployment e p st)))"
    "cluster_inv (ctl_cluster (snd (updateDeployment e p d st)))"
    using assms
    by (auto simp: createDeployment_def updateDeployment_def api_call_def Let_def cluster_inv_def
        split: result.split sum.split option.split)
qed

lemma deployment_sync_eq:
  assumes "GetDeploymentsForProxy e (ctl_cluster st) p = (found, dList, None)"
  shows "deployment_sync e key st ns p =
    (case ensure_deployment e st p found of
       (RetNil, st1) \<Rightarrow>
         (if dList = [] then (RetNil, st1)
          else (case deleteDeployments e p (drop 1 dList) (ctl_cluster st1) of
                  (RetErr err, cl) \<Rightarrow> (RetErr err, st1\<lparr>ctl_cluster := cl\<rparr>)
                | (_, cl) \<Rightarrow>
                    (RetErr (ErrorString (''Found multiple deployments for '' @ Quote key @ ''. Requeueing...'')),
                     st1\<lparr>ctl_cluster := cl\<rparr>)))
     | (res, st1) \<Rightarrow> (res, st1))"
  using assms by (simp add: deployment_sync_def ensure_deployment_def split: prod.split outcome.split)

lemma ensure_deployment_keeps:
  "ctl_queue (snd (ensure_deployment e st p found)) = ctl_queue st"
  "\<exists>calls. cl_actions (ctl_cluster (snd (ensure_deployment e st p found))) = cl_actions (ctl_cluster st) @ calls"
  "cluster_inv (ctl_cluster st) \<Longrightarrow> cluster_inv (ctl_cluster (snd (ensure_deployment e st p found)))"
  using create_update_log create_update_caches
  by (auto simp: ensure_deployment_def split: option.split)

lemma deployment_sync_keeps:
  "ctl_queue (snd (deployment_sync e key st ns p)) = ctl_queue st"
  "\<exists>calls. cl_actions (ctl_cluster (snd (deployment_sync e key st ns p))) = cl_actions (ctl_cluster st) @ calls"
  "cluster_inv (ctl_cluster st) \<Longrightarrow> cluster_inv (ctl_cluster (snd (deployment_sync e key st ns p)))"
proof -
  obtain found dList where g: "GetDeploymentsForProxy e (ctl_cluster st) p = (found, dList, None)"
    using GetDeploymentsForProxy_no_error [of e "ctl_cluster st" p] by (metis prod.collapse)
  obtain res st1 where r: "ensure_deployment e st p found = (res, st1)" by fastforce
  obtain res2 cl2 where d: "deleteDeployments e p (drop (Suc 0) dList) (ctl_cluster st1) = (res2, cl2)" by fastforce
  have st1: "ctl_queue st1 = ctl_queue st" "\<exists>calls. cl_actions (ctl_cluster st1) = cl_actions (ctl_cluster st) @ calls"
    "cluster_inv (ctl_cluster st) \<Longrightarrow> cluster_inv (ctl_cluster st1)"
    using ensure_deployment_keeps [where e = e and st = st and p = p and found = found] by (simp_all add: r)
  have cl2: "\<exists>calls. cl_actions cl2 = cl_actions (ctl_cluster st1) @ calls" "cluster_inv cl2 = cluster_inv (ctl_cluster st1)"
    using deleteDeployments_log [of e p "drop (Suc 0) dList" "ctl_cluster st1"]
      cluster_inv_same_caches [OF deleteDeployments_caches [of "ctl_cluster st1" e p "drop (Suc 0) dList"]] by (auto simp: d)
  show "ctl_queue (snd (deployment_sync e key st ns p)) = ctl_queue st"
    "\<exists>calls. cl_actions (ctl_cluster (snd (deployment_sync e key st ns p))) = cl_actions (ctl_cluster st) @ calls"
    "cluster_inv (ctl_cluster st) \<Longrightarrow> cluster_inv (ctl_cluster (snd (deployment_sync e key st ns p)))"
    using st1 cl2 by (auto simp: deployment_sync_eq [OF g] r d split: outcome.split)
qed

interpretation deployment_loop: sync_handler "deployment_syncHandler e" for e
proof
  fix key st
  show "requeued (StringItem key) (ctl_queue st) (ctl_queue (snd (deployment_syncHandler e key st)))"
    unfolding deployment_syncHandler_def
    by (rule with_observed_proxy_cases) (simp_all add: requeued_def deployment_sync_keeps)
  show "\<exists>calls. cl_actions (ctl_cluster (snd (deployment_syncHandler e key st))) = cl_actions (ctl_cluster st) @ calls"
    unfolding deployment_syncHandler_def
    by (rule with_observed_proxy_cases) (simp_all add: deployment_sync_keeps)
  show "cluster_inv (ctl_cluster st) \<Longrightarrow> cluster_inv (ctl_cluster (snd (deployment_syncHandler e key st)))"
    unfolding deployment_syncHandler_def
    by (rule with_observed_proxy_cases) (simp_all add: deployment_sync_keeps)
qed

lemma deployment_sync_fresh:
  assumes "GetDeploymentsForProxy e (ctl_cluster st) p = (None, [], None)"
    and "GetConfigMapForProxy e (ctl_cluster st) p = Inr (Some cm)" and "mr_Port (spec_McRouter (mp_Spec p)) = Some port"
  shows "let d = desired_deployment p (om_Name (cm_Meta cm)) port; a = CreateDeployment (om_Namespace (mp_Meta p)) d;
      r = deployment_sync e key st ns p in
    cl_actions (ctl_cluster (snd r)) = cl_actions (ctl_cluster st) @ [a]
    \<and> (fst r = RetNil \<longleftrightarrow> \<not> isl (env_api e (cl_actions (ctl_cluster st)) a))"
  using assms
  by (auto simp: deployment_sync_eq ensure_deployment_def createDeployment_def deploymentForProxy_def api_call_def Let_def
      split: sum.split)

lemma desired_deployment_shape:
  "IsControlledBy (d_Meta (desired_deployment p n port)) (mp_Meta p)"
  "d_Selector (desired_deployment p n port) = Some \<lparr>ls_MatchLabels = GetProxyServiceSelector p, ls_MatchExpressions = []\<rparr>"
  "om_Labels (pt_Meta (d_Template (desired_deployment p n port))) = GetProxyServiceSelector p"
  "config_volumes_ok (desired_deployment p n port)"
  by (rule IsControlledBy_NewProxyOwnerRef) (simp_all add: desired_deployment_def config_volumes_ok_def)

lemma updateDeployment_accepted:
  assumes "GetConfigMapForProxy e (ctl_cluster st) p = Inr (Some cm)" and "config_volumes_ok d"
    and "\<And>as a. \<not> isl (env_api e as a)"
  obtains st1 where "updateDeployment e p d st = (RetNil, st1)"
proof -
  let ?vs = "map (point_at (om_Name (cm_Meta cm))) (pt_Volumes (d_Template d))"
  obtain r where "env_api e (cl_actions (ctl_cluster st)) (UpdateDeployment (om_Namespace (d_Meta d)) (with_volumes ?vs d)) = Inr r"
    using assms(3) by (metis isl_def sum.exhaust)
  then show ?thesis
    using assms(1,2) that
    by (simp add: updateDeployment_def set_config_volumes_eq config_volumes_ok_def api_call_def Let_def)
qed

section \<open>Properties\<close>

text \<open>
  C18. For an observed proxy without a deployment and with exactly one config map, a sync creates one
  deployment: controlled by the proxy, selecting and labelling its pods with the proxy's labels, mounting the
  config map where mcrouter is told to look for it, and opening the proxy's port.
\<close>

theorem deployment_sync_creates:
  assumes "SplitMetaNamespaceKey key = Inr (ns, name)" and "get_proxy (ctl_cluster st) ns name = Inr p"
    and "om_Generation (mp_Meta p) = st_ObservedGeneration (mp_Status p)"
    and "cluster_inv (ctl_cluster st)" and "permutes_keys (env_range e)"
    and "owned_deployments (ctl_cluster st) p = {}" and "owned_configmaps (ctl_cluster st) p = {cm}"
    and "mr_Port (spec_McRouter (mp_Spec p)) = Some port"
  shows "\<exists>d. cl_actions (ctl_cluster (snd (deployment_syncHandler e key st)))
      = cl_actions (ctl_cluster st) @ [CreateDeployment (om_Namespace (mp_Meta p)) d]
    \<and> IsControlledBy (d_Meta d) (mp_Meta p)
    \<and> d_Selector d = Some \<lparr>ls_MatchLabels = GetProxyServiceSelector p, ls_MatchExpressions = []\<rparr>
    \<and> om_Labels (pt_Meta (d_Template d)) = GetProxyServiceSelector p
    \<and> (\<exists>ct vol src. pt_Containers (d_Template d) = [ct] \<and> map cp_ContainerPort (ct_Ports ct) = [port]
        \<and> \<lparr>vm_Name = v_Name vol, vm_MountPath = ''/etc/mcrouter''\<rparr> \<in> set (ct_VolumeMounts ct)
        \<and> vol \<in> set (pt_Volumes (d_Template d)) \<and> v_ConfigMap vol = Some src \<and> cmv_Name src = om_Name (cm_Meta cm))"
proof -
  have none: "GetDeploymentsForProxy e (ctl_cluster st) p = (None, [], None)"
    by (rule GetDeploymentsForProxy_none [OF assms(4-6)])
  have cm: "GetConfigMapForProxy e (ctl_cluster st) p = Inr (Some cm)"
    by (rule GetConfigMapForProxy_one [OF assms(4,5,7)])
  have "\<exists>ct vol src. pt_Containers (d_Template d) = [ct] \<and> map cp_ContainerPort (ct_Ports ct) = [port]
        \<and> \<lparr>vm_Name = v_Name vol, vm_MountPath = ''/etc/mcrouter''\<rparr> \<in> set (ct_VolumeMounts ct)
        \<and> vol \<in> set (pt_Volumes (d_Template d)) \<and> v_ConfigMap vol = Some src \<and> cmv_Name src = om_Name (cm_Meta cm)"
    if "d = desired_deployment p (om_Name (cm_Meta cm)) port" for d
    by (intro exI [of _ "mcrouter_container p port"] exI [of _ "hd (pt_Volumes (d_Template d))"]
        exI [of _ "\<lparr>cmv_Name = om_Name (cm_Meta cm), cmv_Rest = []\<rparr>"])
      (simp add: that desired_deployment_def mcrouter_container_def Let_def)
  then show ?thesis
    unfolding deployment_syncHandler_def with_observed_proxy_current [OF assms(1-3)]
    using deployment_sync_fresh [OF none cm assms(8), of key ns] desired_deployment_shape [of p "om_Name (cm_Meta cm)" port]
    by (auto simp: Let_def)
qed

text \<open>
  C19. For an observed proxy with one deployment and one new config map, a sync sends one update, in which every
  \<open>config\<close> volume refers to that config map and nothing else has changed; the cached deployment is changed alike.
  When there is no new config map, nothing is sent.
\<close>

theorem deployment_sync_rolls_out:
  assumes "SplitMetaNamespaceKey key = Inr (ns, name)" and "get_proxy (ctl_cluster st) ns name = Inr p"
    and "om_Generation (mp_Meta p) = st_ObservedGeneration (mp_Status p)"
    and "GetDeploymentsForProxy e (ctl_cluster st) p = (Some d, [], None)" and "config_volumes_ok d"
  shows "(GetConfigMapForProxy e (ctl_cluster st) p = Inr None \<longrightarrow> deployment_syncHandler e key st = (RetNil, st))
    \<and> (\<forall>cm. GetConfigMapForProxy e (ctl_cluster st) p = Inr (Some cm) \<longrightarrow>
        (let vs = map (point_at (om_Name (cm_Meta cm))) (pt_Volumes (d_Template d));
             st' = snd (deployment_syncHandler e key st)
         in cl_actions (ctl_cluster st') = cl_actions (ctl_cluster st)
              @ [UpdateDeployment (om_Namespace (d_Meta d)) (with_volumes vs d)]
            \<and> cl_deployments (ctl_cluster st')
              = ix_mutate (meta_key (d_Meta d)) (with_volumes vs) (cl_deployments (ctl_cluster st))))"
proof -
  have "set_config_volumes n (pt_Volumes (d_Template d)) = Some (map (point_at n) (pt_Volumes (d_Template d)))" for n
    using assms(5) by (simp add: set_config_volumes_eq config_volumes_ok_def)
  then show ?thesis
    unfolding deployment_syncHandler_def with_observed_proxy_current [OF assms(1-3)] deployment_sync_eq [OF assms(4)]
    by (auto simp: ensure_deployment_def updateDeployment_def api_call_def Let_def split: sum.split)
qed

text \<open>
  C39. Surplus deployments: the comment says that all but the newest are deleted, but the list passed on has
  already lost the newest and the slice \<open>dList[1:]\<close> drops one more. On a server that accepts every call the
  deployments deleted are the third newest and older ones, and the sync ends in an error. With exactly two
  deployments none is deleted, however often the sync is retried.
\<close>

theorem surplus_deployments_deleted:
  assumes "SplitMetaNamespaceKey key = Inr (ns, name)" and "get_proxy (ctl_cluster st) ns name = Inr p"
    and "om_Generation (mp_Meta p) = st_ObservedGeneration (mp_Status p)"
    and "GetDeploymentsForProxy e (ctl_cluster st) p = (Some d, d2 # older, None)"
    and "\<And>as a. \<not> isl (env_api e as a)"
    and "updateDeployment e p d st = (RetNil, st1)"
  shows "cl_actions (ctl_cluster (snd (deployment_syncHandler e key st))) = cl_actions (ctl_cluster st1)
      @ map (\<lambda>d. DeleteDeployment (om_Namespace (d_Meta d)) (om_Name (d_Meta d))) older
    \<and> fst (deployment_syncHandler e key st)
      = RetErr (ErrorString (''Found multiple deployments for '' @ Quote key @ ''. Requeueing...''))"
proof -
  obtain cl where "deleteDeployments e p older (ctl_cluster st1) = (RetNil, cl)"
    "cl_actions cl = cl_actions (ctl_cluster st1) @ map (\<lambda>d. DeleteDeployment (om_Namespace (d_Meta d)) (om_Name (d_Meta d))) older"
    using deleteDeployments_accepted [OF assms(5), of p older "ctl_cluster st1"] by (metis prod.collapse)
  then show ?thesis
    unfolding deployment_syncHandler_def with_observed_proxy_current [OF assms(1-3)] deployment_sync_eq [OF assms(4)]
    using assms(6) by (simp add: ensure_deployment_def)
qed

text \<open>
  A sync of the deployment controller panics exactly when it would create a deployment for a proxy without a
  port, or update one whose \<open>config\<close> volume has lost its config map source.
\<close>

theorem deployment_sync_panics_iff:
  assumes "SplitMetaNamespaceKey key = Inr (ns, name)" and "get_proxy (ctl_cluster st) ns name = Inr p"
    and "om_Generation (mp_Meta p) = st_ObservedGeneration (mp_Status p)"
    and "GetDeploymentsForProxy e (ctl_cluster st) p = (found, dList, None)"
  shows "fst (deployment_syncHandler e key st) = Panic \<longleftrightarrow>
    (\<exists>cm. GetConfigMapForProxy e (ctl_cluster st) p = Inr (Some cm))
    \<and> (case found of None \<Rightarrow> mr_Port (spec_McRouter (mp_Spec p)) = None | Some d \<Rightarrow> \<not> config_volumes_ok d)"
proof -
  have "fst (deployment_sync e key st ns p) = Panic \<longleftrightarrow> fst (ensure_deployment e st p found) = Panic"
    using deleteDeployments_no_panic [of e p "drop 1 dList"]
    by (auto simp: deployment_sync_eq [OF assms(4)] split: prod.split outcome.split)
  then show ?thesis
    unfolding deployment_syncHandler_def with_observed_proxy_current [OF assms(1-3)]
    by (auto simp: ensure_deployment_def createDeployment_def deploymentForProxy_def updateDeployment_def api_call_def
        set_config_volumes_eq config_volumes_ok_def Let_def split: option.split sum.split)
qed

section \<open>Examples\<close>

lemma old_deployment_simps [simp]:
  "om_Namespace (d_Meta (old_deployment n t)) = ''default''" "om_CreationTimestamp (d_Meta (old_deployment n t)) = t"
  "IsControlledBy (d_Meta (old_deployment n t)) (mp_Meta example_proxy)" "config_volumes_ok (old_deployment n t)"
  "meta_key (d_Meta (old_deployment n t)) = ''default/'' @ n"
proof -
  have "IsControlledBy (d_Meta (old_deployment n t)) (mp_Meta observed_proxy)"
    by (rule IsControlledBy_NewProxyOwnerRef) (simp add: old_deployment_def)
  then show "IsControlledBy (d_Meta (old_deployment n t)) (mp_Meta example_proxy)" by simp
qed (simp_all add: old_deployment_def desired_deployment_def config_volumes_ok_def meta_key_def)

lemma cluster_inv_deployments:
  "cluster_inv configured_cluster" "cluster_inv deployed_cluster" "cluster_inv surplus_cluster"
  using cluster_inv_observed
  by (simp_all add: cluster_inv_def configured_cluster_def deployed_cluster_def surplus_cluster_def ix_Add_inv ix_inv_empty)

lemma owned_configmaps_configured:
  assumes "cl_configmaps cl = ix_Add cm_Meta example_configmap new_indexer"
  shows "owned_configmaps cl observed_proxy = {example_configmap}"
proof -
  have "cl_configmaps cl = cl_configmaps example_cluster" by (simp add: assms example_cluster_def)
  then show ?thesis using owned_configmaps_example by (simp add: owned_configmaps_def)
qed

lemma owned_deployments_examples:
  "owned_deployments configured_cluster observed_proxy = {}"
  "owned_deployments deployed_cluster observed_proxy = {old_deployment ''a'' 1}"
  "owned_deployments surplus_cluster observed_proxy = {old_deployment ''b'' 2, old_deployment ''a'' 1}"
proof -
  have "objects (cl_deployments configured_cluster) = {}"
    by (simp add: configured_cluster_def observed_cluster_def empty_cluster_def new_indexer_def objects_def)
  moreover have "objects (cl_deployments deployed_cluster) = {old_deployment ''a'' 1}"
    by (simp add: deployed_cluster_def objects_def ix_Add_def Let_def new_indexer_def)
  moreover have "objects (cl_deployments surplus_cluster) = {old_deployment ''b'' 2, old_deployment ''a'' 1}"
    by (auto simp: surplus_cluster_def objects_def ix_Add_def Let_def new_indexer_def)
  ultimately show "owned_deployments configured_cluster observed_proxy = {}"
    "owned_deployments deployed_cluster observed_proxy = {old_deployment ''a'' 1}"
    "owned_deployments surplus_cluster observed_proxy = {old_deployment ''b'' 2, old_deployment ''a'' 1}"
    by (auto simp: owned_deployments_def)
qed

lemma deployment_start:
  "get_proxy (ctl_cluster (start configured_cluster)) ''default'' ''example'' = Inr observed_proxy"
  "get_proxy (ctl_cluster (start deployed_cluster)) ''default'' ''example'' = Inr observed_proxy"
  "get_proxy (ctl_cluster (start surplus_cluster)) ''default'' ''example'' = Inr observed_proxy"
  by (simp_all add: get_observed_proxy configured_cluster_def deployed_cluster_def surplus_cluster_def observed_cluster_def)

lemma deployment_lookups:
  "GetDeploymentsForProxy accepting_env (ctl_cluster (start deployed_cluster)) observed_proxy = (Some (old_deployment ''a'' 1), [], None)"
  "GetDeploymentsForProxy accepting_env (ctl_cluster (start surplus_cluster)) observed_proxy
     = (Some (old_deployment ''b'' 2), [old_deployment ''a'' 1], None)"
  "GetConfigMapForProxy accepting_env (ctl_cluster (start surplus_cluster)) observed_proxy = Inr (Some example_configmap)"
  "GetConfigMapForProxy accepting_env (ctl_cluster (start deployed_cluster)) observed_proxy = Inr (Some example_configmap)"
  using owned_deployments_examples cluster_inv_deployments
  by (simp_all add: GetDeploymentsForProxy_one GetDeploymentsForProxy_two GetConfigMapForProxy_one owned_configmaps_configured
      surplus_cluster_def [THEN arg_cong [where f = cl_configmaps]] deployed_cluster_def [THEN arg_cong [where f = cl_configmaps]]
      configured_cluster_def)

theorem deployment_sync_creates_witness:
  "\<exists>d. cl_actions (ctl_cluster (snd (deployment_syncHandler accepting_env ''default/example'' (start configured_cluster))))
     = [CreateDeployment ''default'' d] \<and> IsControlledBy (d_Meta d) (mp_Meta observed_proxy)"
  using deployment_sync_creates [OF example_key deployment_start(1) observed_proxy_simps(2) _ permutes_keys_accepting(1) _ _
      observed_proxy_simps(3), of example_configmap] cluster_inv_deployments(1) owned_deployments_examples(1)
    owned_configmaps_configured [of configured_cluster]
  by (auto simp: configured_cluster_def observed_cluster_def empty_cluster_def)

theorem deployment_sync_rolls_out_witness:
  "cl_actions (ctl_cluster (snd (deployment_syncHandler accepting_env ''default/example'' (start deployed_cluster))))
     = [UpdateDeployment ''default'' (with_volumes
          (map (point_at (om_Name (cm_Meta example_configmap))) (pt_Volumes (d_Template (old_deployment ''a'' 1)))) (old_deployment ''a'' 1))]"
  using deployment_sync_rolls_out [OF example_key deployment_start(2) observed_proxy_simps(2) deployment_lookups(1)]
    deployment_lookups(4)
  by (simp add: Let_def deployed_cluster_def configured_cluster_def observed_cluster_def empty_cluster_def)

theorem surplus_deployments_deleted_witness:
  "\<exists>st1. updateDeployment accepting_env observed_proxy (old_deployment ''b'' 2) (start surplus_cluster) = (RetNil, st1)
     \<and> cl_actions (ctl_cluster (snd (deployment_syncHandler accepting_env ''default/example'' (start surplus_cluster))))
        = cl_actions (ctl_cluster st1)"
proof -
  obtain st1 where st1: "updateDeployment accepting_env observed_proxy (old_deployment ''b'' 2) (start surplus_cluster) = (RetNil, st1)"
    by (rule updateDeployment_accepted [OF deployment_lookups(3) old_deployment_simps(4)]) (simp add: accepting_env_def)
  have "\<not> isl (env_api accepting_env as a)" for as a by (simp add: accepting_env_def)
  from surplus_deployments_deleted [OF example_key deployment_start(3) observed_proxy_simps(2) deployment_lookups(2) this st1] st1
  show ?thesis by simp
qed

theorem deployment_sync_panics_iff_witness:
  "fst (deployment_syncHandler accepting_env ''default/example'' (start deployed_cluster)) \<noteq> Panic"
  using deployment_sync_panics_iff [OF example_key deployment_start(2) observed_proxy_simps(2) deployment_lookups(1)] by simp

end
