(* ===== verification/ConfigMapController.thy ===== *)
theory ConfigMapController
  imports EndpointsHandlers DeploymentController
begin

text \<open>
  The config map controller: internal/controller/proxyconfigmap/controller.go and event.go. A config map goes through
  two stages. A new one is controlled by the proxy; once the deployment's replica set mounts it, the reference to
  the proxy is replaced by one to the replica set, so that the config map lives as long as the replica
  set. When the cluster returns to a state whose config map still exists, that config map is taken back.

  The config map a lister returns is the cached object; \<open>SetOwnerReferences\<close> assigns to it, which is \<open>ix_mutate\<close>
  here. \<open>Create\<close> and \<open>Update\<close> return a new object, empty when they fail; its name is the one in the event.
\<close>

section \<open>Events\<close>

definition configmap_recordEvent ::
  "string \<Rightarrow> MemcachedProxy \<Rightarrow> string \<Rightarrow> ObjectMeta option \<Rightarrow> go_error option \<Rightarrow> cluster \<Rightarrow> cluster" where
  "configmap_recordEvent verb p kind obj err cl =
     (case err of
        None \<Rightarrow>
          (let reason = ''Successful'' @ Title verb;
               msg = (case obj of
                  None \<Rightarrow> ToLower verb @ '' '' @ kind @ '' for MemcachedProxy '' @ Quote (om_Name (mp_Meta p)) @ '' successful''
                | Some m \<Rightarrow> ToLower verb @ '' '' @ kind @ '' '' @ Quote (om_Name m) @ '' for MemcachedProxy ''
                    @ Quote (om_Name (mp_Meta p)) @ '' successful'')
           in record_event p EventTypeNormal reason msg cl)
      | Some er \<Rightarrow>
          (let reason = ''Failed'' @ Title verb;
               msg = (case obj of
                  None \<Rightarrow> ToLower verb @ '' '' @ kind @ '' for MemcachedProxy '' @ Quote (om_Name (mp_Meta p))
                    @ '' failed error: '' @ ErrorText er
                | Some m \<Rightarrow> ToLower verb @ '' '' @ kind @ '' '' @ Quote (om_Name m) @ '' for MemcachedProxy ''
                    @ Quote (om_Name (mp_Meta p)) @ '' failed error: '' @ ErrorText er)
           in record_event p EventTypeWarning reason msg cl))"

definition recordConfigMapEvent ::
  "string \<Rightarrow> MemcachedProxy \<Rightarrow> ObjectMeta \<Rightarrow> go_error option \<Rightarrow> cluster \<Rightarrow> cluster" where
  "recordConfigMapEvent verb p cm err cl = configmap_recordEvent verb p ''ConfigMap'' (Some cm) err cl"

section \<open>The config map of a proxy\<close>

definition memcachedProxyType :: GroupVersionKind where
  "memcachedProxyType = WithKind ''MemcachedProxy''"

definition replicaSetType :: GroupVersionKind where
  "replicaSetType = \<lparr>gvk_Group = ''apps'', gvk_Version = ''v1'', gvk_Kind = ''ReplicaSet''\<rparr>"

definition rendered_configmap :: "MemcachedProxy \<Rightarrow> string \<Rightarrow> ConfigMap" where
  \<comment> \<open>the literal in \<open>configMapForProxy\<close>, given the text of the configuration\<close>
  "rendered_configmap p configJSON =
     \<lparr>cm_APIVersion = ''v1'', cm_Kind = ''ConfigMap'',
      cm_Meta = zero_meta\<lparr>
        om_Name := MakeName (om_Name (mp_Meta p) @ ''-config-'') [om_Name (mp_Meta p), configJSON],
        om_Namespace := om_Namespace (mp_Meta p), om_OwnerReferences := [NewProxyOwnerRef p]\<rparr>,
      cm_Data = [(''config.json'', configJSON)], cm_Rest = []\<rparr>"

definition configMapForProxy :: "env \<Rightarrow> cluster \<Rightarrow> MemcachedProxy \<Rightarrow> go_error + ConfigMap" where
  \<comment> \<open>\<open>json.Marshal\<close> cannot fail on a configuration\<close>
  "configMapForProxy e cl p =
     (case configForProxy e cl p of
        Inl err \<Rightarrow> Inl (ErrorString (''failed to create mcrouter config: '' @ ErrorText err))
      | Inr config \<Rightarrow> Inr (rendered_configmap p (config_json config)))"

section \<open>The newest replica set\<close>

definition DefaultDeploymentUniqueLabelKey :: string where
  "DefaultDeploymentUniqueLabelKey = ''pod-template-hash''"

definition without_hash :: "PodTemplateSpec \<Rightarrow> (string \<times> string) list" where
  "without_hash t = map_delete DefaultDeploymentUniqueLabelKey (om_Labels (pt_Meta t))"

definition drop_labels :: "PodTemplateSpec \<Rightarrow> PodTemplateSpec" where
  "drop_labels t = t\<lparr>pt_Meta := (pt_Meta t)\<lparr>om_Labels := []\<rparr>\<rparr>"

definition EqualIgnoreHash :: "PodTemplateSpec \<Rightarrow> PodTemplateSpec \<Rightarrow> bool" where
  \<comment> \<open>labels are compared as maps; \<open>Semantic.DeepEqual\<close> does not tell nil from empty, nor does a list\<close>
  "EqualIgnoreHash template1 template2 \<longleftrightarrow>
     map_equal (without_hash template1) (without_hash template2) \<and> drop_labels template1 = drop_labels template2"

definition getNewRSForProxy :: "env \<Rightarrow> cluster \<Rightarrow> MemcachedProxy \<Rightarrow> go_error + ReplicaSet option" where
  "getNewRSForProxy e cl p =
     (case GetDeploymentsForProxy e cl p of
        (_, _, Some err) \<Rightarrow> Inl err
      | (None, _, None) \<Rightarrow> Inr None
      | (Some d, _, None) \<Rightarrow>
          (case LabelSelectorAsSelector (env_validLabelKey e) (env_validLabelValue e) (d_Selector d) of
             Inl err \<Rightarrow> Inl err
           | Inr sel \<Rightarrow>
               (case ListAllByNamespace (env_range e RangeReplicaSets) rs_Meta (cl_replicasets cl) (om_Namespace (mp_Meta p)) sel of
                  Inl err \<Rightarrow> Inl err
                | Inr rsList \<Rightarrow> Inr (List.find (\<lambda>rs. EqualIgnoreHash (rs_Template rs) (d_Template d)) rsList))))"

section \<open>Owner references\<close>

definition set_refs :: "OwnerReference list \<Rightarrow> ConfigMap \<Rightarrow> ConfigMap" where
  \<comment> \<open>\<open>cm.SetOwnerReferences(refs)\<close>\<close>
  "set_refs refs cm = cm\<lparr>cm_Meta := (cm_Meta cm)\<lparr>om_OwnerReferences := refs\<rparr>\<rparr>"

definition handed_over_refs :: "MemcachedProxy \<Rightarrow> ReplicaSet \<Rightarrow> ConfigMap \<Rightarrow> OwnerReference list" where
  "handed_over_refs p rs cm =
     (let refs = (if \<not> IsOwnedBy (cm_Meta cm) (rs_Meta rs)
            then om_OwnerReferences (cm_Meta cm) @ [NewOwnerRef (rs_Meta rs) replicaSetType]
            else om_OwnerReferences (cm_Meta cm))
      in filter (\<lambda>ref. ref_UID ref \<noteq> om_UID (mp_Meta p)) refs)"

definition applyOwnerRefToCM ::
  "env \<Rightarrow> cluster \<Rightarrow> MemcachedProxy \<Rightarrow> ConfigMap \<Rightarrow> go_error + OwnerReference list option" where
  \<comment> \<open>\<open>Inr None\<close> is \<open>(false, nil)\<close>; otherwise the references it leaves on the config map\<close>
  "applyOwnerRefToCM e cl p cm =
     (case getNewRSForProxy e cl p of
        Inl err \<Rightarrow> Inl err
      | Inr None \<Rightarrow> Inr None
      | Inr (Some rs) \<Rightarrow> Inr (Some (handed_over_refs p rs cm)))"

definition mounts :: "Deployment \<Rightarrow> string \<Rightarrow> bool" where
  \<comment> \<open>the loop that computes \<open>isLatest\<close>\<close>
  "mounts d cmName = list_ex (\<lambda>v. case v_ConfigMap v of None \<Rightarrow> False | Some src \<Rightarrow> cmv_Name src = cmName) (pt_Volumes (d_Template d))"

definition mutate_cm :: "ConfigMap \<Rightarrow> OwnerReference list \<Rightarrow> cluster \<Rightarrow> cluster" where
  "mutate_cm cm refs cl = cl\<lparr>cl_configmaps := ix_mutate (meta_key (cm_Meta cm)) (set_refs refs) (cl_configmaps cl)\<rparr>"

definition update_cm ::
  "env \<Rightarrow> MemcachedProxy \<Rightarrow> ConfigMap \<Rightarrow> (go_error \<Rightarrow> go_error) \<Rightarrow> ctl \<Rightarrow> outcome \<times> ctl" where
  \<comment> \<open>the update with its event, which \<open>syncHandler\<close> and \<open>reuseConfigMap\<close> share\<close>
  "update_cm e p cm wrap st =
     (case api_call e (UpdateConfigMap (om_Namespace (cm_Meta cm)) cm) (ctl_cluster st) of
        (Inl err, cl) \<Rightarrow> (RetErr (wrap err), st\<lparr>ctl_cluster := recordConfigMapEvent ''update'' p zero_meta (Some err) cl\<rparr>)
      | (Inr result, cl) \<Rightarrow> (RetNil, st\<lparr>ctl_cluster := recordConfigMapEvent ''update'' p result None cl\<rparr>))"

definition reuseConfigMap :: "env \<Rightarrow> MemcachedProxy \<Rightarrow> ConfigMap \<Rightarrow> ctl \<Rightarrow> outcome \<times> ctl" where
  "reuseConfigMap e p cm st =
     (case GetDeploymentsForProxy e (ctl_cluster st) p of
        (_, _, Some err) \<Rightarrow> (RetErr err, st)
      | (None, _, None) \<Rightarrow>
          (RetErr (ErrorString (''No deployment found for '' @ [CHR 0x22] @ proxy_key p @ [CHR 0x22])), st)
      | (Some d, _, None) \<Rightarrow>
          (let refs = (if \<not> mounts d (om_Name (cm_Meta cm))
                 then om_OwnerReferences (cm_Meta cm) @ [NewControllerRef (mp_Meta p) memcachedProxyType]
                 else om_OwnerReferences (cm_Meta cm))
           in update_cm e p (set_refs refs cm)
                (\<lambda>err. ErrorString (''failed to update configmaps for '' @ [CHR 0x22] @ proxy_key p @ [CHR 0x22] @ '': '' @ ErrorText err))
                (on_cluster (mutate_cm cm refs) st)))"

section \<open>The handler\<close>

definition create_cm :: "env \<Rightarrow> string \<Rightarrow> string \<Rightarrow> MemcachedProxy \<Rightarrow> ConfigMap \<Rightarrow> ctl \<Rightarrow> outcome \<times> ctl" where
  \<comment> \<open>the branch of \<open>syncHandler\<close> that creates the config map and puts the key back\<close>
  "create_cm e key ns p cmNew st =
     (case api_call e (CreateConfigMap ns cmNew) (ctl_cluster st) of
        (Inl err, cl) \<Rightarrow> (RetErr err, st\<lparr>ctl_cluster := recordConfigMapEvent ''create'' p zero_meta (Some err) cl\<rparr>)
      | (Inr result, cl) \<Rightarrow>
          (RetNil, on_queue (AddRateLimited (StringItem key))
             (st\<lparr>ctl_cluster := recordConfigMapEvent ''create'' p result None cl\<rparr>)))"

definition sync_no_new :: "env \<Rightarrow> string \<Rightarrow> string \<Rightarrow> MemcachedProxy \<Rightarrow> ctl \<Rightarrow> outcome \<times> ctl" where
  \<comment> \<open>\<open>case 0\<close>: no config map is controlled by the proxy\<close>
  "sync_no_new e key ns p st =
     (case configMapForProxy e (ctl_cluster st) p of
        Inl err \<Rightarrow> (RetErr err, on_cluster (configmap_recordEvent ''create'' p ''ConfigMap'' None (Some err)) st)
      | Inr cmNew \<Rightarrow>
          (case lister_Get ''configmap'' (cl_configmaps (ctl_cluster st)) (om_Namespace (mp_Meta p)) (om_Name (cm_Meta cmNew)) of
             Inl err \<Rightarrow> (if IsNotFound err then create_cm e key ns p cmNew st else (RetErr err, st))
           | Inr cm \<Rightarrow> reuseConfigMap e p cm st))"

definition sync_one_new :: "env \<Rightarrow> string \<Rightarrow> MemcachedProxy \<Rightarrow> ConfigMap \<Rightarrow> ctl \<Rightarrow> outcome \<times> ctl" where
  \<comment> \<open>\<open>case 1\<close>: hand the config map over, or look again in a second\<close>
  "sync_one_new e key p cm st =
     (case applyOwnerRefToCM e (ctl_cluster st) p cm of
        Inl err \<Rightarrow> (RetErr (ErrorString (''failed to apply ownerrefs to configmap for '' @ Quote key @ '': '' @ ErrorText err)), st)
      | Inr None \<Rightarrow> (RetNil, on_queue (AddAfter (StringItem key) second) st)
      | Inr (Some refs) \<Rightarrow>
          (case update_cm e p (set_refs refs cm)
             (\<lambda>err. ErrorString (''failed to update configmaps for '' @ Quote key @ '': '' @ ErrorText err))
             (on_cluster (mutate_cm cm refs) st) of
             (RetNil, st1) \<Rightarrow> (RetNil, on_queue (AddRateLimited (StringItem key)) st1)
           | (res, st1) \<Rightarrow> (res, st1)))"

definition configmap_sync :: "env \<Rightarrow> string \<Rightarrow> ctl \<Rightarrow> string \<Rightarrow> MemcachedProxy \<Rightarrow> outcome \<times> ctl" where
  \<comment> \<open>\<open>syncHandler\<close> from the lookup of the config maps on\<close>
  "configmap_sync e key st ns p =
     (case GetConfigMapsForProxy e (ctl_cluster st) p of
        Inl err \<Rightarrow> (RetErr (ErrorString (''failed to get configmaps for '' @ Quote key @ '': '' @ ErrorText err)), st)
      | Inr [] \<Rightarrow> sync_no_new e key ns p st
      | Inr [cm] \<Rightarrow> sync_one_new e key p cm st
      | Inr _ \<Rightarrow> (RetNil, st))"

definition configmap_syncHandler :: "env \<Rightarrow> handler" where
  "configmap_syncHandler e key st = with_observed_proxy key st (configmap_sync e key st)"

definition configmap_enqueue :: "event_obj \<Rightarrow> item rlq \<Rightarrow> item rlq" where
  "configmap_enqueue = enqueue"

definition configmap_enqueueOwned :: "event_obj \<Rightarrow> item rlq \<Rightarrow> item rlq" where
  "configmap_enqueueOwned = enqueueOwned"

definition configmap_processWorkItem :: "env \<Rightarrow> item \<Rightarrow> ctl \<Rightarrow> outcome \<times> ctl" where
  "configmap_processWorkItem e = processWorkItem (configmap_syncHandler e)"

definition configmap_worker :: "env \<Rightarrow> nat \<Rightarrow> ctl \<Rightarrow> worker_status \<times> ctl" where
  "configmap_worker e = worker (configmap_syncHandler e)"

definition configmap_Run :: "int \<Rightarrow> nat list \<times> (ctl \<Rightarrow> ctl)" where
  "configmap_Run = Run"

fun endpoints_dispatch :: "env \<Rightarrow> string \<Rightarrow> informer_event \<Rightarrow> ctl \<Rightarrow> ctl option" where
  "endpoints_dispatch e namespace (Added obj) st = addEndpoints e namespace obj st"
| "endpoints_dispatch e namespace (Updated old new) st = updateEndpoints e namespace old new st"
| "endpoints_dispatch e namespace (Deleted obj) st = deleteEndpoints e namespace obj st"

definition configmap_New :: "string \<Rightarrow> string \<Rightarrow> int \<Rightarrow> controller" where
  "configmap_New name namespace workers =
     \<lparr>c_name = name, c_workers = workers, c_Run = configmap_Run,
      c_handlers = (\<lambda>e inf ev.
        case inf of
          ProxyInformer \<Rightarrow> Some \<circ> on_queue (dispatch configmap_enqueue (\<lambda>old new. configmap_enqueue new) configmap_enqueue ev)
        | EndpointsInformer \<Rightarrow> endpoints_dispatch e namespace ev
        | DeploymentInformer \<Rightarrow> Some \<circ> on_queue (dispatch configmap_enqueueOwned
            (\<lambda>old new q. configmap_enqueueOwned new (configmap_enqueueOwned old q)) configmap_enqueueOwned ev)
        | _ \<Rightarrow> Some),
      c_syncHandler = configmap_syncHandler\<rparr>"

declare configmap_Run_def [registration_defs] configmap_enqueue_def [registration_defs] configmap_enqueueOwned_def [registration_defs]
  configmap_New_def [registration_defs]

definition set_hash :: "string \<Rightarrow> PodTemplateSpec \<Rightarrow> PodTemplateSpec" where
  \<comment> \<open>what the cluster's deployment controller does to the template of a replica set\<close>
  "set_hash h t = t\<lparr>pt_Meta := (pt_Meta t)\<lparr>om_Labels := map_put DefaultDeploymentUniqueLabelKey h (om_Labels (pt_Meta t))\<rparr>\<rparr>"

definition example_replicaset :: ReplicaSet where
  "example_replicaset = \<lparr>rs_Meta = zero_meta\<lparr>om_Name := ''a-1'', om_Namespace := ''default'', om_UID := ''uid-rs'',
       om_Labels := GetProxyServiceSelector observed_proxy\<rparr>,
     rs_Template = set_hash ''1'' (d_Template (old_deployment ''a'' 1)), rs_Rest = []\<rparr>"

definition rolled_cluster :: cluster where
  \<comment> \<open>the deployment has got its replica set\<close>
  "rolled_cluster = deployed_cluster\<lparr>cl_replicasets := ix_Add rs_Meta example_replicaset new_indexer\<rparr>"

definition crowded_cluster :: cluster where
  \<comment> \<open>the proxy controls two config maps\<close>
  "crowded_cluster = observed_cluster\<lparr>cl_configmaps := ix_Add cm_Meta
     (example_configmap\<lparr>cm_Meta := (cm_Meta example_configmap)\<lparr>om_Name := ''example-config-11111''\<rparr>\<rparr>)
     (ix_Add cm_Meta example_configmap new_indexer)\<rparr>"

text \<open>What the loop relies on, for each of the pieces of the handler.\<close>

definition tidy :: "string \<Rightarrow> ctl \<Rightarrow> outcome \<times> ctl \<Rightarrow> bool" where
  "tidy key st r \<longleftrightarrow> requeued (StringItem key) (ctl_queue st) (ctl_queue (snd r))
     \<and> (\<exists>calls. cl_actions (ctl_cluster (snd r)) = cl_actions (ctl_cluster st) @ calls)
     \<and> (cluster_inv (ctl_cluster st) \<longrightarrow> cluster_inv (ctl_cluster (snd r))) \<and> fst r \<noteq> Panic"

section \<open>Lemmas\<close>

lemma set_refs_simps [simp]:
  "om_OwnerReferences (cm_Meta (set_refs refs cm)) = refs" "om_Name (cm_Meta (set_refs refs cm)) = om_Name (cm_Meta cm)"
  "om_Namespace (cm_Meta (set_refs refs cm)) = om_Namespace (cm_Meta cm)" "om_UID (cm_Meta (set_refs refs cm)) = om_UID (cm_Meta cm)"
  "cm_Data (set_refs refs cm) = cm_Data cm"
  by (simp_all add: set_refs_def)

lemma configmap_event_simps [simp]:
  "cl_actions (configmap_recordEvent verb p kind obj err cl) = cl_actions cl"
  "cl_proxies (configmap_recordEvent verb p kind obj err cl) = cl_proxies cl"
  "cl_services (configmap_recordEvent verb p kind obj err cl) = cl_services cl"
  "cl_endpoints (configmap_recordEvent verb p kind obj err cl) = cl_endpoints cl"
  "cl_configmaps (configmap_recordEvent verb p kind obj err cl) = cl_configmaps cl"
  "cl_deployments (configmap_recordEvent verb p kind obj err cl) = cl_deployments cl"
  "cl_replicasets (configmap_recordEvent verb p kind obj err cl) = cl_replicasets cl"
  by (simp_all add: configmap_recordEvent_def Let_def split: option.split)

lemma cluster_inv_event [simp]: "cluster_inv (configmap_recordEvent verb p kind obj err cl) = cluster_inv cl"
  by (simp add: cluster_inv_def)

lemma cluster_inv_api_call [simp]: "cluster_inv (snd (api_call e a cl)) = cluster_inv cl"
  by (simp add: cluster_inv_def)

lemma cluster_inv_mutate_cm: "cluster_inv cl \<Longrightarrow> cluster_inv (mutate_cm cm refs cl)"
  by (simp add: cluster_inv_def mutate_cm_def ix_mutate_inv)

lemma cl_actions_mutate_cm [simp]: "cl_actions (mutate_cm cm refs cl) = cl_actions cl"
  by (simp add: mutate_cm_def)

lemma update_cm_eq:
  "update_cm e p cm wrap st =
     (let a = UpdateConfigMap (om_Namespace (cm_Meta cm)) cm; r = env_api e (cl_actions (ctl_cluster st)) a
      in ((case r of Inl err \<Rightarrow> RetErr (wrap err) | Inr _ \<Rightarrow> RetNil),
          on_cluster (\<lambda>cl. recordConfigMapEvent ''update'' p (case r of Inl _ \<Rightarrow> zero_meta | Inr m \<Rightarrow> m)
            (case r of Inl err \<Rightarrow> Some err | Inr _ \<Rightarrow> None) (snd (api_call e a cl))) st))"
  by (simp add: update_cm_def api_call_def on_cluster_def Let_def split: sum.split)

lemma create_cm_eq:
  "create_cm e key ns p cm st =
     (let a = CreateConfigMap ns cm; r = env_api e (cl_actions (ctl_cluster st)) a;
          st1 = on_cluster (\<lambda>cl. recordConfigMapEvent ''create'' p (case r of Inl _ \<Rightarrow> zero_meta | Inr m \<Rightarrow> m)
            (case r of Inl err \<Rightarrow> Some err | Inr _ \<Rightarrow> None) (snd (api_call e a cl))) st
      in (case r of Inl err \<Rightarrow> (RetErr err, st1) | Inr _ \<Rightarrow> (RetNil, on_queue (AddRateLimited (StringItem key)) st1)))"
  by (simp add: create_cm_def api_call_def on_cluster_def on_queue_def Let_def split: sum.split)

lemma tidy_simple: "tidy key st (RetNil, st)" "tidy key st (RetErr err, st)"
  "tidy key st (RetNil, on_queue (AddAfter (StringItem key) second) st)"
  "tidy key st (RetNil, on_queue (AddRateLimited (StringItem key)) st)"
  by (simp_all add: tidy_def requeued_def)

lemma tidy_create: "tidy key st (create_cm e key ns p cm st)"
  by (auto simp: tidy_def create_cm_eq requeued_def recordConfigMapEvent_def Let_def split: sum.split)

lemma update_cm_keeps:
  assumes "update_cm e p cm' wrap (on_cluster (mutate_cm cm refs) st) = (res, st1)"
  shows "ctl_queue st1 = ctl_queue st" "\<exists>calls. cl_actions (ctl_cluster st1) = cl_actions (ctl_cluster st) @ calls"
    "cluster_inv (ctl_cluster st) \<Longrightarrow> cluster_inv (ctl_cluster st1)" "res \<noteq> Panic"
  using assms
  by (auto simp: update_cm_eq recordConfigMapEvent_def cluster_inv_mutate_cm Let_def split: sum.splits)

lemma tidy_reuse: "tidy key st (reuseConfigMap e p cm st)"
proof (cases "GetDeploymentsForProxy e (ctl_cluster st) p" rule: prod_cases3)
  case (fields found dList err)
  show ?thesis
  proof (cases "found \<noteq> None \<and> err = None")
    case True
    let ?refs = "if \<not> mounts (the found) (om_Name (cm_Meta cm))
      then om_OwnerReferences (cm_Meta cm) @ [NewControllerRef (mp_Meta p) memcachedProxyType] else om_OwnerReferences (cm_Meta cm)"
    obtain res st1 where u: "update_cm e p (set_refs ?refs cm)
        (\<lambda>err. ErrorString (''failed to update configmaps for '' @ [CHR 0x22] @ proxy_key p @ [CHR 0x22] @ '': '' @ ErrorText err))
        (on_cluster (mutate_cm cm ?refs) st) = (res, st1)" by fastforce
    then have "reuseConfigMap e p cm st = (res, st1)"
      using True fields by (auto simp: reuseConfigMap_def Let_def)
    then show ?thesis using update_cm_keeps [OF u] by (simp add: tidy_def requeued_def)
  qed (use fields tidy_simple in \<open>auto simp: reuseConfigMap_def split: option.split\<close>)
qed

lemma tidy_one: "tidy key st (sync_one_new e key p cm st)"
proof (cases "applyOwnerRefToCM e (ctl_cluster st) p cm")
  case (Inr r)
  show ?thesis
  proof (cases r)
    case None
    then show ?thesis using Inr tidy_simple(3) by (simp add: sync_one_new_def)
  next
    case (Some refs)
    obtain res st1 where u: "update_cm e p (set_refs refs cm)
        (\<lambda>err. ErrorString (''failed to update configmaps for '' @ Quote key @ '': '' @ ErrorText err))
        (on_cluster (mutate_cm cm refs) st) = (res, st1)" by fastforce
    then show ?thesis
      using update_cm_keeps [OF u] Inr Some
      by (cases res) (auto simp: sync_one_new_def tidy_def requeued_def)
  qed
qed (simp add: sync_one_new_def tidy_simple)

lemma tidy_none: "tidy key st (sync_no_new e key ns p st)"
proof (cases "configMapForProxy e (ctl_cluster st) p")
  case (Inl err)
  then show ?thesis by (simp add: sync_no_new_def tidy_def requeued_def)
next
  case (Inr cm)
  then show ?thesis
    using tidy_create tidy_reuse tidy_simple by (auto simp: sync_no_new_def split: sum.split)
qed

lemma tidy_sync: "tidy key st (configmap_sync e key st ns p)"
  using tidy_none tidy_one tidy_simple
  by (auto simp: configmap_sync_def split: sum.split list.split)

lemma tidy_syncHandler: "tidy key st (configmap_syncHandler e key st)"
  unfolding configmap_syncHandler_def
  by (rule with_observed_proxy_cases) (simp_all add: tidy_simple tidy_sync)

interpretation configmap_loop: panic_free_handler "configmap_syncHandler e" for e
  by unfold_locales (use tidy_syncHandler in \<open>auto simp: tidy_def\<close>)

lemma EqualIgnoreHash_iff:
  "EqualIgnoreHash t u \<longleftrightarrow> (\<forall>k. k \<noteq> DefaultDeploymentUniqueLabelKey \<longrightarrow>
      map_of (om_Labels (pt_Meta t)) k = map_of (om_Labels (pt_Meta u)) k) \<and> drop_labels t = drop_labels u"
  by (auto simp: EqualIgnoreHash_def map_equal_iff without_hash_def fun_eq_iff)

lemma GetConfigMapsForProxy_eq:
  assumes "cluster_inv cl" and "permutes_keys (env_range e)"
  shows "owned_configmaps cl p = {} \<Longrightarrow> GetConfigMapsForProxy e cl p = Inr []"
    "owned_configmaps cl p = {cm} \<Longrightarrow> GetConfigMapsForProxy e cl p = Inr [cm]"
    "card (owned_configmaps cl p) > 1 \<Longrightarrow> \<exists>c1 c2 cs. GetConfigMapsForProxy e cl p = Inr (c1 # c2 # cs)"
proof -
  obtain cms where cms: "GetConfigMapsForProxy e cl p = Inr cms" "distinct cms" "set cms = owned_configmaps cl p"
    by (rule GetConfigMapsForProxy_set [OF assms])
  have card: "card (owned_configmaps cl p) = length cms" using cms distinct_card by metis
  show "owned_configmaps cl p = {} \<Longrightarrow> GetConfigMapsForProxy e cl p = Inr []" using cms by simp
  show "GetConfigMapsForProxy e cl p = Inr [cm]" if "owned_configmaps cl p = {cm}"
    using cms that by (cases cms rule: remdups_adj.cases) auto
  show "\<exists>c1 c2 cs. GetConfigMapsForProxy e cl p = Inr (c1 # c2 # cs)" if "card (owned_configmaps cl p) > 1"
    using cms(1) card that by (cases cms rule: remdups_adj.cases) auto
qed

lemma handed_over:
  assumes "om_UID (rs_Meta rs) \<noteq> om_UID (mp_Meta p)"
  shows "IsOwnedBy (cm_Meta (set_refs (handed_over_refs p rs cm) cm)) (rs_Meta rs)"
    "\<not> IsOwnedBy (cm_Meta (set_refs (handed_over_refs p rs cm) cm)) (mp_Meta p)"
    "handed_over_refs p rs cm = filter (\<lambda>ref. ref_UID ref \<noteq> om_UID (mp_Meta p)) (om_OwnerReferences (cm_Meta cm))
       @ (if IsOwnedBy (cm_Meta cm) (rs_Meta rs) then [] else [NewOwnerRef (rs_Meta rs) replicaSetType])"
  using assms
  by (auto simp: handed_over_refs_def IsOwnedBy_def list_ex_iff NewOwnerRef_def Let_def)

lemma owned_after_mutate:
  assumes "cluster_inv cl" and "owned_configmaps cl p = {cm}" and "\<not> IsOwnedBy (cm_Meta (set_refs refs cm)) (mp_Meta p)"
  shows "owned_configmaps (mutate_cm cm refs cl) p = {}"
proof -
  let ?ix = "cl_configmaps cl" and ?k = "meta_key (cm_Meta cm)"
  have inv: "ix_inv cm_Meta ?ix" "ix_inv cm_Meta (cl_configmaps (mutate_cm cm refs cl))"
    using assms(1) cluster_inv_mutate_cm [OF assms(1)] by (simp_all add: cluster_inv_def)
  have cm: "cm \<in> objects ?ix" using assms(2) by (auto simp: owned_configmaps_def)
  then have get: "ix_GetByKey ?k ?ix = Some cm"
    using ix_inv_key [OF inv(1)] by (auto simp: objects_iff ix_GetByKey_items [OF inv(1)])
  have "x = set_refs refs cm \<or> x \<in> objects ?ix \<and> x \<noteq> cm" if x: "x \<in> objects (cl_configmaps (mutate_cm cm refs cl))" for x
  proof -
    obtain k where "(k, x) \<in> set (ix_items (cl_configmaps (mutate_cm cm refs cl)))"
      using x by (auto simp: objects_iff)
    then have k: "ix_GetByKey k (cl_configmaps (mutate_cm cm refs cl)) = Some x"
      by (simp add: ix_GetByKey_items [OF inv(2)])
    show ?thesis
    proof (cases "k = ?k")
      case True
      then show ?thesis using k get by (simp add: mutate_cm_def ix_GetByKey_mutate)
    next
      case False
      then have "(k, x) \<in> set (ix_items ?ix)"
        using k by (simp add: mutate_cm_def ix_GetByKey_mutate ix_GetByKey_items [OF inv(1)])
      then show ?thesis using False ix_inv_key [OF inv(1)] by (auto simp: objects_iff)
    qed
  qed
  then show ?thesis
    using assms(2,3) IsControlledBy_IsOwnedBy by (fastforce simp: owned_configmaps_def)
qed

lemma configmap_sync_fresh:
  assumes "SplitMetaNamespaceKey key = Inr (ns, name)" and "get_proxy (ctl_cluster st) ns name = Inr p"
    and "om_Generation (mp_Meta p) = st_ObservedGeneration (mp_Status p)"
    and "cluster_inv (ctl_cluster st)" and "permutes_keys (env_range e)" and "owned_configmaps (ctl_cluster st) p = {}"
    and "configForProxy e (ctl_cluster st) p = Inr config"
    and "isl (lister_Get ''configmap'' (cl_configmaps (ctl_cluster st)) (om_Namespace (mp_Meta p))
      (MakeName (om_Name (mp_Meta p) @ ''-config-'') [om_Name (mp_Meta p), config_json config]))"
  shows "configmap_syncHandler e key st = create_cm e key ns p (rendered_configmap p (config_json config)) st"
proof -
  let ?cm = "rendered_configmap p (config_json config)"
  obtain err where "lister_Get ''configmap'' (cl_configmaps (ctl_cluster st)) (om_Namespace (mp_Meta p)) (om_Name (cm_Meta ?cm)) = Inl err"
    and "IsNotFound err"
    using assms(8) by (auto simp: isl_def rendered_configmap_def lister_Get_def NewNotFound_def split: option.splits)
  then show ?thesis
    unfolding configmap_syncHandler_def with_observed_proxy_current [OF assms(1-3)]
    by (simp add: configmap_sync_def GetConfigMapsForProxy_eq(1) [OF assms(4-6)] sync_no_new_def configMapForProxy_def assms(7))
qed

section \<open>Properties\<close>

text \<open>
  C17. For an observed proxy that controls no config map, whose configuration can be rendered and whose rendered
  config map does not exist, a sync creates that config map: named after its contents, controlled by the
  proxy, holding the text of the configuration. When the server accepts it the key is put back.
\<close>

theorem configmap_sync_creates:
  assumes "SplitMetaNamespaceKey key = Inr (ns, name)" and "get_proxy (ctl_cluster st) ns name = Inr p"
    and "om_Generation (mp_Meta p) = st_ObservedGeneration (mp_Status p)"
    and "cluster_inv (ctl_cluster st)" and "permutes_keys (env_range e)" and "owned_configmaps (ctl_cluster st) p = {}"
    and "configForProxy e (ctl_cluster st) p = Inr config" and "\<not> q_shuttingDown (ctl_queue st)"
    and "isl (lister_Get ''configmap'' (cl_configmaps (ctl_cluster st)) (om_Namespace (mp_Meta p))
      (MakeName (om_Name (mp_Meta p) @ ''-config-'') [om_Name (mp_Meta p), config_json config]))"
  shows "\<exists>cm. cl_actions (ctl_cluster (snd (configmap_syncHandler e key st))) = cl_actions (ctl_cluster st) @ [CreateConfigMap ns cm]
    \<and> om_Name (cm_Meta cm) = MakeName (om_Name (mp_Meta p) @ ''-config-'') [om_Name (mp_Meta p), config_json config]
    \<and> IsControlledBy (cm_Meta cm) (mp_Meta p) \<and> map_of (cm_Data cm) = [''config.json'' \<mapsto> config_json config]
    \<and> (case env_api e (cl_actions (ctl_cluster st)) (CreateConfigMap ns cm) of
         Inl err \<Rightarrow> fst (configmap_syncHandler e key st) = RetErr err
       | Inr _ \<Rightarrow> fst (configmap_syncHandler e key st) = RetNil
           \<and> scheduled (StringItem key) (ctl_queue (snd (configmap_syncHandler e key st))))"
proof -
  let ?cm = "rendered_configmap p (config_json config)"
  note configmap_sync_fresh [OF assms(1-7,9)]
  moreover have "IsControlledBy (cm_Meta ?cm) (mp_Meta p)"
    by (rule IsControlledBy_NewProxyOwnerRef) (simp add: rendered_configmap_def)
  ultimately show ?thesis
    using scheduled_AddRateLimited [OF assms(8)]
    by (intro exI [of _ ?cm])
      (auto simp: create_cm_eq recordConfigMapEvent_def Let_def rendered_configmap_def split: sum.split)
qed

text \<open>
  When the configuration cannot be rendered, nothing is sent: the error is returned, so that the key is retried,
  and one warning is recorded on the proxy.
\<close>

theorem configmap_sync_render_error:
  assumes "SplitMetaNamespaceKey key = Inr (ns, name)" and "get_proxy (ctl_cluster st) ns name = Inr p"
    and "om_Generation (mp_Meta p) = st_ObservedGeneration (mp_Status p)"
    and "cluster_inv (ctl_cluster st)" and "permutes_keys (env_range e)" and "owned_configmaps (ctl_cluster st) p = {}"
    and "configForProxy e (ctl_cluster st) p = Inl err"
  shows "fst (configmap_syncHandler e key st) = RetErr (ErrorString (''failed to create mcrouter config: '' @ ErrorText err))
    \<and> cl_actions (ctl_cluster (snd (configmap_syncHandler e key st))) = cl_actions (ctl_cluster st)
    \<and> (\<exists>ev. cl_events (ctl_cluster (snd (configmap_syncHandler e key st))) = cl_events (ctl_cluster st) @ [ev]
        \<and> ev_Type ev = EventTypeWarning \<and> ev_Object ev = mp_Meta p)"
  unfolding configmap_syncHandler_def with_observed_proxy_current [OF assms(1-3)]
  by (simp add: configmap_sync_def GetConfigMapsForProxy_eq(1) [OF assms(4-6)] sync_no_new_def configMapForProxy_def assms(7)
      configmap_recordEvent_def record_event_def Let_def)

text \<open>
  C8. The hand-over: once the deployment's new replica set exists, the proxy's one config map is updated. Its owner references are those it
  had, in their order, without those to the proxy, followed by one to the replica set if there was none; so it is owned by the replica
  set and no longer by the proxy. All else, labels, annotations and data included, is kept. In the cache it has stopped being a
  new config map of the proxy, so that the next sync looks at the cluster's state again.
\<close>

theorem configmap_sync_hands_over:
  assumes "SplitMetaNamespaceKey key = Inr (ns, name)" and "get_proxy (ctl_cluster st) ns name = Inr p"
    and "om_Generation (mp_Meta p) = st_ObservedGeneration (mp_Status p)"
    and "cluster_inv (ctl_cluster st)" and "permutes_keys (env_range e)" and "owned_configmaps (ctl_cluster st) p = {cm}"
    and "getNewRSForProxy e (ctl_cluster st) p = Inr (Some rs)" and "om_UID (rs_Meta rs) \<noteq> om_UID (mp_Meta p)"
  shows "\<exists>refs cm'. cl_actions (ctl_cluster (snd (configmap_syncHandler e key st)))
      = cl_actions (ctl_cluster st) @ [UpdateConfigMap (om_Namespace (cm_Meta cm)) cm']
    \<and> cm' = cm\<lparr>cm_Meta := (cm_Meta cm)\<lparr>om_OwnerReferences := refs\<rparr>\<rparr>
    \<and> refs = filter (\<lambda>ref. ref_UID ref \<noteq> om_UID (mp_Meta p)) (om_OwnerReferences (cm_Meta cm))
        @ (if IsOwnedBy (cm_Meta cm) (rs_Meta rs) then [] else [NewOwnerRef (rs_Meta rs) replicaSetType])
    \<and> IsOwnedBy (cm_Meta cm') (rs_Meta rs) \<and> \<not> IsOwnedBy (cm_Meta cm') (mp_Meta p)
    \<and> owned_configmaps (ctl_cluster (snd (configmap_syncHandler e key st))) p = {}"
proof -
  let ?refs = "handed_over_refs p rs cm"
  note over = handed_over [OF assms(8), of cm]
  have "configmap_syncHandler e key st = sync_one_new e key p cm st"
    unfolding configmap_syncHandler_def with_observed_proxy_current [OF assms(1-3)]
    by (simp add: configmap_sync_def GetConfigMapsForProxy_eq(2) [OF assms(4-6)])
  moreover have "owned_configmaps (mutate_cm cm ?refs (ctl_cluster st)) p = {}"
    by (rule owned_after_mutate [OF assms(4,6) over(2)])
  ultimately show ?thesis
    using over
    by (intro exI [of _ ?refs] exI [of _ "set_refs ?refs cm"])
      (auto simp: sync_one_new_def applyOwnerRefToCM_def assms(7) update_cm_eq recordConfigMapEvent_def Let_def
        owned_configmaps_def set_refs_def split: sum.split)
qed

text \<open>
  Before the replica set exists nothing is sent, and the key comes back in one second.
\<close>

theorem configmap_sync_waits_for_replicaset:
  assumes "SplitMetaNamespaceKey key = Inr (ns, name)" and "get_proxy (ctl_cluster st) ns name = Inr p"
    and "om_Generation (mp_Meta p) = st_ObservedGeneration (mp_Status p)"
    and "cluster_inv (ctl_cluster st)" and "permutes_keys (env_range e)" and "owned_configmaps (ctl_cluster st) p = {cm}"
    and "getNewRSForProxy e (ctl_cluster st) p = Inr None" and "\<not> q_shuttingDown (ctl_queue st)"
  shows "\<exists>st'. configmap_syncHandler e key st = (RetNil, st') \<and> ctl_cluster st' = ctl_cluster st
    \<and> dl_waitCh (ctl_queue st') = dl_waitCh (ctl_queue st) @ [(StringItem key, dl_now (ctl_queue st) + second)]"
  unfolding configmap_syncHandler_def with_observed_proxy_current [OF assms(1-3)]
  using assms(8)
  by (simp add: configmap_sync_def GetConfigMapsForProxy_eq(2) [OF assms(4-6)] sync_one_new_def applyOwnerRefToCM_def assms(7)
      AddAfter_def second_def)

text \<open>
  With more than one new config map the controller does not recover: a sync returns nil and changes nothing, so
  the key is neither retried nor is anything removed.
\<close>

theorem several_configmaps_not_recovered:
  assumes "SplitMetaNamespaceKey key = Inr (ns, name)" and "get_proxy (ctl_cluster st) ns name = Inr p"
    and "om_Generation (mp_Meta p) = st_ObservedGeneration (mp_Status p)"
    and "cluster_inv (ctl_cluster st)" and "permutes_keys (env_range e)" and "card (owned_configmaps (ctl_cluster st) p) > 1"
  shows "configmap_syncHandler e key st = (RetNil, st)"
  unfolding configmap_syncHandler_def with_observed_proxy_current [OF assms(1-3)]
  using GetConfigMapsForProxy_eq(3) [OF assms(4-6)] by (auto simp: configmap_sync_def)

text \<open>
  \<open>EqualIgnoreHash\<close> is an equivalence relation on pod templates that does not see the label
  \<open>pod-template-hash\<close>: setting it on either side changes nothing.
\<close>

theorem EqualIgnoreHash_equivalence:
  "equivp EqualIgnoreHash \<and> EqualIgnoreHash (set_hash h t) u = EqualIgnoreHash t u
   \<and> EqualIgnoreHash t (set_hash h u) = EqualIgnoreHash t u"
proof -
  have "equivp EqualIgnoreHash"
    by (intro equivpI reflpI sympI transpI) (auto simp: EqualIgnoreHash_iff)
  moreover have "drop_labels (set_hash h t) = drop_labels t" for t by (simp add: drop_labels_def set_hash_def)
  ultimately show ?thesis by (auto simp: EqualIgnoreHash_iff set_hash_def)
qed

text \<open>
  C35. The worker loop of the config map controller never crashes and comes to rest within one unit of fuel more
  than there are pending keys.
\<close>

theorem configmap_worker_drains:
  assumes "wq_inv (ctl_queue st)" and "q_processing (ctl_queue st) = {}"
    and "finite (q_dirty (ctl_queue st))" and "card (q_dirty (ctl_queue st)) < fuel"
  shows "fst (configmap_worker e fuel st) = (if q_shuttingDown (ctl_queue st) then Returned else Waiting)
    \<and> q_dirty (ctl_queue (snd (configmap_worker e fuel st))) = {}"
  unfolding configmap_worker_def by (rule configmap_loop.worker_drains [OF assms])

section \<open>Examples\<close>

lemma sharded_start:
  "SplitMetaNamespaceKey ''default/sharded-example'' = Inr (''default'', ''sharded-example'')"
  "get_proxy (ctl_cluster (start serving_cluster)) ''default'' ''sharded-example'' = Inr sharded_proxy"
  "om_Generation (mp_Meta sharded_proxy) = st_ObservedGeneration (mp_Status sharded_proxy)"
  "owned_configmaps serving_cluster p = {}"
proof -
  show "SplitMetaNamespaceKey ''default/sharded-example'' = Inr (''default'', ''sharded-example'')"
    using SplitMetaNamespaceKey_pair [of "''default''" "''sharded-example''"] by simp
  have key: "meta_key (mp_Meta sharded_proxy) = ''default/sharded-example''"
    by (simp add: meta_key_def sharded_proxy_def)
  show "get_proxy (ctl_cluster (start serving_cluster)) ''default'' ''sharded-example'' = Inr sharded_proxy"
    using lister_Get_single [of mp_Meta sharded_proxy] key by (simp add: get_proxy_def serving_cluster_def)
  show "om_Generation (mp_Meta sharded_proxy) = st_ObservedGeneration (mp_Status sharded_proxy)"
    by (simp add: sharded_proxy_def)
  show "owned_configmaps serving_cluster p = {}"
    by (simp add: owned_configmaps_def serving_cluster_def empty_cluster_def objects_def new_indexer_def)
qed

theorem configmap_sync_creates_witness:
  "\<exists>cm config. configForProxy accepting_env serving_cluster sharded_proxy = Inr config
    \<and> cl_actions (ctl_cluster (snd (configmap_syncHandler accepting_env ''default/sharded-example'' (start serving_cluster))))
        = [CreateConfigMap ''default'' cm]
    \<and> map_of (cm_Data cm) = [''config.json'' \<mapsto> config_json config]"
proof -
  obtain config where config: "configForProxy accepting_env serving_cluster sharded_proxy = Inr config"
    by (rule config_example)
  have none: "isl (lister_Get ''configmap'' (cl_configmaps (ctl_cluster (start serving_cluster))) ns n)" for ns n
    by (simp add: lister_Get_def serving_cluster_def empty_cluster_def new_indexer_def ix_GetByKey_def)
  have empty: "cl_actions serving_cluster = []" by (simp add: serving_cluster_def empty_cluster_def)
  show ?thesis
    using configmap_sync_creates [OF sharded_start(1-3) _ permutes_keys_accepting(1) _ _ _ none] config
      cluster_inv_serving sharded_start(4) empty
    by auto
qed

theorem configmap_sync_render_error_witness:
  "\<exists>err. fst (configmap_syncHandler accepting_env ''default/example'' (start observed_cluster)) = RetErr err
    \<and> cl_actions (ctl_cluster (snd (configmap_syncHandler accepting_env ''default/example'' (start observed_cluster)))) = []"
proof -
  have "\<not> renderable observed_cluster observed_proxy"
    by (rule nested_type_not_renderable [of example_proxy "''replicated''" "elems (rs_Children (spec_Rules (mp_Spec example_proxy)))"
          "hd (elems (rs_Children (spec_Rules (mp_Spec example_proxy))))"])
      (simp_all add: example_proxy_def observed_proxy_def)
  then obtain err where err: "configForProxy accepting_env observed_cluster observed_proxy = Inl err"
    using configForProxy_not_renderable [OF permutes_keys_accepting(1)] by (auto simp: isl_def)
  have get: "get_proxy (ctl_cluster (start observed_cluster)) ''default'' ''example'' = Inr observed_proxy"
    by (simp add: get_observed_proxy observed_cluster_def)
  have none: "owned_configmaps observed_cluster observed_proxy = {}" "cl_actions observed_cluster = []"
    by (simp_all add: owned_configmaps_def observed_cluster_def empty_cluster_def objects_def new_indexer_def)
  show ?thesis
    using configmap_sync_render_error [OF example_key get observed_proxy_simps(2) _ permutes_keys_accepting(1)] err
      cluster_inv_observed none
    by auto
qed

lemma configmap_start:
  "get_proxy (ctl_cluster (start rolled_cluster)) ''default'' ''example'' = Inr observed_proxy"
  "get_proxy (ctl_cluster (start crowded_cluster)) ''default'' ''example'' = Inr observed_proxy"
  by (simp_all add: get_observed_proxy rolled_cluster_def crowded_cluster_def deployed_cluster_def configured_cluster_def
      observed_cluster_def)

lemma cluster_inv_configmaps: "cluster_inv rolled_cluster" "cluster_inv crowded_cluster"
  using cluster_inv_deployments(2) cluster_inv_observed
  by (simp_all add: cluster_inv_def rolled_cluster_def crowded_cluster_def ix_Add_inv ix_inv_empty)

lemma owned_configmaps_stages:
  "owned_configmaps rolled_cluster observed_proxy = {example_configmap}"
  "owned_configmaps deployed_cluster observed_proxy = {example_configmap}"
  by (simp_all add: owned_configmaps_configured rolled_cluster_def deployed_cluster_def configured_cluster_def)

lemma getNewRSForProxy_own_selector:
  assumes "GetDeploymentsForProxy e cl p = (Some d, ds, None)"
    and "d_Selector d = Some \<lparr>ls_MatchLabels = GetProxyServiceSelector p, ls_MatchExpressions = []\<rparr>"
    and "\<forall>(k, v) \<in> set (GetProxyServiceSelector p). env_validLabelKey e k \<and> env_validLabelValue e v"
    and "cluster_inv cl" and "permutes_keys (env_range e)"
  obtains xs where "getNewRSForProxy e cl p = Inr (List.find (\<lambda>rs. EqualIgnoreHash (rs_Template rs) (d_Template d)) xs)"
    and "set xs = {rs \<in> objects (cl_replicasets cl). (om_Namespace (mp_Meta p) = [] \<or> om_Namespace (rs_Meta rs) = om_Namespace (mp_Meta p))
      \<and> Matches (Requirements (map (\<lambda>(k, v). ReqIn k [v]) (GetProxyServiceSelector p))) (om_Labels (rs_Meta rs))}"
proof -
  let ?sel = "Requirements (map (\<lambda>(k, v). ReqIn k [v]) (GetProxyServiceSelector p))"
  have inv: "ix_inv rs_Meta (cl_replicasets cl)" using assms(4) by (simp add: cluster_inv_def)
  obtain ys where ys: "ListAllByNamespace (env_range e RangeReplicaSets) rs_Meta (cl_replicasets cl) (om_Namespace (mp_Meta p)) ?sel
      = Inr (filter (\<lambda>x. Matches ?sel (om_Labels (rs_Meta x))) ys)"
    "set ys = {x \<in> objects (cl_replicasets cl). om_Namespace (mp_Meta p) = [] \<or> om_Namespace (rs_Meta x) = om_Namespace (mp_Meta p)}"
    using ListAllByNamespace_eq [OF inv permutes_keysD [OF assms(5)]] by blast
  have "GetProxyServiceSelector p \<noteq> []" by (simp add: GetProxyServiceSelector_def)
  then have "LabelSelectorAsSelector (env_validLabelKey e) (env_validLabelValue e) (d_Selector d) = Inr ?sel"
    using selector_labels_Inr [OF assms(3)] by (simp add: LabelSelectorAsSelector_def assms(2))
  then show ?thesis
    using ys by (intro that [of "filter (\<lambda>x. Matches ?sel (om_Labels (rs_Meta x))) ys"]) (auto simp: getNewRSForProxy_def assms(1))
qed

lemma newest_replicasets:
  "getNewRSForProxy accepting_env rolled_cluster observed_proxy = Inr (Some example_replicaset)"
  "getNewRSForProxy accepting_env deployed_cluster observed_proxy = Inr None"
proof -
  let ?sel = "Requirements (map (\<lambda>(k, v). ReqIn k [v]) (GetProxyServiceSelector observed_proxy))"
  have sel: "d_Selector (old_deployment ''a'' 1) = Some \<lparr>ls_MatchLabels = GetProxyServiceSelector observed_proxy, ls_MatchExpressions = []\<rparr>"
    by (simp add: old_deployment_def desired_deployment_def)
  have valid: "\<forall>(k, v) \<in> set (GetProxyServiceSelector observed_proxy). env_validLabelKey accepting_env k \<and> env_validLabelValue accepting_env v"
    by (simp add: accepting_env_def)
  have "owned_deployments rolled_cluster observed_proxy = {old_deployment ''a'' 1}"
    using owned_deployments_examples(2) by (simp add: owned_deployments_def rolled_cluster_def)
  then have dep: "GetDeploymentsForProxy accepting_env rolled_cluster observed_proxy = (Some (old_deployment ''a'' 1), [], None)"
    by (intro GetDeploymentsForProxy_one) (simp_all add: cluster_inv_configmaps)
  have dep': "GetDeploymentsForProxy accepting_env deployed_cluster observed_proxy = (Some (old_deployment ''a'' 1), [], None)"
    using deployment_lookups(1) by simp
  have rs: "objects (cl_replicasets rolled_cluster) = {example_replicaset}" "objects (cl_replicasets deployed_cluster) = {}"
    by (simp_all add: rolled_cluster_def deployed_cluster_def configured_cluster_def observed_cluster_def empty_cluster_def
        objects_def ix_Add_def Let_def new_indexer_def)
  have own: "om_Namespace (rs_Meta example_replicaset) = ''default''" "om_Labels (rs_Meta example_replicaset) = GetProxyServiceSelector observed_proxy"
    "EqualIgnoreHash (rs_Template example_replicaset) (d_Template (old_deployment ''a'' 1))"
    by (simp_all add: example_replicaset_def EqualIgnoreHash_iff set_hash_def drop_labels_def)
  have "x = example_replicaset" if "List.find P xs = Some x" "set xs = {example_replicaset}" for x P xs
    using that by (metis find_Some_iff nth_mem singletonD)
  moreover have "List.find P xs \<noteq> None" if "P example_replicaset" "set xs = {example_replicaset}" for P xs
    using that by (auto simp: find_None_iff)
  moreover have "{r \<in> objects (cl_replicasets rolled_cluster). (om_Namespace (mp_Meta observed_proxy) = []
        \<or> om_Namespace (rs_Meta r) = om_Namespace (mp_Meta observed_proxy)) \<and> Matches ?sel (om_Labels (rs_Meta r))} = {example_replicaset}"
    using own Matches_own_labels [OF distinct_keys_selector [of observed_proxy]] unfolding rs by auto
  then obtain xs where "getNewRSForProxy accepting_env rolled_cluster observed_proxy
      = Inr (List.find (\<lambda>rs. EqualIgnoreHash (rs_Template rs) (d_Template (old_deployment ''a'' 1))) xs)"
    "set xs = {example_replicaset}"
    using getNewRSForProxy_own_selector [OF dep sel valid cluster_inv_configmaps(1) permutes_keys_accepting(1)] by metis
  ultimately show "getNewRSForProxy accepting_env rolled_cluster observed_proxy = Inr (Some example_replicaset)"
    using own(3) by (metis option.exhaust)
  show "getNewRSForProxy accepting_env deployed_cluster observed_proxy = Inr None"
    by (rule getNewRSForProxy_own_selector [OF dep' sel valid cluster_inv_deployments(2) permutes_keys_accepting(1)])
      (simp add: rs)
qed

theorem configmap_sync_hands_over_witness:
  "\<exists>cm'. cl_actions (ctl_cluster (snd (configmap_syncHandler accepting_env ''default/example'' (start rolled_cluster))))
      = [UpdateConfigMap ''default'' cm'] \<and> IsOwnedBy (cm_Meta cm') (rs_Meta example_replicaset)
      \<and> \<not> IsOwnedBy (cm_Meta cm') (mp_Meta observed_proxy)"
proof -
  have "om_UID (rs_Meta example_replicaset) \<noteq> om_UID (mp_Meta observed_proxy)" "cl_actions rolled_cluster = []"
    "om_Namespace (cm_Meta example_configmap) = ''default''"
    by (simp_all add: example_replicaset_def example_proxy_def example_configmap_def rolled_cluster_def deployed_cluster_def
        configured_cluster_def observed_cluster_def empty_cluster_def)
  then show ?thesis
    using configmap_sync_hands_over [OF example_key configmap_start(1) observed_proxy_simps(2) _ permutes_keys_accepting(1),
        of example_configmap example_replicaset] cluster_inv_configmaps(1) owned_configmaps_stages(1) newest_replicasets(1)
    by auto
qed

theorem configmap_sync_waits_for_replicaset_witness:
  "ctl_cluster (snd (configmap_syncHandler accepting_env ''default/example'' (start deployed_cluster))) = deployed_cluster"
  using configmap_sync_waits_for_replicaset [OF example_key deployment_start(2) observed_proxy_simps(2) _ permutes_keys_accepting(1),
        of example_configmap] cluster_inv_deployments(2) owned_configmaps_stages(2) newest_replicasets(2)
  by auto

theorem several_configmaps_not_recovered_witness:
  "card (owned_configmaps crowded_cluster observed_proxy) = 2
   \<and> configmap_syncHandler accepting_env ''default/example'' (start crowded_cluster) = (RetNil, start crowded_cluster)"
proof -
  let ?cm = "example_configmap\<lparr>cm_Meta := (cm_Meta example_configmap)\<lparr>om_Name := ''example-config-11111''\<rparr>\<rparr>"
  have key: "meta_key (cm_Meta ?cm) \<noteq> meta_key (cm_Meta example_configmap)"
    by (simp add: example_configmap_def meta_key_def)
  then have ne: "?cm \<noteq> example_configmap" by metis
  have "objects (cl_configmaps crowded_cluster) = {?cm, example_configmap}"
    using key by (simp add: crowded_cluster_def objects_def ix_Add_def Let_def new_indexer_def) auto
  moreover have "IsControlledBy (cm_Meta ?cm) (mp_Meta observed_proxy)" "IsControlledBy (cm_Meta example_configmap) (mp_Meta observed_proxy)"
    by (rule IsControlledBy_NewProxyOwnerRef, simp add: example_configmap_def NewProxyOwnerRef_def)+
  moreover have "om_Namespace (cm_Meta ?cm) = ''default''" "om_Namespace (cm_Meta example_configmap) = ''default''"
    by (simp_all add: example_configmap_def)
  ultimately have "owned_configmaps crowded_cluster observed_proxy = {?cm, example_configmap}"
    by (auto simp: owned_configmaps_def)
  then have card: "card (owned_configmaps crowded_cluster observed_proxy) = 2" using ne by simp
  with several_configmaps_not_recovered [OF example_key configmap_start(2) observed_proxy_simps(2) _ permutes_keys_accepting(1)]
    cluster_inv_configmaps(2)
  show ?thesis by simp
qed

theorem configmap_worker_drains_witness:
  "let st = on_queue (wq_Add (StringItem ''default/example'')) (start crowded_cluster)
   in card (q_dirty (ctl_queue st)) = 1 \<and> fst (configmap_worker refusing_env 2 st) = Waiting"
proof -
  let ?st = "on_queue (wq_Add (StringItem ''default/example'')) (start crowded_cluster)"
  have "wq_inv (ctl_queue ?st)" using wq_Add_inv [OF wq_inv_start] by simp
  moreover have "q_dirty (ctl_queue ?st) = {StringItem ''default/example''}" "q_processing (ctl_queue ?st) = {}"
    "\<not> q_shuttingDown (ctl_queue ?st)"
    by simp_all
  ultimately show ?thesis using configmap_worker_drains [of ?st 2 refusing_env] by (simp add: Let_def)
qed

end
