(* ===== verification/GoPath.thy ===== *)
theory GoPath
  imports Prelude
begin

text \<open>
  Go's package \<open>path\<close>, as far as the REST client uses it to put URLs together: \<open>Clean\<close> and \<open>Join\<close>. A path is
  rooted when it begins with a slash. \<open>segments\<close> gives the parts of a path; the lemmas say what \<open>Join\<close> does to
  rooted paths whose segments are plain, that is, neither a dot nor two dots.
\<close>

section \<open>Definitions\<close>

abbreviation slash :: char where "slash \<equiv> CHR ''/''"

fun join_slash :: "string list \<Rightarrow> string" where
  \<comment> \<open>\<open>strings.Join(elem, "/")\<close>\<close>
  "join_slash [] = []"
| "join_slash [x] = x"
| "join_slash (x # y # xs) = x @ slash # join_slash (y # xs)"

fun clean_parts :: "bool \<Rightarrow> string list \<Rightarrow> string list \<Rightarrow> string list" where
  \<comment> \<open>the loop of \<open>Clean\<close>, part by part; the second argument is the output so far, in reverse\<close>
  "clean_parts rooted out [] = rev out"
| "clean_parts rooted out (p # ps) =
     (if p = [] \<or> p = ''.'' then clean_parts rooted out ps
      else if p = ''..'' then
        (case out of
           [] \<Rightarrow> clean_parts rooted (if rooted then [] else [p]) ps
         | q # qs \<Rightarrow> clean_parts rooted (if q = ''..'' then p # out else qs) ps)
      else clean_parts rooted (p # out) ps)"

definition Clean :: "string \<Rightarrow> string" where
  "Clean p =
     (if p = [] then ''.''
      else let rooted = (hd p = slash); out = join_slash (clean_parts rooted [] (Split slash p))
           in if rooted then slash # out else if out = [] then ''.'' else out)"

definition path_Join :: "string list \<Rightarrow> string" where
  "path_Join elem = (case dropWhile (\<lambda>e. e = []) elem of [] \<Rightarrow> [] | es \<Rightarrow> Clean (join_slash es))"

definition segments :: "string \<Rightarrow> string list" where
  "segments p = filter (\<lambda>s. s \<noteq> []) (Split slash p)"

definition plain :: "string \<Rightarrow> bool" where
  "plain s \<longleftrightarrow> s \<noteq> ''.'' \<and> s \<noteq> ''..''"

definition slash_each :: "string list \<Rightarrow> string" where
  \<comment> \<open>the rooted path with these segments\<close>
  "slash_each ss = (if ss = [] then [slash] else concat (map (\<lambda>s. slash # s) ss))"

section \<open>Lemmas\<close>

lemma Split_append_slash: "Split sep (s @ sep # t) = Split sep s @ Split sep t"
proof (induction s)
  case (Cons c s)
  then show ?case by (cases "Split sep s") auto
qed simp

lemma segments_Nil [simp]: "segments [] = []"
  by (simp add: segments_def)

lemma segments_append [simp]: "segments (s @ slash # t) = segments s @ segments t"
  by (simp add: segments_def Split_append_slash)

lemma segments_slash [simp]: "segments (slash # t) = segments t"
  using segments_append [of "[]" t] by simp

lemma segments_join [simp]: "segments (join_slash xs) = concat (map segments xs)"
  by (induction xs rule: join_slash.induct) simp_all

lemma segments_single: "slash \<notin> set s \<Longrightarrow> segments s = (if s = [] then [] else [s])"
  by (simp add: segments_def Split_no_sep)

lemma Split_no_slash: "s \<in> set (Split sep p) \<Longrightarrow> sep \<notin> set s"
proof (induction p arbitrary: s)
  case (Cons c p)
  then show ?case by (cases "Split sep p") (auto split: if_splits)
qed simp

lemma segments_no_slash: "s \<in> set (segments p) \<Longrightarrow> s \<noteq> [] \<and> slash \<notin> set s"
  using Split_no_slash by (auto simp: segments_def)

lemma segments_slashed:
  assumes "\<forall>s \<in> set ss. s \<noteq> [] \<and> slash \<notin> set s"
  shows "segments (slash_each ss) = ss"
proof -
  have *: "segments (concat (map (\<lambda>s. slash # s) ss)) = ss" if "\<forall>s \<in> set ss. s \<noteq> [] \<and> slash \<notin> set s" for ss
    using that
  proof (induction ss)
    case (Cons s ss)
    show ?case
    proof (cases ss)
      case (Cons t ts)
      then have "concat (map (\<lambda>s. slash # s) (s # ss)) = slash # (s @ slash # (t @ concat (map (\<lambda>s. slash # s) ts)))"
        by simp
      then show ?thesis using Cons.IH Cons.prems \<open>ss = t # ts\<close>
        by (simp add: segments_single)
    qed (use Cons.prems in \<open>simp add: segments_single\<close>)
  qed simp
  show ?thesis using * [OF assms] segments_slash [of "[]"] by (simp add: slash_each_def)
qed

lemma slashed_inject:
  assumes "slash_each ss = slash_each ts"
    and "\<forall>s \<in> set ss. s \<noteq> [] \<and> slash \<notin> set s" and "\<forall>s \<in> set ts. s \<noteq> [] \<and> slash \<notin> set s"
  shows "ss = ts"
  using segments_slashed [OF assms(2)] segments_slashed [OF assms(3)] assms(1) by metis

lemma clean_parts_plain:
  "\<forall>p \<in> set ps. p \<noteq> [] \<longrightarrow> plain p \<Longrightarrow> clean_parts rooted out ps = rev out @ filter (\<lambda>s. s \<noteq> []) ps"
proof (induction ps arbitrary: out)
  case (Cons p ps)
  show ?case
  proof (cases "p = []")
    case False
    then have "p \<noteq> ''.''" "p \<noteq> ''..''" using Cons.prems by (simp_all add: plain_def)
    then show ?thesis using Cons.IH [of "p # out"] Cons.prems False by simp
  qed (use Cons.IH [of out] Cons.prems in simp)
qed simp

lemma join_slash_concat: "xs \<noteq> [] \<Longrightarrow> slash # join_slash xs = concat (map (\<lambda>s. slash # s) xs)"
  by (induction xs rule: join_slash.induct) simp_all

lemma Clean_plain:
  assumes "hd p = slash" and "p \<noteq> []" and "\<forall>s \<in> set (segments p). plain s"
  shows "Clean p = slash_each (segments p)"
proof -
  have parts: "\<forall>s \<in> set (Split slash p). s \<noteq> [] \<longrightarrow> plain s" using assms(3) by (auto simp: segments_def)
  have "Clean p = slash # join_slash (segments p)"
    using assms(1,2) clean_parts_plain [OF parts] by (simp add: Clean_def Let_def segments_def)
  then show ?thesis using join_slash_concat by (auto simp: slash_each_def)
qed

lemma path_Join_plain:
  assumes "hd p = slash" and "p \<noteq> []" and "\<forall>x \<in> set (p # xs). \<forall>s \<in> set (segments x). plain s"
  shows "path_Join (p # xs) = slash_each (segments p @ concat (map segments xs))"
proof -
  obtain t where join: "join_slash (p # xs) = p @ t" by (cases xs) auto
  then have "hd (join_slash (p # xs)) = slash" "join_slash (p # xs) \<noteq> []" using assms(1,2) by simp_all
  moreover have "\<forall>s \<in> set (segments (join_slash (p # xs))). plain s" using assms(3) by (simp only: segments_join) auto
  ultimately have "Clean (join_slash (p # xs)) = slash_each (segments (join_slash (p # xs)))" by (rule Clean_plain)
  then show ?thesis using assms(2) by (simp only: segments_join path_Join_def) simp
qed

lemma slashed_rooted [simp]: "hd (slash_each ss) = slash" "slash_each ss \<noteq> []"
  by (cases ss; simp add: slash_each_def)+

lemma path_Join_slashed:
  assumes "\<forall>s \<in> set ss. s \<noteq> [] \<and> slash \<notin> set s \<and> plain s" and "\<forall>x \<in> set xs. \<forall>s \<in> set (segments x). plain s"
  shows "path_Join (slash_each ss # xs) = slash_each (ss @ concat (map segments xs))"
proof -
  have "segments (slash_each ss) = ss" using assms(1) by (intro segments_slashed) blast
  then show ?thesis using path_Join_plain [of "slash_each ss" xs] assms by auto
qed

lemma Clean_relative:
  assumes "hd p \<noteq> slash" and "segments p \<noteq> []" and "\<forall>s \<in> set (segments p). plain s"
  shows "Clean p = join_slash (segments p)"
proof -
  have "p \<noteq> []" using assms(2) by auto
  moreover have "\<forall>s \<in> set (Split slash p). s \<noteq> [] \<longrightarrow> plain s" using assms(3) by (simp add: segments_def)
  then have "clean_parts False [] (Split slash p) = segments p" by (simp add: clean_parts_plain segments_def)
  moreover have "join_slash (segments p) \<noteq> []"
  proof (cases "segments p")
    case (Cons s ss)
    then have "s \<noteq> []" using segments_no_slash [of s p] by simp
    then show ?thesis unfolding Cons by (cases ss) simp_all
  qed (use assms(2) in simp)
  ultimately show ?thesis using assms(1) by (simp add: Clean_def Let_def)
qed

lemma filter_dropWhile_Nil: "filter (\<lambda>s. s \<noteq> []) (dropWhile (\<lambda>s. s = []) xs) = filter (\<lambda>s. s \<noteq> []) xs"
  by (induction xs) auto

lemma path_Join_relative:
  assumes "\<forall>s \<in> set subs. slash \<notin> set s \<and> plain s"
  shows "segments (path_Join subs) = filter (\<lambda>s. s \<noteq> []) subs"
proof -
  have single: "concat (map segments xs) = filter (\<lambda>s. s \<noteq> []) xs" if "set xs \<subseteq> set subs" for xs
    using that assms by (induction xs) (auto simp: segments_single)
  show ?thesis
  proof (cases "dropWhile (\<lambda>e. e = []) subs")
    case Nil
    have "path_Join subs = []" unfolding path_Join_def Nil by simp
    moreover have "filter (\<lambda>s. s \<noteq> []) subs = []" using filter_dropWhile_Nil [of subs] unfolding Nil by simp
    ultimately show ?thesis by simp
  next
    case (Cons e es)
    let ?p = "join_slash (e # es)"
    have e: "e \<noteq> []" using hd_dropWhile [of "\<lambda>e. e = []" subs] unfolding Cons by simp
    have sub: "set (e # es) \<subseteq> set subs" using set_dropWhileD [of _ "\<lambda>e. e = []" subs] unfolding Cons by blast
    have segs: "segments ?p = filter (\<lambda>s. s \<noteq> []) subs"
      using single [OF sub] filter_dropWhile_Nil [of subs] unfolding Cons by (simp only: segments_join)
    have "hd ?p = hd e" using e by (cases es) simp_all
    moreover have "hd e \<in> set e" using e by simp
    ultimately have "hd ?p \<noteq> slash" using assms sub by auto
    moreover have "segments ?p \<noteq> []" using segs sub e by (auto simp: filter_empty_conv)
    moreover have "\<forall>s \<in> set (segments ?p). plain s" using segs assms by simp
    ultimately have "Clean ?p = join_slash (segments ?p)" by (rule Clean_relative)
    then have "path_Join subs = join_slash (filter (\<lambda>s. s \<noteq> []) subs)" using segs unfolding path_Join_def Cons by simp
    then show ?thesis using single [of "filter (\<lambda>s. s \<noteq> []) subs"] by (simp add: segments_join)
  qed
qed

end
