(* ===== verification/Rest.thy ===== *)
theory Rest
  imports ApiTypes GoPath
begin

text \<open>
  client-go's REST client (vendor/k8s.io/client-go/rest: request.go, client.go, config.go, url\_utils.go), which the
  generated clients use to talk to the API server: a request is put together step by step, each step may record an error,
  and the request is sent, with a bounded number of retries, unless there is one.

  Parameters of the model are the network, a function from the requests sent so far and the next request to a
  reply, and the codecs, which encode objects and options and decode answers. Of an HTTP request the model keeps method,
  path, query, headers and body; throttling, back-off sleeps, metrics and logging are left out.
\<close>

section \<open>HTTP\<close>

record http_request =
  hr_Method :: string
  hr_Path :: string
  hr_Query :: "(string \<times> string list) list"
  hr_Headers :: "(string \<times> string) list"
  hr_Body :: "string option"

record http_response =
  rp_StatusCode :: nat
  rp_RetryAfter :: "int option"
  rp_Body :: string

record http_failure =
  fl_error :: go_error
  fl_connectionReset :: bool
  fl_probableEOF :: bool

datatype reply = Failure http_failure | Response http_response

type_synonym log = "http_request list"
type_synonym network = "log \<Rightarrow> http_request \<Rightarrow> reply"

section \<open>Requests\<close>

record request =
  r_verb :: string
  r_pathPrefix :: string
  r_subpath :: string
  r_params :: "(string \<times> string list) list"
  r_headers :: "(string \<times> string) list"
  r_namespace :: string
  r_namespaceSet :: bool
  r_resource :: string
  r_resourceName :: string
  r_subresource :: string
  r_err :: "go_error option"
  r_body :: "string option"

record RESTClient =
  rc_basePath :: string
  rc_versionedAPIPath :: string
  rc_ContentType :: string

definition SetHeader :: "string \<Rightarrow> string \<Rightarrow> request \<Rightarrow> request" where
  "SetHeader key val r = r\<lparr>r_headers := map_put key val (r_headers r)\<rparr>"

definition NewRequest :: "string \<Rightarrow> RESTClient \<Rightarrow> request" where
  \<comment> \<open>the content type of a client is never empty (\<open>NewRESTClient\<close>), and no client of the operator sets \<open>AcceptContentTypes\<close>\<close>
  "NewRequest verb c =
     SetHeader ''Accept'' (rc_ContentType c @ '', */*'')
       \<lparr>r_verb = verb, r_pathPrefix = path_Join [path_Join [[slash], rc_basePath c], rc_versionedAPIPath c],
        r_subpath = [], r_params = [], r_headers = [], r_namespace = [], r_namespaceSet = False, r_resource = [],
        r_resourceName = [], r_subresource = [], r_err = None, r_body = None\<rparr>"

definition unless_err :: "(request \<Rightarrow> request) \<Rightarrow> request \<Rightarrow> request" where
  \<comment> \<open>\<open>if r.err != nil { return r }\<close>\<close>
  "unless_err f r = (if r_err r \<noteq> None then r else f r)"

definition fail :: "string \<Rightarrow> request \<Rightarrow> request" where
  "fail msg r = r\<lparr>r_err := Some (ErrorString msg)\<rparr>"

definition apostrophes :: "string \<Rightarrow> string" where
  "apostrophes s = [CHR 0x27] @ s @ [CHR 0x27]"

definition IsValidPathSegmentName :: "string \<Rightarrow> string list" where
  "IsValidPathSegmentName name =
     (if name = ''.'' \<or> name = ''..'' then [''may not be '' @ apostrophes name]
      else (if CHR ''/'' \<in> set name then [''may not contain '' @ apostrophes ''/''] else [])
         @ (if CHR ''%'' \<in> set name then [''may not contain '' @ apostrophes ''%''] else []))"

fun join_space :: "string list \<Rightarrow> string" where
  "join_space [] = []"
| "join_space [x] = x"
| "join_space (x # y # xs) = x @ '' '' @ join_space (y # xs)"

definition invalid :: "string \<Rightarrow> string \<Rightarrow> request \<Rightarrow> request" where
  \<comment> \<open>\<open>fmt.Errorf("invalid ... %q: %v", s, msgs)\<close>\<close>
  "invalid what s =
     fail (''invalid '' @ what @ '' '' @ Quote s @ '': ['' @ join_space (IsValidPathSegmentName s) @ '']'')"

definition Resource :: "string \<Rightarrow> request \<Rightarrow> request" where
  "Resource resource = unless_err (\<lambda>r.
     if r_resource r \<noteq> [] then
       fail (''resource already set to '' @ Quote (r_resource r) @ '', cannot change to '' @ Quote resource) r
     else if IsValidPathSegmentName resource \<noteq> [] then invalid ''resource'' resource r
     else r\<lparr>r_resource := resource\<rparr>)"

definition SubResource :: "string list \<Rightarrow> request \<Rightarrow> request" where
  "SubResource subresources = unless_err (\<lambda>r.
     if r_subresource r \<noteq> [] then
       fail (''subresource already set to '' @ Quote (r_resource r) @ '', cannot change to '' @ Quote (path_Join subresources)) r
     else (case filter (\<lambda>s. IsValidPathSegmentName s \<noteq> []) subresources of
             s # _ \<Rightarrow> invalid ''subresource'' s r
           | [] \<Rightarrow> r\<lparr>r_subresource := path_Join subresources\<rparr>))"

definition Name :: "string \<Rightarrow> request \<Rightarrow> request" where
  "Name resourceName = unless_err (\<lambda>r.
     if resourceName = [] then fail ''resource name may not be empty'' r
     else if r_resourceName r \<noteq> [] then
       fail (''resource name already set to '' @ Quote (r_resourceName r) @ '', cannot change to '' @ Quote resourceName) r
     else if IsValidPathSegmentName resourceName \<noteq> [] then invalid ''resource name'' resourceName r
     else r\<lparr>r_resourceName := resourceName\<rparr>)"

definition Namespace :: "string \<Rightarrow> request \<Rightarrow> request" where
  "Namespace ns = unless_err (\<lambda>r.
     if r_namespaceSet r then
       fail (''namespace already set to '' @ Quote (r_namespace r) @ '', cannot change to '' @ Quote ns) r
     else if IsValidPathSegmentName ns \<noteq> [] then invalid ''namespace'' ns r
     else r\<lparr>r_namespaceSet := True, r_namespace := ns\<rparr>)"

fun add_params :: "(string \<times> string list) list \<Rightarrow> (string \<times> string list) list \<Rightarrow> (string \<times> string list) list" where
  \<comment> \<open>\<open>r.params[k] = append(r.params[k], v...)\<close>\<close>
  "add_params [] ps = ps"
| "add_params ((k, vs) # kvs) ps =
     add_params kvs (map_put k ((case map_of ps k of None \<Rightarrow> [] | Some us \<Rightarrow> us) @ vs) ps)"

definition VersionedParams :: "(go_error + (string \<times> string list) list) \<Rightarrow> request \<Rightarrow> request" where
  \<comment> \<open>the first argument is the result of \<open>codec.EncodeParameters\<close>\<close>
  "VersionedParams encoded = unless_err (\<lambda>r.
     case encoded of Inl err \<Rightarrow> r\<lparr>r_err := Some err\<rparr> | Inr ps \<Rightarrow> r\<lparr>r_params := add_params ps (r_params r)\<rparr>)"

datatype body_arg = Bytes string | NilObject | Encoded "go_error + string"

definition Body :: "string \<Rightarrow> body_arg \<Rightarrow> request \<Rightarrow> request" where
  \<comment> \<open>an object that is not nil is given by the result of \<open>runtime.Encode\<close>; the first argument is \<open>r.content.ContentType\<close>\<close>
  "Body contentType obj = unless_err (\<lambda>r.
     case obj of
       Bytes data \<Rightarrow> r\<lparr>r_body := Some data\<rparr>
     | NilObject \<Rightarrow> r
     | Encoded (Inl err) \<Rightarrow> r\<lparr>r_err := Some err\<rparr>
     | Encoded (Inr data) \<Rightarrow> SetHeader ''Content-Type'' contentType (r\<lparr>r_body := Some data\<rparr>))"

definition URL_path :: "request \<Rightarrow> string" where
  "URL_path r =
     (let p = r_pathPrefix r;
          p1 = (if r_namespaceSet r \<and> r_namespace r \<noteq> [] then path_Join [p, ''namespaces'', r_namespace r] else p);
          p2 = (if r_resource r \<noteq> [] then path_Join [p1, ToLower (r_resource r)] else p1)
      in if r_resourceName r \<noteq> [] \<or> r_subpath r \<noteq> [] \<or> r_subresource r \<noteq> []
         then path_Join [p2, r_resourceName r, r_subresource r, r_subpath r] else p2)"

definition to_http :: "request \<Rightarrow> http_request" where
  "to_http r = \<lparr>hr_Method = r_verb r, hr_Path = URL_path r, hr_Query = r_params r, hr_Headers = r_headers r, hr_Body = r_body r\<rparr>"

section \<open>Sending\<close>

definition checkWait :: "http_response \<Rightarrow> bool" where
  "checkWait resp \<longleftrightarrow> (rp_StatusCode resp = 429 \<or> rp_StatusCode resp \<ge> 500) \<and> rp_RetryAfter resp \<noteq> None"

definition maxRetries :: nat where "maxRetries = 10"

definition received :: "http_request \<Rightarrow> reply \<Rightarrow> go_error + http_response" where
  \<comment> \<open>a connection that was reset counts as a response that asks to wait, for a \<open>GET\<close> only\<close>
  "received q rep =
     (case rep of
        Failure f \<Rightarrow>
          (if \<not> fl_connectionReset f \<or> hr_Method q \<noteq> ''GET'' then Inl (fl_error f)
           else Inr \<lparr>rp_StatusCode = 500, rp_RetryAfter = Some 1, rp_Body = []\<rparr>)
      | Response resp \<Rightarrow> Inr resp)"

fun send :: "network \<Rightarrow> http_request \<Rightarrow> nat \<Rightarrow> log \<Rightarrow> (go_error + http_response) \<times> log" where
  \<comment> \<open>the loop of \<open>request\<close>; the number counts the attempts that are left after this one\<close>
  "send net q left log =
     (case received q (net log q) of
        Inl err \<Rightarrow> (Inl err, log @ [q])
      | Inr resp \<Rightarrow>
          (case left of
             0 \<Rightarrow> (Inr resp, log @ [q])
           | Suc left' \<Rightarrow> if checkWait resp then send net q left' (log @ [q]) else (Inr resp, log @ [q])))"

declare send.simps [simp del]

definition do_request :: "network \<Rightarrow> request \<Rightarrow> log \<Rightarrow> (go_error + http_response) \<times> log" where
  \<comment> \<open>\<open>Request.request\<close>\<close>
  "do_request net r log =
     (case r_err r of
        Some err \<Rightarrow> (Inl err, log)
      | None \<Rightarrow>
          if r_verb r \<in> {''GET'', ''PUT'', ''DELETE''} \<and> r_namespaceSet r \<and> r_resourceName r \<noteq> [] \<and> r_namespace r = [] then
            (Inl (ErrorString ''an empty namespace may not be set when a resource name is provided''), log)
          else if r_verb r = ''POST'' \<and> r_namespaceSet r \<and> r_namespace r = [] then
            (Inl (ErrorString ''an empty namespace may not be set during creation''), log)
          else send net (to_http r) (maxRetries - 1) log)"

definition transformResponse :: "(http_response \<Rightarrow> go_error) \<Rightarrow> http_response \<Rightarrow> go_error + string" where
  \<comment> \<open>the first argument makes the error of a response that is not a success: the \<open>Status\<close> in its body, or a generic one\<close>
  "transformResponse statusError resp =
     (if rp_StatusCode resp \<noteq> 101 \<and> (rp_StatusCode resp < 200 \<or> rp_StatusCode resp > 206) then Inl (statusError resp)
      else Inr (rp_Body resp))"

definition Do :: "network \<Rightarrow> (http_response \<Rightarrow> go_error) \<Rightarrow> request \<Rightarrow> log \<Rightarrow> (go_error + string) \<times> log" where
  "Do net statusError r log =
     (case do_request net r log of
        (Inl err, log') \<Rightarrow> (Inl err, log')
      | (Inr resp, log') \<Rightarrow> (transformResponse statusError resp, log'))"

definition Into :: "(string \<Rightarrow> 'o \<times> go_error option) \<Rightarrow> 'o \<Rightarrow> go_error + string \<Rightarrow> 'o \<times> go_error option" where
  \<comment> \<open>the object passed in is an empty one; it stays empty unless the decoder fills it\<close>
  "Into decode zero res =
     (case res of
        Inl err \<Rightarrow> (zero, Some err)
      | Inr body \<Rightarrow> if body = [] then (zero, Some (ErrorString ''0-length response'')) else decode body)"

definition Result_Error :: "go_error + string \<Rightarrow> go_error option" where
  "Result_Error res = (case res of Inl err \<Rightarrow> Some err | Inr _ \<Rightarrow> None)"

definition Watch :: "network \<Rightarrow> (http_response \<Rightarrow> go_error) \<Rightarrow> request \<Rightarrow> log \<Rightarrow> (go_error + string) \<times> log" where
  \<comment> \<open>one attempt; the answer stands for the stream, the empty one for a connection that was closed. The JSON serializer has
      a framer. The text of the last error is shortened\<close>
  "Watch net statusError r log =
     (case r_err r of
        Some err \<Rightarrow> (Inl err, log)
      | None \<Rightarrow>
          (case net log (to_http r) of
             Failure f \<Rightarrow> (if fl_probableEOF f then Inr [] else Inl (fl_error f))
           | Response resp \<Rightarrow>
               (case transformResponse statusError resp of
                  Inl err \<Rightarrow> Inl err
                | Inr body \<Rightarrow>
                    if rp_StatusCode resp \<noteq> 200 then Inl (ErrorString ''got status'') else Inr body),
           log @ [to_http r]))"

section \<open>Clients\<close>

record config =
  cfg_Host :: string
  cfg_APIPath :: string
  cfg_GroupVersion :: "(string \<times> string) option"
  cfg_NegotiatedSerializer :: bool
  cfg_ContentType :: string
  cfg_UserAgent :: string
  cfg_QPS :: int
  cfg_Burst :: int
  cfg_RateLimiter :: "(int \<times> int) option"
  cfg_Rest :: string

definition DefaultVersionedAPIPath :: "string \<Rightarrow> string \<times> string \<Rightarrow> string" where
  "DefaultVersionedAPIPath apiPath gv =
     (let p = path_Join [[slash], apiPath]
      in if fst gv \<noteq> [] then path_Join [p, fst gv, snd gv] else path_Join [p, snd gv])"

record dial =
  dl_serverPath :: "config \<Rightarrow> go_error + string"
  dl_transport :: "config \<Rightarrow> go_error option"

definition HasSuffix_slash :: "string \<Rightarrow> bool" where
  "HasSuffix_slash s \<longleftrightarrow> s \<noteq> [] \<and> last s = slash"

definition NewRESTClient :: "string \<Rightarrow> string \<Rightarrow> config \<Rightarrow> RESTClient" where
  "NewRESTClient basePath versionedAPIPath c =
     \<lparr>rc_basePath = (if HasSuffix_slash basePath then basePath else basePath @ [slash]),
      rc_versionedAPIPath = versionedAPIPath,
      rc_ContentType = (if cfg_ContentType c = [] then ''application/json'' else cfg_ContentType c)\<rparr>"

definition RESTClientFor :: "dial \<Rightarrow> config \<Rightarrow> go_error + RESTClient" where
  \<comment> \<open>\<open>dl_serverPath\<close> parses the host and gives the path of its URL, \<open>dl_transport\<close> sets up the connection\<close>
  "RESTClientFor dl c =
     (case cfg_GroupVersion c of
        None \<Rightarrow> Inl (ErrorString ''GroupVersion is required when initializing a RESTClient'')
      | Some gv \<Rightarrow>
          if \<not> cfg_NegotiatedSerializer c then
            Inl (ErrorString ''NegotiatedSerializer is required when initializing a RESTClient'')
          else (case dl_serverPath dl c of
             Inl err \<Rightarrow> Inl err
           | Inr basePath \<Rightarrow>
               (case dl_transport dl c of
                  Some err \<Rightarrow> Inl err
                | None \<Rightarrow> Inr (NewRESTClient basePath (DefaultVersionedAPIPath (cfg_APIPath c) gv) c))))"

section \<open>Lemmas\<close>

lemma valid_segment:
  "IsValidPathSegmentName s = [] \<longleftrightarrow> plain s \<and> slash \<notin> set s \<and> CHR ''%'' \<notin> set s"
  by (auto simp: IsValidPathSegmentName_def plain_def)

lemma segments_valid: "IsValidPathSegmentName s = [] \<Longrightarrow> segments s = (if s = [] then [] else [s])"
  by (simp add: valid_segment segments_single)

text \<open>An error that has been recorded stays, and the first one is reported without anything being sent.\<close>

lemma unless_err_failed [simp]: "r_err r = Some err \<Longrightarrow> unless_err f r = r"
  by (simp add: unless_err_def)

lemma unless_err_ok [simp]: "r_err r = None \<Longrightarrow> unless_err f r = f r"
  by (simp add: unless_err_def)

lemma fail_err [simp]: "r_err (fail msg r) = Some (ErrorString msg)"
  by (simp add: fail_def)

lemma invalid_err [simp]: "\<exists>e. r_err (invalid what s r) = Some e" "r_err (invalid what s r) \<noteq> None"
  by (simp_all add: invalid_def)

lemma do_request_failed: "r_err r = Some err \<Longrightarrow> do_request net r log = (Inl err, log)"
  by (simp add: do_request_def)

text \<open>However the server answers, the same request is sent, at least once and at most as often as there are attempts.\<close>

lemma send_log: "\<exists>n \<le> left. snd (send net q left log) = log @ replicate (Suc n) q"
proof (induction left arbitrary: log)
  case 0
  show ?case by (subst send.simps) (auto split: sum.split)
next
  case (Suc left)
  obtain n where n: "n \<le> left" "snd (send net q left (log @ [q])) = (log @ [q]) @ replicate (Suc n) q"
    using Suc.IH by blast
  have "\<exists>m \<le> Suc left. snd (send net q (Suc left) log) = log @ replicate (Suc m) q"
  proof (cases "\<exists>resp. received q (net log q) = Inr resp \<and> checkWait resp")
    case True
    then have "snd (send net q (Suc left) log) = log @ replicate (Suc (Suc n)) q"
      using n(2) by (subst send.simps) auto
    then show ?thesis using n(1) by (intro exI [of _ "Suc n"]) simp
  next
    case False
    then have "snd (send net q (Suc left) log) = log @ replicate (Suc 0) q"
      by (subst send.simps) (auto split: sum.split)
    then show ?thesis by (intro exI [of _ 0]) simp
  qed
  then show ?case .
qed

lemma send_answered:
  "received q (net log q) = Inr resp \<Longrightarrow> \<not> checkWait resp \<Longrightarrow> send net q left log = (Inr resp, log @ [q])"
  by (subst send.simps) (simp split: nat.split)

text \<open>A write that ends in a transport error has been sent once after the last answer: it is not repeated.\<close>

lemma received_write: "hr_Method q \<noteq> ''GET'' \<Longrightarrow> net log q = Failure f \<Longrightarrow> send net q left log = (Inl (fl_error f), log @ [q])"
  by (subst send.simps) (simp add: received_def)

lemma do_request_log:
  "snd (do_request net r log) = log \<or> (\<exists>n < maxRetries. snd (do_request net r log) = log @ replicate (Suc n) (to_http r))"
proof -
  have "\<exists>n < maxRetries. snd (send net (to_http r) (maxRetries - 1) log) = log @ replicate (Suc n) (to_http r)"
    using send_log [of "maxRetries - 1" net "to_http r" log] by (force simp: maxRetries_def)
  then show ?thesis by (auto simp: do_request_def split: option.split)
qed

lemma Do_log: "snd (Do net se r log) = snd (do_request net r log)"
  by (simp add: Do_def split: prod.split sum.split)

text \<open>The path of a request, as segments.\<close>

definition good_segments :: "string list \<Rightarrow> bool" where
  "good_segments ss \<longleftrightarrow> (\<forall>s \<in> set ss. s \<noteq> [] \<and> slash \<notin> set s \<and> plain s)"

lemma good_segments_simps [simp]:
  "good_segments []"
  "good_segments (s # ss) \<longleftrightarrow> s \<noteq> [] \<and> slash \<notin> set s \<and> plain s \<and> good_segments ss"
  "good_segments (ss @ ts) \<longleftrightarrow> good_segments ss \<and> good_segments ts"
  by (auto simp: good_segments_def)

lemma good_segments_segments: "good_segments (segments p) \<longleftrightarrow> (\<forall>s \<in> set (segments p). plain s)"
  using segments_no_slash by (auto simp: good_segments_def)

lemma path_Join_good:
  assumes "good_segments ss" and "\<forall>x \<in> set xs. good_segments (segments x)"
  shows "path_Join (slash_each ss # xs) = slash_each (ss @ concat (map segments xs))"
proof (rule path_Join_slashed)
  show "\<forall>s \<in> set ss. s \<noteq> [] \<and> slash \<notin> set s \<and> plain s" using assms(1) by (simp add: good_segments_def)
  show "\<forall>x \<in> set xs. \<forall>s \<in> set (segments x). plain s" using assms(2) good_segments_segments by blast
qed

definition optional :: "string \<Rightarrow> string list" where
  "optional s = (if s = [] then [] else [s])"

lemma good_optional [simp]: "IsValidPathSegmentName s = [] \<Longrightarrow> good_segments (optional s)"
  by (simp add: optional_def valid_segment)

lemma ToLower_Nil: "ToLower s = [] \<longleftrightarrow> s = []"
  by (simp add: ToLower_def)

definition url_segments :: "string list \<Rightarrow> request \<Rightarrow> string list" where
  "url_segments pre r = pre @ (if r_namespaceSet r \<and> r_namespace r \<noteq> [] then [''namespaces'', r_namespace r] else [])
     @ optional (ToLower (r_resource r)) @ optional (r_resourceName r) @ segments (r_subresource r)"

lemma URL_path_segments:
  assumes prefix: "r_pathPrefix r = slash_each pre" "good_segments pre" and "r_subpath r = []"
    and ns: "IsValidPathSegmentName (r_namespace r) = []" and res: "IsValidPathSegmentName (ToLower (r_resource r)) = []"
    and name: "IsValidPathSegmentName (r_resourceName r) = []" and sub: "good_segments (segments (r_subresource r))"
  shows "URL_path r = slash_each (url_segments pre r)"
proof -
  let ?ns = "if r_namespaceSet r \<and> r_namespace r \<noteq> [] then [''namespaces'', r_namespace r] else []"
  let ?res = "optional (ToLower (r_resource r))"
  have fixed: "segments ''namespaces'' = [''namespaces'']" "good_segments [''namespaces'']"
    by (simp_all add: segments_single plain_def)
  have seg: "segments s = optional s" if "IsValidPathSegmentName s = []" for s
    using segments_valid [OF that] by (simp add: optional_def)
  have good_ns: "good_segments (pre @ ?ns)"
    using prefix(2) fixed ns by (auto simp: valid_segment)
  have p1: "(if r_namespaceSet r \<and> r_namespace r \<noteq> [] then path_Join [r_pathPrefix r, ''namespaces'', r_namespace r]
      else r_pathPrefix r) = slash_each (pre @ ?ns)"
    using path_Join_good [OF prefix(2), of "[''namespaces'', r_namespace r]"] fixed good_optional [OF ns]
    by (auto simp: prefix(1) seg [OF ns] optional_def)
  have p2: "(if r_resource r \<noteq> [] then path_Join [slash_each (pre @ ?ns), ToLower (r_resource r)] else slash_each (pre @ ?ns))
      = slash_each (pre @ ?ns @ ?res)"
    using path_Join_good [OF good_ns, of "[ToLower (r_resource r)]"] good_optional [OF res]
    by (auto simp: seg [OF res] optional_def ToLower_Nil)
  have p3: "path_Join [slash_each (pre @ ?ns @ ?res), r_resourceName r, r_subresource r, []]
      = slash_each (pre @ ?ns @ ?res @ optional (r_resourceName r) @ segments (r_subresource r))"
    using path_Join_good [of "pre @ ?ns @ ?res" "[r_resourceName r, r_subresource r, []]"] good_ns good_optional [OF res]
      good_optional [OF name] sub
    by (simp add: seg [OF name])
  show ?thesis
    unfolding URL_path_def Let_def p1 p2 using p3 assms(3) by (auto simp: url_segments_def optional_def)
qed

lemma good_url_segments:
  assumes "good_segments pre" "IsValidPathSegmentName (r_namespace r) = []"
    "IsValidPathSegmentName (ToLower (r_resource r)) = []" "IsValidPathSegmentName (r_resourceName r) = []"
    "good_segments (segments (r_subresource r))"
  shows "good_segments (url_segments pre r)"
  using assms good_optional by (auto simp: url_segments_def valid_segment plain_def)

end
