(* ===== verification/Scheme.thy ===== *)
theory Scheme
  imports ApiTypes
begin

text \<open>
  The registration of the custom resource: internal/apis/ianlewis.org/v1alpha1/register.go, the two generated
  scheme packages (clientset/versioned/scheme and clientset/versioned/fake), and of the API machinery what they call
  (vendor/k8s.io/apimachinery/pkg/runtime: scheme.go, scheme\_builder.go, and meta/v1/register.go). A scheme relates Go
  types with groups, versions and kinds. Registering panics when a kind is already taken by another type, which
  is the value \<open>None\<close> here. Conversion functions and defaulters are left out: none of them is written in this repository.
\<close>

section \<open>Schemes\<close>

record go_type =
  gt_pkg :: string
  gt_name :: string

record scheme =
  gvkToType :: "(GroupVersionKind \<times> go_type) list"
  typeToGVK :: "(go_type \<times> GroupVersionKind list) list"
  unversionedTypes :: "(go_type \<times> GroupVersionKind) list"
  unversionedKinds :: "(string \<times> go_type) list"

definition NewScheme :: scheme where
  "NewScheme = \<lparr>gvkToType = [], typeToGVK = [], unversionedTypes = [], unversionedKinds = []\<rparr>"

definition kinds_of :: "scheme \<Rightarrow> go_type \<Rightarrow> GroupVersionKind list" where
  "kinds_of s t = (case map_of (typeToGVK s) t of None \<Rightarrow> [] | Some gvks \<Rightarrow> gvks)"

definition AddKnownTypeWithName :: "GroupVersionKind \<Rightarrow> go_type \<Rightarrow> scheme \<Rightarrow> scheme option" where
  "AddKnownTypeWithName gvk t s =
     (if gvk_Version gvk = [] then None
      else if (case map_of (gvkToType s) gvk of None \<Rightarrow> False | Some old \<Rightarrow> old \<noteq> t) then None
      else let s1 = s\<lparr>gvkToType := map_put gvk t (gvkToType s)\<rparr>
           in Some (if gvk \<in> set (kinds_of s t) then s1
                    else s1\<lparr>typeToGVK := map_put t (kinds_of s t @ [gvk]) (typeToGVK s1)\<rparr>))"

definition gv_WithKind :: "string \<times> string \<Rightarrow> string \<Rightarrow> GroupVersionKind" where
  "gv_WithKind gv k = \<lparr>gvk_Group = fst gv, gvk_Version = snd gv, gvk_Kind = k\<rparr>"

primrec AddKnownTypes :: "string \<times> string \<Rightarrow> go_type list \<Rightarrow> scheme \<Rightarrow> scheme option" where
  "AddKnownTypes gv [] s = Some s"
| "AddKnownTypes gv (t # ts) s =
     (case AddKnownTypeWithName (gv_WithKind gv (gt_name t)) t s of None \<Rightarrow> None | Some s1 \<Rightarrow> AddKnownTypes gv ts s1)"

primrec set_unversioned :: "string \<times> string \<Rightarrow> go_type list \<Rightarrow> scheme \<Rightarrow> scheme option" where
  \<comment> \<open>the loop of \<open>AddUnversionedTypes\<close>\<close>
  "set_unversioned gv [] s = Some s"
| "set_unversioned gv (t # ts) s =
     (let s1 = s\<lparr>unversionedTypes := map_put t (gv_WithKind gv (gt_name t)) (unversionedTypes s)\<rparr> in
      if (case map_of (unversionedKinds s1) (gt_name t) of None \<Rightarrow> False | Some old \<Rightarrow> old \<noteq> t) then None
      else set_unversioned gv ts (s1\<lparr>unversionedKinds := map_put (gt_name t) t (unversionedKinds s1)\<rparr>))"

definition AddUnversionedTypes :: "string \<times> string \<Rightarrow> go_type list \<Rightarrow> scheme \<Rightarrow> scheme option" where
  "AddUnversionedTypes gv ts s = (case AddKnownTypes gv ts s of None \<Rightarrow> None | Some s1 \<Rightarrow> set_unversioned gv ts s1)"

definition meta_type :: "string \<Rightarrow> go_type" where
  "meta_type n = \<lparr>gt_pkg = ''k8s.io/apimachinery/pkg/apis/meta/v1'', gt_name = n\<rparr>"

definition AddToGroupVersion :: "string \<times> string \<Rightarrow> scheme \<Rightarrow> scheme option" where
  "AddToGroupVersion gv s =
     (case AddKnownTypeWithName (gv_WithKind gv ''WatchEvent'') (meta_type ''WatchEvent'') s of
        None \<Rightarrow> None
      | Some s1 \<Rightarrow>
          (case AddKnownTypeWithName (gv_WithKind (fst gv, ''__internal'') ''WatchEvent'') (meta_type ''InternalEvent'') s1 of
             None \<Rightarrow> None
           | Some s2 \<Rightarrow>
               (case AddKnownTypes gv (map meta_type [''ListOptions'', ''ExportOptions'', ''GetOptions'', ''DeleteOptions'']) s2 of
                  None \<Rightarrow> None
                | Some s3 \<Rightarrow>
                    AddUnversionedTypes ([], ''v1'')
                      (map meta_type [''Status'', ''APIVersions'', ''APIGroupList'', ''APIGroup'', ''APIResourceList'']) s3)))"

definition ObjectKinds :: "scheme \<Rightarrow> go_type \<Rightarrow> GroupVersionKind list option" where
  \<comment> \<open>\<open>None\<close>: the type is not registered\<close>
  "ObjectKinds s t = map_of (typeToGVK s) t"

definition scheme_New :: "scheme \<Rightarrow> GroupVersionKind \<Rightarrow> go_type option" where
  "scheme_New s gvk =
     (case map_of (gvkToType s) gvk of
        Some t \<Rightarrow> Some t
      | None \<Rightarrow> map_of (unversionedKinds s) (gvk_Kind gvk))"

section \<open>The repository's registration\<close>

definition SchemeGroupVersion :: "string \<times> string" where
  "SchemeGroupVersion = (GroupName, SchemeVersion)"

definition api_type :: "string \<Rightarrow> go_type" where
  "api_type n = \<lparr>gt_pkg = ''github.com/ianlewis/memcached-operator/internal/apis/ianlewis.org/v1alpha1'', gt_name = n\<rparr>"

definition addKnownTypes :: "scheme \<Rightarrow> scheme option" where
  "addKnownTypes s =
     (case AddKnownTypes SchemeGroupVersion [api_type ''MemcachedProxy'', api_type ''MemcachedProxyList''] s of
        None \<Rightarrow> None
      | Some s1 \<Rightarrow> AddToGroupVersion SchemeGroupVersion s1)"

type_synonym scheme_builder = "(scheme \<Rightarrow> scheme option) list"

definition SchemeBuilder :: scheme_builder where
  \<comment> \<open>after \<open>init\<close>\<close>
  "SchemeBuilder = [] @ [addKnownTypes]"

primrec builder_AddToScheme :: "scheme_builder \<Rightarrow> scheme \<Rightarrow> scheme option" where
  "builder_AddToScheme [] s = Some s"
| "builder_AddToScheme (f # fs) s = (case f s of None \<Rightarrow> None | Some s1 \<Rightarrow> builder_AddToScheme fs s1)"

definition AddToScheme :: "scheme \<Rightarrow> scheme option" where
  \<comment> \<open>of the package clientset/versioned/scheme\<close>
  "AddToScheme s = builder_AddToScheme SchemeBuilder s"

definition scheme_init :: "scheme option" where
  \<comment> \<open>the variable \<open>Scheme\<close> after \<open>init\<close>\<close>
  "scheme_init = (case AddToGroupVersion ([], ''v1'') NewScheme of None \<Rightarrow> None | Some s \<Rightarrow> AddToScheme s)"

definition fake_AddToScheme :: "scheme \<Rightarrow> scheme option" where
  "fake_AddToScheme s = builder_AddToScheme SchemeBuilder s"

definition fake_scheme_init :: "scheme option" where
  "fake_scheme_init = (case AddToGroupVersion ([], ''v1'') NewScheme of None \<Rightarrow> None | Some s \<Rightarrow> fake_AddToScheme s)"

definition api_Resource :: "string \<Rightarrow> string" where
  \<comment> \<open>\<open>v1alpha1.Resource(resource)\<close>, as \<open>GroupResource.String\<close> prints it\<close>
  "api_Resource resource = (if GroupName = [] then resource else resource @ ''.'' @ GroupName)"

section \<open>Lemmas\<close>

definition extends :: "scheme \<Rightarrow> scheme \<Rightarrow> bool" where
  "extends s s' \<longleftrightarrow> (\<forall>gvk t. map_of (gvkToType s) gvk = Some t \<longrightarrow> map_of (gvkToType s') gvk = Some t)
     \<and> (\<forall>t gvk. gvk \<in> set (kinds_of s t) \<longrightarrow> gvk \<in> set (kinds_of s' t))"

definition known :: "GroupVersionKind \<Rightarrow> go_type \<Rightarrow> scheme \<Rightarrow> bool" where
  "known gvk t s \<longleftrightarrow> map_of (gvkToType s) gvk = Some t \<and> gvk \<in> set (kinds_of s t)"

lemma extends_refl [simp]: "extends s s"
  by (simp add: extends_def)

lemma extends_trans: "extends s s1 \<Longrightarrow> extends s1 s2 \<Longrightarrow> extends s s2"
  by (auto simp: extends_def)

lemma known_extends: "known gvk t s \<Longrightarrow> extends s s' \<Longrightarrow> known gvk t s'"
  by (simp add: known_def extends_def)

lemma AddKnownTypeWithName_known:
  assumes "AddKnownTypeWithName gvk t s = Some s'"
  shows "extends s s'" "known gvk t s'"
  using assms
  by (auto simp: AddKnownTypeWithName_def extends_def known_def kinds_of_def Let_def split: if_splits option.splits)

lemma AddKnownTypes_known:
  assumes "AddKnownTypes gv ts s = Some s'"
  shows "extends s s'" "t \<in> set ts \<Longrightarrow> known (gv_WithKind gv (gt_name t)) t s'"
proof -
  have "extends s s' \<and> (\<forall>t \<in> set ts. known (gv_WithKind gv (gt_name t)) t s')"
    using assms
  proof (induction ts arbitrary: s)
    case (Cons u ts)
    then obtain s1 where s1: "AddKnownTypeWithName (gv_WithKind gv (gt_name u)) u s = Some s1" "AddKnownTypes gv ts s1 = Some s'"
      by (auto split: option.splits)
    show ?case
      using Cons.IH [OF s1(2)] AddKnownTypeWithName_known [OF s1(1)] extends_trans known_extends by fastforce
  qed simp
  then show "extends s s'" "t \<in> set ts \<Longrightarrow> known (gv_WithKind gv (gt_name t)) t s'" by blast+
qed

lemma set_unversioned_extends: "set_unversioned gv ts s = Some s' \<Longrightarrow> extends s s'"
proof (induction ts arbitrary: s)
  case (Cons t ts)
  let ?s1 = "s\<lparr>unversionedTypes := map_put t (gv_WithKind gv (gt_name t)) (unversionedTypes s)\<rparr>"
  let ?s2 = "?s1\<lparr>unversionedKinds := map_put (gt_name t) t (unversionedKinds ?s1)\<rparr>"
  have "set_unversioned gv ts ?s2 = Some s'"
    using Cons.prems by (simp add: Let_def split: if_splits)
  then have "extends ?s2 s'" by (rule Cons.IH)
  moreover have "extends s ?s2" by (simp add: extends_def kinds_of_def)
  ultimately show ?case by (rule extends_trans [rotated])
qed simp

lemma AddToGroupVersion_extends:
  assumes "AddToGroupVersion gv s = Some s'"
  shows "extends s s'"
proof -
  obtain s1 s2 s3 s4 where "AddKnownTypeWithName (gv_WithKind gv ''WatchEvent'') (meta_type ''WatchEvent'') s = Some s1"
    "AddKnownTypeWithName (gv_WithKind (fst gv, ''__internal'') ''WatchEvent'') (meta_type ''InternalEvent'') s1 = Some s2"
    "AddKnownTypes gv (map meta_type [''ListOptions'', ''ExportOptions'', ''GetOptions'', ''DeleteOptions'']) s2 = Some s3"
    "AddKnownTypes ([], ''v1'') (map meta_type [''Status'', ''APIVersions'', ''APIGroupList'', ''APIGroup'', ''APIResourceList'']) s3
       = Some s4"
    "set_unversioned ([], ''v1'') (map meta_type [''Status'', ''APIVersions'', ''APIGroupList'', ''APIGroup'', ''APIResourceList'']) s4
       = Some s'"
    using assms unfolding AddToGroupVersion_def AddUnversionedTypes_def by (auto simp only: split: option.splits)
  then show ?thesis
    by (meson AddKnownTypeWithName_known(1) AddKnownTypes_known(1) set_unversioned_extends extends_trans)
qed

lemma AddToScheme_eq: "AddToScheme s = addKnownTypes s"
  by (simp add: AddToScheme_def SchemeBuilder_def split: option.split)

section \<open>Properties\<close>

text \<open>
  Adding the repository's types to a scheme, if it does not panic, makes both types known under their kind in
  the group \<open>ianlewis.org\<close>, version \<open>v1alpha1\<close>, and keeps every registration there was.
\<close>

theorem AddToScheme_registers:
  assumes "AddToScheme s = Some s'" and "n \<in> {''MemcachedProxy'', ''MemcachedProxyList''}"
  shows "extends s s' \<and> scheme_New s' (WithKind n) = Some (api_type n)
    \<and> (\<exists>gvks. ObjectKinds s' (api_type n) = Some gvks \<and> WithKind n \<in> set gvks)"
proof -
  obtain s1 where s1: "AddKnownTypes SchemeGroupVersion [api_type ''MemcachedProxy'', api_type ''MemcachedProxyList''] s = Some s1"
    "AddToGroupVersion SchemeGroupVersion s1 = Some s'"
    using assms(1) by (auto simp: AddToScheme_eq addKnownTypes_def simp del: AddKnownTypes.simps split: option.splits)
  have kind: "gv_WithKind SchemeGroupVersion (gt_name (api_type n)) = WithKind n"
    by (simp add: gv_WithKind_def SchemeGroupVersion_def WithKind_def api_type_def)
  have "known (WithKind n) (api_type n) s1"
    using AddKnownTypes_known(2) [OF s1(1), of "api_type n"] assms(2) kind by auto
  then have "known (WithKind n) (api_type n) s'" using AddToGroupVersion_extends [OF s1(2)] by (rule known_extends)
  moreover have "extends s s'"
    using AddKnownTypes_known(1) [OF s1(1)] AddToGroupVersion_extends [OF s1(2)] by (rule extends_trans)
  ultimately show ?thesis
    by (cases "map_of (typeToGVK s') (api_type n)") (auto simp: known_def scheme_New_def ObjectKinds_def kinds_of_def)
qed

text \<open>
  The scheme the generated clientset makes when the program starts: no registration panics, and a proxy has exactly one
  kind, as the object tracker of the fake clientset needs.
\<close>

lemma scheme_init_ok:
  "\<exists>s. scheme_init = Some s \<and> ObjectKinds s (api_type ''MemcachedProxy'') = Some [WithKind ''MemcachedProxy'']
     \<and> scheme_New s (WithKind ''MemcachedProxyList'') = Some (api_type ''MemcachedProxyList'')"
proof -
  have "map_option (\<lambda>s. (ObjectKinds s (api_type ''MemcachedProxy''), scheme_New s (WithKind ''MemcachedProxyList''))) scheme_init
    = Some (Some [WithKind ''MemcachedProxy''], Some (api_type ''MemcachedProxyList''))"
    by code_simp
  then show ?thesis by (auto simp: map_option_case split: option.splits)
qed

end
