(* ===== verification/ProxyClient.thy ===== *)
theory ProxyClient
  imports Rest Scheme
begin

text \<open>
  The generated client of the custom resource: internal/client/clientset/versioned/clientset.go and
  typed/ianlewis.org/v1alpha1 (memcachedproxy.go and ianlewis.org\_client.go). The package typed/ianlewis/v1alpha1 has the same
  text and is used by nothing.

  An operation builds a request with the REST client of theory \<open>Rest\<close> and sends it. Its result is the pair that the Go method
  returns, with the log of the requests sent. The record \<open>codecs\<close> has the encoders and decoders of the API machinery.
\<close>

section \<open>Data\<close>

record MemcachedProxyList =
  ml_APIVersion :: string
  ml_Kind :: string
  ml_ListMeta :: string
  ml_Items :: "MemcachedProxy slice"

record ListOptions =
  lo_LabelSelector :: string
  lo_FieldSelector :: string
  lo_Watch :: bool
  lo_ResourceVersion :: string
  lo_Rest :: string

definition zero_proxy :: MemcachedProxy where
  \<comment> \<open>\<open>&v1alpha1.MemcachedProxy{}\<close>\<close>
  "zero_proxy = \<lparr>mp_APIVersion = [], mp_Kind = [], mp_Meta = zero_meta,
     mp_Spec = \<lparr>spec_Rules = RuleSpec [] None None,
       spec_McRouter = \<lparr>mr_Image = [], mr_Resources = [], mr_Port = None, mr_SecurityContext = None, mr_StatsRoot = []\<rparr>\<rparr>,
     mp_Status = \<lparr>st_ObservedGeneration = 0\<rparr>\<rparr>"

definition zero_list :: MemcachedProxyList where
  "zero_list = \<lparr>ml_APIVersion = [], ml_Kind = [], ml_ListMeta = [], ml_Items = None\<rparr>"

record codecs =
  cd_GetOptions :: "string \<Rightarrow> go_error + (string \<times> string list) list"
  cd_ListOptions :: "ListOptions \<Rightarrow> go_error + (string \<times> string list) list"
  cd_DeleteOptions :: "string \<Rightarrow> go_error + string"
  cd_encode :: "MemcachedProxy \<Rightarrow> go_error + string"
  cd_decode :: "string \<Rightarrow> MemcachedProxy \<times> go_error option"
  cd_decodeList :: "string \<Rightarrow> MemcachedProxyList \<times> go_error option"
  cd_statusError :: "http_response \<Rightarrow> go_error"

section \<open>The client of the group\<close>

record IanlewisV1alpha1Client =
  ic_restClient :: RESTClient

record memcachedProxies =
  mpc_client :: RESTClient
  mpc_ns :: string

definition client_RESTClient :: "IanlewisV1alpha1Client option \<Rightarrow> RESTClient option" where
  "client_RESTClient c = (case c of None \<Rightarrow> None | Some c \<Rightarrow> Some (ic_restClient c))"

definition newMemcachedProxies :: "IanlewisV1alpha1Client \<Rightarrow> string \<Rightarrow> memcachedProxies" where
  "newMemcachedProxies c ns = \<lparr>mpc_client = ic_restClient c, mpc_ns = ns\<rparr>"

definition MemcachedProxies :: "IanlewisV1alpha1Client \<Rightarrow> string \<Rightarrow> memcachedProxies" where
  "MemcachedProxies c ns = newMemcachedProxies c ns"

definition setConfigDefaults :: "string \<Rightarrow> config \<Rightarrow> config" where
  \<comment> \<open>the first argument is \<open>rest.DefaultKubernetesUserAgent()\<close>\<close>
  "setConfigDefaults defaultUserAgent c =
     (let c1 = c\<lparr>cfg_GroupVersion := Some SchemeGroupVersion, cfg_APIPath := ''/apis'', cfg_NegotiatedSerializer := True\<rparr>
      in if cfg_UserAgent c1 = [] then c1\<lparr>cfg_UserAgent := defaultUserAgent\<rparr> else c1)"

definition client_NewForConfig :: "dial \<Rightarrow> string \<Rightarrow> config \<Rightarrow> go_error + IanlewisV1alpha1Client" where
  "client_NewForConfig dl ua c =
     (case RESTClientFor dl (setConfigDefaults ua c) of
        Inl err \<Rightarrow> Inl err
      | Inr client \<Rightarrow> Inr \<lparr>ic_restClient = client\<rparr>)"

definition client_NewForConfigOrDie :: "dial \<Rightarrow> string \<Rightarrow> config \<Rightarrow> IanlewisV1alpha1Client option" where
  \<comment> \<open>\<open>None\<close>: it panics\<close>
  "client_NewForConfigOrDie dl ua c = (case client_NewForConfig dl ua c of Inl err \<Rightarrow> None | Inr client \<Rightarrow> Some client)"

definition client_New :: "RESTClient \<Rightarrow> IanlewisV1alpha1Client" where
  "client_New c = \<lparr>ic_restClient = c\<rparr>"

section \<open>The operations\<close>

definition resource_request :: "string \<Rightarrow> memcachedProxies \<Rightarrow> request" where
  \<comment> \<open>\<open>c.client.Verb(verb).Namespace(c.ns).Resource("memcachedproxies")\<close>\<close>
  "resource_request verb c = Resource ''memcachedproxies'' (Namespace (mpc_ns c) (NewRequest verb (mpc_client c)))"

definition proxies_Get ::
  "network \<Rightarrow> codecs \<Rightarrow> memcachedProxies \<Rightarrow> string \<Rightarrow> string \<Rightarrow> log \<Rightarrow> (MemcachedProxy \<times> go_error option) \<times> log" where
  "proxies_Get net cd c name options log =
     (let (res, log') = Do net (cd_statusError cd)
        (VersionedParams (cd_GetOptions cd options) (Name name (resource_request ''GET'' c))) log
      in (Into (cd_decode cd) zero_proxy res, log'))"

definition proxies_List ::
  "network \<Rightarrow> codecs \<Rightarrow> memcachedProxies \<Rightarrow> ListOptions \<Rightarrow> log \<Rightarrow> (MemcachedProxyList \<times> go_error option) \<times> log" where
  "proxies_List net cd c opts log =
     (let (res, log') = Do net (cd_statusError cd)
        (VersionedParams (cd_ListOptions cd opts) (resource_request ''GET'' c)) log
      in (Into (cd_decodeList cd) zero_list res, log'))"

definition proxies_Watch ::
  "network \<Rightarrow> codecs \<Rightarrow> memcachedProxies \<Rightarrow> ListOptions \<Rightarrow> log \<Rightarrow> (go_error + string) \<times> log" where
  "proxies_Watch net cd c opts log =
     Rest.Watch net (cd_statusError cd)
       (VersionedParams (cd_ListOptions cd (opts\<lparr>lo_Watch := True\<rparr>)) (resource_request ''GET'' c)) log"

definition object_body :: "codecs \<Rightarrow> memcachedProxies \<Rightarrow> MemcachedProxy option \<Rightarrow> request \<Rightarrow> request" where
  \<comment> \<open>\<open>Body(memcachedProxy)\<close>\<close>
  "object_body cd c p =
     Body (rc_ContentType (mpc_client c)) (case p of None \<Rightarrow> NilObject | Some p \<Rightarrow> Encoded (cd_encode cd p))"

definition options_body :: "codecs \<Rightarrow> memcachedProxies \<Rightarrow> string option \<Rightarrow> request \<Rightarrow> request" where
  \<comment> \<open>\<open>Body(options)\<close>\<close>
  "options_body cd c options =
     Body (rc_ContentType (mpc_client c)) (case options of None \<Rightarrow> NilObject | Some o1 \<Rightarrow> Encoded (cd_DeleteOptions cd o1))"

definition proxies_Create ::
  "network \<Rightarrow> codecs \<Rightarrow> memcachedProxies \<Rightarrow> MemcachedProxy option \<Rightarrow> log \<Rightarrow> (MemcachedProxy \<times> go_error option) \<times> log" where
  "proxies_Create net cd c p log =
     (let (res, log') = Do net (cd_statusError cd) (object_body cd c p (resource_request ''POST'' c)) log
      in (Into (cd_decode cd) zero_proxy res, log'))"

definition proxies_Update ::
  "network \<Rightarrow> codecs \<Rightarrow> memcachedProxies \<Rightarrow> MemcachedProxy option \<Rightarrow> log \<Rightarrow> ((MemcachedProxy \<times> go_error option) \<times> log) option" where
  \<comment> \<open>\<open>None\<close>: \<open>memcachedProxy.Name\<close> dereferences nil\<close>
  "proxies_Update net cd c p log =
     (case p of
        None \<Rightarrow> None
      | Some obj \<Rightarrow>
          (let (res, log') = Do net (cd_statusError cd)
             (object_body cd c p (Name (om_Name (mp_Meta obj)) (resource_request ''PUT'' c))) log
           in Some (Into (cd_decode cd) zero_proxy res, log')))"

definition proxies_Delete ::
  "network \<Rightarrow> codecs \<Rightarrow> memcachedProxies \<Rightarrow> string \<Rightarrow> string option \<Rightarrow> log \<Rightarrow> go_error option \<times> log" where
  "proxies_Delete net cd c name options log =
     (let (res, log') = Do net (cd_statusError cd)
        (options_body cd c options (Name name (resource_request ''DELETE'' c))) log
      in (Result_Error res, log'))"

definition proxies_DeleteCollection ::
  "network \<Rightarrow> codecs \<Rightarrow> memcachedProxies \<Rightarrow> string option \<Rightarrow> ListOptions \<Rightarrow> log \<Rightarrow> go_error option \<times> log" where
  "proxies_DeleteCollection net cd c options listOptions log =
     (let (res, log') = Do net (cd_statusError cd)
        (options_body cd c options (VersionedParams (cd_ListOptions cd listOptions) (resource_request ''DELETE'' c))) log
      in (Result_Error res, log'))"

definition proxies_Patch ::
  "network \<Rightarrow> codecs \<Rightarrow> memcachedProxies \<Rightarrow> string \<Rightarrow> string \<Rightarrow> string \<Rightarrow> string list \<Rightarrow> log
     \<Rightarrow> (MemcachedProxy \<times> go_error option) \<times> log" where
  "proxies_Patch net cd c name pt data subresources log =
     (let (res, log') = Do net (cd_statusError cd)
        (Body (rc_ContentType (mpc_client c)) (Bytes data)
          (Name name (SubResource subresources (Resource ''memcachedproxies'' (Namespace (mpc_ns c)
            (SetHeader ''Content-Type'' pt (NewRequest ''PATCH'' (mpc_client c)))))))) log
      in (Into (cd_decode cd) zero_proxy res, log'))"

section \<open>The clientset\<close>

record 'd clientset =
  cs_discovery :: 'd
  cs_ianlewisV1alpha1 :: IanlewisV1alpha1Client

definition IanlewisV1alpha1 :: "'d clientset \<Rightarrow> IanlewisV1alpha1Client" where
  "IanlewisV1alpha1 c = cs_ianlewisV1alpha1 c"

definition Ianlewis :: "'d clientset \<Rightarrow> IanlewisV1alpha1Client" where
  "Ianlewis c = cs_ianlewisV1alpha1 c"

definition Discovery :: "'d clientset option \<Rightarrow> 'd option" where
  "Discovery c = (case c of None \<Rightarrow> None | Some c \<Rightarrow> Some (cs_discovery c))"

definition clientset_NewForConfig ::
  "dial \<Rightarrow> string \<Rightarrow> (config \<Rightarrow> go_error + 'd) \<Rightarrow> config \<Rightarrow> go_error + 'd clientset" where
  \<comment> \<open>the third argument is \<open>discovery.NewDiscoveryClientForConfig\<close>\<close>
  "clientset_NewForConfig dl ua newDiscovery c =
     (let configShallowCopy =
        (if cfg_RateLimiter c = None \<and> cfg_QPS c > 0 then c\<lparr>cfg_RateLimiter := Some (cfg_QPS c, cfg_Burst c)\<rparr> else c)
      in case client_NewForConfig dl ua configShallowCopy of
           Inl err \<Rightarrow> Inl err
         | Inr client \<Rightarrow>
             (case newDiscovery configShallowCopy of
                Inl err \<Rightarrow> Inl err
              | Inr d \<Rightarrow> Inr \<lparr>cs_discovery = d, cs_ianlewisV1alpha1 = client\<rparr>))"

definition clientset_NewForConfigOrDie ::
  "dial \<Rightarrow> string \<Rightarrow> (config \<Rightarrow> go_error + 'd) \<Rightarrow> config \<Rightarrow> 'd clientset option" where
  "clientset_NewForConfigOrDie dl ua newDiscovery c =
     (case client_NewForConfigOrDie dl ua c of
        None \<Rightarrow> None
      | Some client \<Rightarrow>
          (case newDiscovery c of Inl err \<Rightarrow> None | Inr d \<Rightarrow> Some \<lparr>cs_discovery = d, cs_ianlewisV1alpha1 = client\<rparr>))"

definition clientset_New :: "(RESTClient \<Rightarrow> 'd) \<Rightarrow> RESTClient \<Rightarrow> 'd clientset" where
  "clientset_New newDiscovery c = \<lparr>cs_discovery = newDiscovery c, cs_ianlewisV1alpha1 = client_New c\<rparr>"

section \<open>Calls\<close>

text \<open>
  A call of one of the operations, for statements about all of them: what it sends, its verb, the name of the object
  and the subresources it is about. \<open>proxies_path\<close> is the path that the Kubernetes API conventions give to an object: below the prefix of
  the server, the group and the version.
\<close>

datatype call =
    CallGet string string
  | CallList ListOptions
  | CallWatch ListOptions
  | CallCreate "MemcachedProxy option"
  | CallUpdate MemcachedProxy
  | CallDelete string "string option"
  | CallDeleteCollection "string option" ListOptions
  | CallPatch string string string "string list"

fun call_log :: "network \<Rightarrow> codecs \<Rightarrow> memcachedProxies \<Rightarrow> call \<Rightarrow> log \<Rightarrow> log" where
  "call_log net cd c (CallGet name options) log = snd (proxies_Get net cd c name options log)"
| "call_log net cd c (CallList opts) log = snd (proxies_List net cd c opts log)"
| "call_log net cd c (CallWatch opts) log = snd (proxies_Watch net cd c opts log)"
| "call_log net cd c (CallCreate p) log = snd (proxies_Create net cd c p log)"
| "call_log net cd c (CallUpdate p) log = (case proxies_Update net cd c (Some p) log of None \<Rightarrow> log | Some res \<Rightarrow> snd res)"
| "call_log net cd c (CallDelete name options) log = snd (proxies_Delete net cd c name options log)"
| "call_log net cd c (CallDeleteCollection options lopts) log = snd (proxies_DeleteCollection net cd c options lopts log)"
| "call_log net cd c (CallPatch name pt data subs) log = snd (proxies_Patch net cd c name pt data subs log)"

fun call_verb :: "call \<Rightarrow> string" where
  "call_verb (CallGet _ _) = ''GET''"
| "call_verb (CallList _) = ''GET''"
| "call_verb (CallWatch _) = ''GET''"
| "call_verb (CallCreate _) = ''POST''"
| "call_verb (CallUpdate _) = ''PUT''"
| "call_verb (CallDelete _ _) = ''DELETE''"
| "call_verb (CallDeleteCollection _ _) = ''DELETE''"
| "call_verb (CallPatch _ _ _ _) = ''PATCH''"

fun call_name :: "call \<Rightarrow> string" where
  "call_name (CallGet name _) = name"
| "call_name (CallUpdate p) = om_Name (mp_Meta p)"
| "call_name (CallDelete name _) = name"
| "call_name (CallPatch name _ _ _) = name"
| "call_name _ = []"

fun call_subs :: "call \<Rightarrow> string list" where
  "call_subs (CallPatch _ _ _ subs) = filter (\<lambda>s. s \<noteq> []) subs"
| "call_subs _ = []"

definition proxies_path :: "string list \<Rightarrow> string \<Rightarrow> string \<Rightarrow> string list \<Rightarrow> string" where
  "proxies_path base ns name subs =
     slash_each (base @ [''apis'', GroupName, SchemeVersion] @ (if ns = [] then [] else [''namespaces'', ns])
       @ [''memcachedproxies''] @ optional name @ subs)"

section \<open>Building requests\<close>

text \<open>
  \<open>built\<close> says what a request holds after a chain of builder steps, unless one of them recorded an error; there is one lemma per
  step.
\<close>

definition built :: "string \<Rightarrow> string \<Rightarrow> string option \<Rightarrow> string \<Rightarrow> string \<Rightarrow> string list \<Rightarrow> request \<Rightarrow> bool" where
  "built pre verb ns res name subs r \<longleftrightarrow> (r_err r = None \<longrightarrow>
     r_verb r = verb \<and> r_pathPrefix r = pre \<and> r_subpath r = []
     \<and> r_namespaceSet r = (ns \<noteq> None) \<and> r_namespace r = (case ns of None \<Rightarrow> [] | Some n \<Rightarrow> n)
     \<and> IsValidPathSegmentName (r_namespace r) = []
     \<and> r_resource r = res \<and> r_resourceName r = name \<and> IsValidPathSegmentName name = []
     \<and> r_subresource r = path_Join subs \<and> (\<forall>s \<in> set subs. IsValidPathSegmentName s = []))"

lemma built_NewRequest:
  "built (r_pathPrefix (NewRequest verb c)) verb None [] [] [] (NewRequest verb c)"
  by (simp add: built_def NewRequest_def SetHeader_def IsValidPathSegmentName_def path_Join_def)

lemma built_SetHeader: "built pre verb ns res name subs r \<Longrightarrow> built pre verb ns res name subs (SetHeader k v r)"
  by (auto simp: built_def SetHeader_def)

lemma built_Namespace:
  "built pre verb None res name subs r \<Longrightarrow> built pre verb (Some ns) res name subs (Namespace ns r)"
  by (auto simp: built_def Namespace_def unless_err_def)

lemma built_Resource:
  "built pre verb ns [] name subs r \<Longrightarrow> built pre verb ns res name subs (Resource res r)"
  by (auto simp: built_def Resource_def unless_err_def)

lemma built_Name:
  "built pre verb ns res [] subs r \<Longrightarrow> built pre verb ns res name subs (Name name r)"
  by (auto simp: built_def Name_def unless_err_def)

lemma built_SubResource:
  "built pre verb ns res name [] r \<Longrightarrow> built pre verb ns res name subs (SubResource subs r)"
proof (cases "filter (\<lambda>s. IsValidPathSegmentName s \<noteq> []) subs")
  case Nil
  then have "\<forall>s \<in> set subs. IsValidPathSegmentName s = []" by (simp add: filter_empty_conv)
  then show "built pre verb ns res name [] r \<Longrightarrow> ?thesis"
    using Nil by (auto simp: built_def SubResource_def unless_err_def)
qed (auto simp: built_def SubResource_def unless_err_def)

lemma built_VersionedParams:
  "built pre verb ns res name subs r \<Longrightarrow> built pre verb ns res name subs (VersionedParams ps r)"
  by (auto simp: built_def VersionedParams_def unless_err_def split: sum.split)

lemma built_Body: "built pre verb ns res name subs r \<Longrightarrow> built pre verb ns res name subs (Body ct arg r)"
  by (auto simp: built_def Body_def unless_err_def SetHeader_def split: body_arg.split sum.split)

lemmas builds = built_NewRequest built_SetHeader built_Namespace built_Resource built_Name built_SubResource
  built_VersionedParams built_Body

text \<open>The joined subresources.\<close>

lemma segments_subresource:
  assumes "\<forall>s \<in> set subs. IsValidPathSegmentName s = []"
  shows "segments (path_Join subs) = filter (\<lambda>s. s \<noteq> []) subs" "good_segments (segments (path_Join subs))"
proof -
  show "segments (path_Join subs) = filter (\<lambda>s. s \<noteq> []) subs"
    using assms by (intro path_Join_relative) (auto simp: valid_segment)
  then show "good_segments (segments (path_Join subs))"
    using assms by (auto simp: good_segments_def valid_segment)
qed

text \<open>What the requests of a client begin with.\<close>

definition api_root :: "string list \<Rightarrow> string list" where
  "api_root base = base @ [''apis'', GroupName, SchemeVersion]"

definition client_at :: "string list \<Rightarrow> RESTClient \<Rightarrow> bool" where
  "client_at base c \<longleftrightarrow> good_segments base \<and> (\<forall>verb. r_pathPrefix (NewRequest verb c) = slash_each (api_root base))"

lemma good_api_root: "good_segments base \<Longrightarrow> good_segments (api_root base)"
  by (simp add: api_root_def GroupName_def SchemeVersion_def plain_def)

lemma versioned_path: "DefaultVersionedAPIPath ''/apis'' SchemeGroupVersion = slash_each [''apis'', GroupName, SchemeVersion]"
  by code_simp

lemma segments_basePath: "segments (rc_basePath (NewRESTClient base v c)) = segments base"
  using segments_append [of base "[]"] by (simp add: NewRESTClient_def)

lemma client_NewForConfig_at:
  assumes "client_NewForConfig dl ua cfg = Inr c" and "dl_serverPath dl (setConfigDefaults ua cfg) = Inr base"
    and "good_segments (segments base)"
  shows "client_at (segments base) (ic_restClient c)"
proof -
  let ?v = "slash_each [''apis'', GroupName, SchemeVersion]" and ?root = "[''apis'', GroupName, SchemeVersion]"
  let ?cl = "NewRESTClient base ?v (setConfigDefaults ua cfg)"
  have defaults: "cfg_GroupVersion (setConfigDefaults ua cfg) = Some SchemeGroupVersion"
    "cfg_APIPath (setConfigDefaults ua cfg) = ''/apis''" "cfg_NegotiatedSerializer (setConfigDefaults ua cfg)"
    by (simp_all add: setConfigDefaults_def Let_def)
  have cl: "ic_restClient c = ?cl"
    using assms(1,2) by (auto simp: client_NewForConfig_def RESTClientFor_def defaults versioned_path split: sum.splits option.splits)
  have root: "good_segments ?root" "segments ?v = ?root"
    using good_api_root [of "[]"] by (simp_all add: api_root_def good_segments_def segments_slashed)
  have "path_Join [[slash], rc_basePath ?cl] = slash_each (segments base)"
    using path_Join_good [of "[]" "[rc_basePath ?cl]"] assms(3) by (simp add: segments_basePath) (simp add: slash_each_def)
  moreover have "rc_versionedAPIPath ?cl = ?v" by (simp add: NewRESTClient_def)
  moreover have "path_Join [slash_each (segments base), ?v] = slash_each (api_root (segments base))"
    using path_Join_good [OF assms(3), of "[?v]"] root by (simp add: api_root_def)
  ultimately show ?thesis using assms(3) unfolding cl by (simp add: client_at_def NewRequest_def SetHeader_def)
qed

lemma built_path:
  assumes "client_at base c" and "built (r_pathPrefix (NewRequest verb c)) verb (Some ns) ''memcachedproxies'' name subs r"
    and "r_err r = None"
  shows "hr_Path (to_http r) = proxies_path base ns name (filter (\<lambda>s. s \<noteq> []) subs)" "hr_Method (to_http r) = verb"
    "IsValidPathSegmentName ns = []" "IsValidPathSegmentName name = []" "\<forall>s \<in> set subs. IsValidPathSegmentName s = []"
proof -
  have r: "r_verb r = verb" "r_pathPrefix r = slash_each (api_root base)" "r_subpath r = []" "r_namespaceSet r" "r_namespace r = ns"
    "r_resource r = ''memcachedproxies''" "r_resourceName r = name" "r_subresource r = path_Join subs"
    and valid: "IsValidPathSegmentName ns = []" "IsValidPathSegmentName name = []" "\<forall>s \<in> set subs. IsValidPathSegmentName s = []"
    using assms by (auto simp: built_def client_at_def)
  have lower: "ToLower ''memcachedproxies'' = ''memcachedproxies''" by code_simp
  have "IsValidPathSegmentName ''memcachedproxies'' = []" by code_simp
  moreover have "good_segments base" using assms(1) by (simp add: client_at_def)
  ultimately have "URL_path r = slash_each (url_segments (api_root base) r)"
    using URL_path_segments [OF r(2) good_api_root r(3)] valid segments_subresource [OF valid(3)] by (simp add: r lower)
  then show "hr_Path (to_http r) = proxies_path base ns name (filter (\<lambda>s. s \<noteq> []) subs)"
    using segments_subresource(1) [OF valid(3)]
    by (simp add: to_http_def proxies_path_def url_segments_def lower r api_root_def optional_def)
  show "hr_Method (to_http r) = verb" by (simp add: to_http_def r)
  show "IsValidPathSegmentName ns = []" "IsValidPathSegmentName name = []" "\<forall>s \<in> set subs. IsValidPathSegmentName s = []"
    by (fact valid)+
qed

section \<open>The request of a call\<close>

fun call_request :: "codecs \<Rightarrow> memcachedProxies \<Rightarrow> call \<Rightarrow> request" where
  "call_request cd c (CallGet name options) =
     VersionedParams (cd_GetOptions cd options) (Name name (resource_request ''GET'' c))"
| "call_request cd c (CallList opts) = VersionedParams (cd_ListOptions cd opts) (resource_request ''GET'' c)"
| "call_request cd c (CallWatch opts) =
     VersionedParams (cd_ListOptions cd (opts\<lparr>lo_Watch := True\<rparr>)) (resource_request ''GET'' c)"
| "call_request cd c (CallCreate p) = object_body cd c p (resource_request ''POST'' c)"
| "call_request cd c (CallUpdate p) = object_body cd c (Some p) (Name (om_Name (mp_Meta p)) (resource_request ''PUT'' c))"
| "call_request cd c (CallDelete name options) = options_body cd c options (Name name (resource_request ''DELETE'' c))"
| "call_request cd c (CallDeleteCollection options lopts) =
     options_body cd c options (VersionedParams (cd_ListOptions cd lopts) (resource_request ''DELETE'' c))"
| "call_request cd c (CallPatch name pt data subs) =
     Body (rc_ContentType (mpc_client c)) (Bytes data)
       (Name name (SubResource subs (Resource ''memcachedproxies'' (Namespace (mpc_ns c)
         (SetHeader ''Content-Type'' pt (NewRequest ''PATCH'' (mpc_client c)))))))"

fun raw_subs :: "call \<Rightarrow> string list" where
  "raw_subs (CallPatch _ _ _ subs) = subs"
| "raw_subs _ = []"

lemma call_subs_raw: "call_subs call = filter (\<lambda>s. s \<noteq> []) (raw_subs call)"
  by (cases call) simp_all

lemma call_request_built:
  "built (r_pathPrefix (NewRequest (call_verb call) (mpc_client c))) (call_verb call) (Some (mpc_ns c)) ''memcachedproxies''
     (call_name call) (raw_subs call) (call_request cd c call)"
  by (cases call) (simp_all add: resource_request_def object_body_def options_body_def builds)

lemma call_log_request:
  "call_log net cd c call log =
     (if (\<exists>opts. call = CallWatch opts)
      then snd (Rest.Watch net (cd_statusError cd) (call_request cd c call) log)
      else snd (do_request net (call_request cd c call) log))"
  by (cases call)
    (simp_all add: proxies_Get_def proxies_List_def proxies_Watch_def proxies_Create_def proxies_Update_def proxies_Delete_def
      proxies_DeleteCollection_def proxies_Patch_def Do_log split_beta Let_def)

lemma call_log_cases:
  obtains "call_log net cd c call log = log"
  | n where "r_err (call_request cd c call) = None" "n < maxRetries"
      "call_log net cd c call log = log @ replicate (Suc n) (to_http (call_request cd c call))"
proof (cases "r_err (call_request cd c call)")
  case (Some err)
  then have "call_log net cd c call log = log" by (simp add: call_log_request do_request_def Watch_def)
  then show ?thesis by (rule that(1))
next
  case None
  show ?thesis
  proof (cases "\<exists>opts. call = CallWatch opts")
    case True
    then have "call_log net cd c call log = log @ replicate (Suc 0) (to_http (call_request cd c call))"
      using None by (simp add: call_log_request Watch_def)
    then show ?thesis using that(2) [OF None, of 0] by (simp add: maxRetries_def)
  next
    case False
    then show ?thesis using do_request_log [of net "call_request cd c call" log] that None by (auto simp: call_log_request)
  qed
qed

lemma call_log_sent:
  assumes "client_at base (mpc_client c)" and "call_log net cd c call log \<noteq> log"
  obtains n where "n < maxRetries"
    "call_log net cd c call log = log @ replicate (Suc n) (to_http (call_request cd c call))"
    "hr_Method (to_http (call_request cd c call)) = call_verb call"
    "hr_Path (to_http (call_request cd c call)) = proxies_path base (mpc_ns c) (call_name call) (call_subs call)"
    "IsValidPathSegmentName (mpc_ns c) = []" "IsValidPathSegmentName (call_name call) = []"
    "\<forall>s \<in> set (call_subs call). IsValidPathSegmentName s = []"
proof (cases net cd c call log rule: call_log_cases)
  case 1
  then show ?thesis using assms(2) by simp
next
  case (2 n)
  note path = built_path [OF assms(1) call_request_built 2(1)]
  show ?thesis using that [OF 2(2,3) path(2)] path by (simp add: call_subs_raw)
qed

lemma proxies_path_inject:
  assumes "proxies_path base ns name subs = proxies_path base ns' name' subs'" and "good_segments base"
    and "IsValidPathSegmentName ns = []" "IsValidPathSegmentName name = []" "good_segments subs"
    and "IsValidPathSegmentName ns' = []" "IsValidPathSegmentName name' = []" "good_segments subs'"
  shows "ns = ns' \<and> optional name @ subs = optional name' @ subs'"
proof -
  let ?ss = "\<lambda>ns name subs. base @ [''apis'', GroupName, SchemeVersion] @ (if ns = [] then [] else [''namespaces'', ns])
    @ [''memcachedproxies''] @ optional name @ subs"
  have good: "good_segments (?ss n m u)" if "IsValidPathSegmentName n = []" "IsValidPathSegmentName m = []" "good_segments u" for n m u
    using that assms(2) good_api_root [of base] good_optional [of m]
    by (auto simp: api_root_def valid_segment plain_def)
  have "?ss ns name subs = ?ss ns' name' subs'"
    using assms(1) good [OF assms(3-5)] good [OF assms(6-8)]
    unfolding proxies_path_def good_segments_def by (intro slashed_inject) blast+
  then show ?thesis by (auto split: if_splits)
qed

section \<open>What is sent\<close>

fun named :: "call \<Rightarrow> bool" where
  "named (CallGet _ _) = True"
| "named (CallUpdate _) = True"
| "named (CallDelete _ _) = True"
| "named (CallPatch _ _ _ _) = True"
| "named _ = False"

fun encodes :: "codecs \<Rightarrow> call \<Rightarrow> bool" where
  "encodes cd (CallGet _ options) = (\<not> isl (cd_GetOptions cd options))"
| "encodes cd (CallList opts) = (\<not> isl (cd_ListOptions cd opts))"
| "encodes cd (CallWatch opts) = (\<not> isl (cd_ListOptions cd (opts\<lparr>lo_Watch := True\<rparr>)))"
| "encodes cd (CallCreate p) = (case p of None \<Rightarrow> True | Some p \<Rightarrow> \<not> isl (cd_encode cd p))"
| "encodes cd (CallUpdate p) = (\<not> isl (cd_encode cd p))"
| "encodes cd (CallDelete _ options) = (case options of None \<Rightarrow> True | Some o1 \<Rightarrow> \<not> isl (cd_DeleteOptions cd o1))"
| "encodes cd (CallDeleteCollection options lopts) =
     ((case options of None \<Rightarrow> True | Some o1 \<Rightarrow> \<not> isl (cd_DeleteOptions cd o1)) \<and> \<not> isl (cd_ListOptions cd lopts))"
| "encodes cd (CallPatch _ _ _ _) = True"

fun needs_namespace :: "call \<Rightarrow> bool" where
  \<comment> \<open>a patch is not checked\<close>
  "needs_namespace (CallGet _ _) = True"
| "needs_namespace (CallUpdate _) = True"
| "needs_namespace (CallDelete _ _) = True"
| "needs_namespace (CallCreate _) = True"
| "needs_namespace _ = False"

definition well_formed :: "codecs \<Rightarrow> string \<Rightarrow> call \<Rightarrow> bool" where
  "well_formed cd ns call \<longleftrightarrow> IsValidPathSegmentName ns = [] \<and> (needs_namespace call \<longrightarrow> ns \<noteq> [])
     \<and> (named call \<longrightarrow> call_name call \<noteq> [] \<and> IsValidPathSegmentName (call_name call) = [])
     \<and> (\<forall>s \<in> set (raw_subs call). IsValidPathSegmentName s = []) \<and> encodes cd call"

lemma unless_err_None: "r_err (unless_err f r) = None \<longleftrightarrow> r_err r = None \<and> r_err (f r) = None"
  by (auto simp: unless_err_def)

lemma resource_request_simps:
  "r_err (resource_request verb c) = None \<longleftrightarrow> IsValidPathSegmentName (mpc_ns c) = []"
  "r_resourceName (resource_request verb c) = []" "r_subresource (resource_request verb c) = []"
proof -
  have "IsValidPathSegmentName ''memcachedproxies'' = []" by code_simp
  then show "r_err (resource_request verb c) = None \<longleftrightarrow> IsValidPathSegmentName (mpc_ns c) = []"
    "r_resourceName (resource_request verb c) = []" "r_subresource (resource_request verb c) = []"
    by (simp_all add: resource_request_def Resource_def Namespace_def NewRequest_def SetHeader_def unless_err_def invalid_def fail_def)
qed

lemma err_simps:
  "r_err (VersionedParams ps r) = None \<longleftrightarrow> r_err r = None \<and> \<not> isl ps"
  "r_resourceName r = [] \<Longrightarrow> r_err (Name n r) = None \<longleftrightarrow> r_err r = None \<and> n \<noteq> [] \<and> IsValidPathSegmentName n = []"
  "r_err (Body ct arg r) = None \<longleftrightarrow> r_err r = None \<and> (case arg of Encoded enc \<Rightarrow> \<not> isl enc | _ \<Rightarrow> True)"
  "r_subresource r = [] \<Longrightarrow> r_err (SubResource subs r) = None \<longleftrightarrow> r_err r = None \<and> (\<forall>s \<in> set subs. IsValidPathSegmentName s = [])"
  "r_err (SetHeader k v r) = r_err r"
  by (auto simp: VersionedParams_def Name_def Body_def SubResource_def SetHeader_def unless_err_None filter_empty_conv
      split: sum.splits body_arg.splits list.splits)

lemma field_simps_Name:
  "r_resourceName (SubResource subs r) = r_resourceName r" "r_resourceName (SetHeader k v r) = r_resourceName r"
  by (auto simp: SubResource_def SetHeader_def unless_err_def fail_def invalid_def split: list.split)

lemma SetHeader_commutes:
  "Resource res (Namespace ns (SetHeader k v r)) = SetHeader k v (Resource res (Namespace ns r))"
proof -
  have "Namespace ns (SetHeader k v r) = SetHeader k v (Namespace ns r)" for r
    by (cases "IsValidPathSegmentName ns = []"; cases "r_namespaceSet r")
      (simp_all add: Namespace_def unless_err_def invalid_def fail_def SetHeader_def)
  moreover have "Resource res (SetHeader k v r) = SetHeader k v (Resource res r)" for r
    by (cases "IsValidPathSegmentName res = []"; cases "r_resource r = []")
      (simp_all add: Resource_def unless_err_def invalid_def fail_def SetHeader_def)
  ultimately show ?thesis by simp
qed

lemma call_request_ok:
  "r_err (call_request cd c call) = None \<longleftrightarrow> IsValidPathSegmentName (mpc_ns c) = []
     \<and> (named call \<longrightarrow> call_name call \<noteq> [] \<and> IsValidPathSegmentName (call_name call) = [])
     \<and> (\<forall>s \<in> set (raw_subs call). IsValidPathSegmentName s = []) \<and> encodes cd call"
proof (cases call)
  case (CallPatch name pt data subs)
  let ?r = "SetHeader ''Content-Type'' pt (resource_request ''PATCH'' c)"
  have r: "call_request cd c call = Body (rc_ContentType (mpc_client c)) (Bytes data) (Name name (SubResource subs ?r))"
    using CallPatch by (simp add: SetHeader_commutes resource_request_def)
  have "r_subresource ?r = []" "r_resourceName (SubResource subs ?r) = []"
    by (simp_all add: field_simps_Name resource_request_simps) (simp add: SetHeader_def resource_request_simps)
  then show ?thesis unfolding r using CallPatch by (auto simp: err_simps resource_request_simps)
qed (auto simp: object_body_def options_body_def err_simps resource_request_simps split: option.splits)

lemma call_log_unchanged:
  "call_log net cd c call log = log \<longleftrightarrow> \<not> well_formed cd (mpc_ns c) call"
proof (cases "r_err (call_request cd c call)")
  case (Some err)
  then have "call_log net cd c call log = log" by (simp add: call_log_request do_request_def Watch_def)
  moreover have "\<not> well_formed cd (mpc_ns c) call" using Some call_request_ok [of cd c call] by (auto simp: well_formed_def)
  ultimately show ?thesis by simp
next
  case None
  have r: "r_verb (call_request cd c call) = call_verb call" "r_namespaceSet (call_request cd c call)"
    "r_namespace (call_request cd c call) = mpc_ns c" "r_resourceName (call_request cd c call) = call_name call"
    using call_request_built [of call c cd] None by (auto simp: built_def)
  have sent: "snd (send net q left log) \<noteq> log" for q left using send_log [of left net q log] by auto
  have do_iff: "snd (do_request net (call_request cd c call) log) = log \<longleftrightarrow>
      (call_verb call \<in> {''GET'', ''PUT'', ''DELETE''} \<and> call_name call \<noteq> [] \<or> call_verb call = ''POST'') \<and> mpc_ns c = []"
    unfolding do_request_def None r using sent r(2) by auto
  have "call_log net cd c call log = log \<longleftrightarrow> needs_namespace call \<and> mpc_ns c = []"
  proof (cases "\<exists>opts. call = CallWatch opts")
    case True
    then show ?thesis using None by (auto simp: call_log_request Watch_def simp del: call_request.simps)
  next
    case False
    have "named call \<longrightarrow> call_name call \<noteq> []" using None call_request_ok [of cd c call] by blast
    then show ?thesis unfolding call_log_request using False do_iff by (cases call) auto
  qed
  then show ?thesis using None call_request_ok [of cd c call] by (auto simp: well_formed_def)
qed

text \<open>What the requests of any call are.\<close>

lemma client_call_requests:
  assumes "client_NewForConfig dl ua cfg = Inr cl" and "dl_serverPath dl (setConfigDefaults ua cfg) = Inr base"
    and "good_segments (segments base)"
  shows "\<exists>n \<le> maxRetries. \<exists>q. call_log net cd (MemcachedProxies cl ns) call log = log @ replicate n q
    \<and> (n > 0 \<longrightarrow> hr_Method q = call_verb call
         \<and> hr_Path q = proxies_path (segments base) ns (call_name call) (call_subs call))"
proof (cases "call_log net cd (MemcachedProxies cl ns) call log = log")
  case True
  then show ?thesis by (intro exI [of _ 0]) simp
next
  case False
  have at: "client_at (segments base) (mpc_client (MemcachedProxies cl ns))" "mpc_ns (MemcachedProxies cl ns) = ns"
    using client_NewForConfig_at [OF assms] by (simp_all add: MemcachedProxies_def newMemcachedProxies_def)
  show ?thesis
    by (rule call_log_sent [OF at(1) False]) (use at(2) in \<open>metis Suc_leI\<close>)
qed

section \<open>Properties\<close>

text \<open>
  C15. A client made from a configuration talks about the object it is asked about: whatever the network does, a call
  sends one request, at most ten times, with the verb of the operation and the path that the API conventions give to the
  namespace, the name and the subresources of the call, below the path of the server. In particular a write is never sent to another object.
\<close>

theorem client_requests_path:
  assumes "client_NewForConfig dl ua cfg = Inr cl" and "dl_serverPath dl (setConfigDefaults ua cfg) = Inr base"
    and "good_segments (segments base)"
  shows "\<exists>n \<le> maxRetries. \<exists>q. call_log net cd (MemcachedProxies cl ns) call log = log @ replicate n q
    \<and> (n > 0 \<longrightarrow> hr_Method q = call_verb call
         \<and> hr_Path q = proxies_path (segments base) ns (call_name call) (call_subs call))"
  by (rule client_call_requests [OF assms])

text \<open>
  C29. A call is sent exactly when it is well-formed: its namespace, name and subresources can be segments of a path, what needs a name
  or a namespace has one, and options and object can be encoded. Otherwise no request leaves the program.
\<close>

theorem client_sends_iff:
  "call_log net cd (MemcachedProxies cl ns) call log = log \<longleftrightarrow> \<not> well_formed cd ns call"
  using call_log_unchanged [of net cd "MemcachedProxies cl ns" call log]
  by (simp add: MemcachedProxies_def newMemcachedProxies_def)

text \<open>
  C30. The path of a request determines what it is about: if requests of two calls, through clients of the same server, have
  the same path, then the calls have the same namespace, and they have the same name and subresources.
\<close>

theorem client_paths_faithful:
  assumes "client_NewForConfig dl ua cfg = Inr cl" and "dl_serverPath dl (setConfigDefaults ua cfg) = Inr base"
    and "good_segments (segments base)"
    and "q \<in> set (call_log net cd (MemcachedProxies cl ns) call [])"
    and "q' \<in> set (call_log net cd (MemcachedProxies cl ns') call' [])"
    and "hr_Path q = hr_Path q'"
  shows "ns = ns' \<and> call_name call = call_name call' \<and> call_subs call = call_subs call'"
proof -
  have *: "hr_Path r = proxies_path (segments base) n (call_name k) (call_subs k) \<and> IsValidPathSegmentName n = []
      \<and> IsValidPathSegmentName (call_name k) = [] \<and> good_segments (call_subs k) \<and> (call_name k = [] \<longrightarrow> call_subs k = [])"
    if sent: "r \<in> set (call_log net cd (MemcachedProxies cl n) k [])" for r n k
  proof -
    let ?c = "MemcachedProxies cl n"
    have at: "client_at (segments base) (mpc_client ?c)" and ns: "mpc_ns ?c = n"
      using client_NewForConfig_at [OF assms(1-3)] by (simp_all add: MemcachedProxies_def newMemcachedProxies_def)
    have nonempty: "call_log net cd ?c k [] \<noteq> []" using sent by auto
    then have "well_formed cd n k" using call_log_unchanged [of net cd ?c k "[]"] ns by simp
    then have "call_name k = [] \<longrightarrow> call_subs k = []" by (cases k) (auto simp: well_formed_def)
    then show ?thesis
      by (rule_tac call_log_sent [OF at nonempty])
        (use sent ns in \<open>auto simp: good_segments_def valid_segment call_subs_raw\<close>)
  qed
  have "ns = ns' \<and> optional (call_name call) @ call_subs call = optional (call_name call') @ call_subs call'"
    using * [OF assms(4)] * [OF assms(5)] assms(3,6) by (intro proxies_path_inject [of "segments base"]) simp_all
  then show ?thesis using * [OF assms(4)] * [OF assms(5)] by (auto simp: optional_def split: if_splits)
qed

section \<open>Examples\<close>

definition example_dial :: dial where
  "example_dial = \<lparr>dl_serverPath = (\<lambda>_. Inr ''/k8s''), dl_transport = (\<lambda>_. None)\<rparr>"

definition example_config :: config where
  "example_config = \<lparr>cfg_Host = ''https://example.org/k8s'', cfg_APIPath = [], cfg_GroupVersion = None,
     cfg_NegotiatedSerializer = False, cfg_ContentType = [], cfg_UserAgent = [], cfg_QPS = 0, cfg_Burst = 0,
     cfg_RateLimiter = None, cfg_Rest = []\<rparr>"

definition example_client :: IanlewisV1alpha1Client where
  "example_client = client_New (NewRESTClient ''/k8s'' ''/apis/ianlewis.org/v1alpha1'' example_config)"

definition example_codecs :: codecs where
  "example_codecs = \<lparr>cd_GetOptions = (\<lambda>_. Inr []), cd_ListOptions = (\<lambda>_. Inr []), cd_DeleteOptions = Inr,
     cd_encode = (\<lambda>p. Inr (om_Name (mp_Meta p))), cd_decode = (\<lambda>_. (zero_proxy, None)),
     cd_decodeList = (\<lambda>_. (zero_list, None)), cd_statusError = (\<lambda>_. ErrorString ''refused'')\<rparr>"

definition no_options :: ListOptions where
  "no_options = \<lparr>lo_LabelSelector = [], lo_FieldSelector = [], lo_Watch = False, lo_ResourceVersion = [], lo_Rest = []\<rparr>"

definition ok_network :: network where
  "ok_network log q = Response \<lparr>rp_StatusCode = 200, rp_RetryAfter = None, rp_Body = ''{}''\<rparr>"

lemma example_client_made:
  "client_NewForConfig example_dial [] example_config = Inr example_client"
  "dl_serverPath example_dial (setConfigDefaults [] example_config) = Inr ''/k8s''"
  "good_segments (segments ''/k8s'')" "segments ''/k8s'' = [''k8s'']"
proof -
  show "client_NewForConfig example_dial [] example_config = Inr example_client" by code_simp
  show "dl_serverPath example_dial (setConfigDefaults [] example_config) = Inr ''/k8s''" by (simp add: example_dial_def)
  show segs: "segments ''/k8s'' = [''k8s'']" by code_simp
  show "good_segments (segments ''/k8s'')" unfolding segs by (simp add: plain_def)
qed

theorem client_requests_path_witness:
  "\<exists>n q. n > 0 \<and> call_log ok_network example_codecs (MemcachedProxies example_client ''default'') (CallUpdate example_proxy) []
       = replicate n q
     \<and> hr_Method q = ''PUT'' \<and> hr_Path q = ''/k8s/apis/ianlewis.org/v1alpha1/namespaces/default/memcachedproxies/example''"
proof -
  obtain n q where nq: "call_log ok_network example_codecs (MemcachedProxies example_client ''default'') (CallUpdate example_proxy) []
      = [] @ replicate n q"
    "n > 0 \<longrightarrow> hr_Method q = call_verb (CallUpdate example_proxy)
       \<and> hr_Path q = proxies_path (segments ''/k8s'') ''default'' (call_name (CallUpdate example_proxy)) (call_subs (CallUpdate example_proxy))"
    using client_requests_path [OF example_client_made(1-3), of ok_network example_codecs "''default''" "CallUpdate example_proxy" "[]"]
    by blast
  have "well_formed example_codecs ''default'' (CallUpdate example_proxy)" by code_simp
  then have "n > 0"
    using nq(1) call_log_unchanged [of ok_network example_codecs "MemcachedProxies example_client ''default''" "CallUpdate example_proxy" "[]"]
    by (cases n) (simp_all add: MemcachedProxies_def newMemcachedProxies_def)
  moreover have "proxies_path [''k8s''] ''default'' (call_name (CallUpdate example_proxy)) (call_subs (CallUpdate example_proxy))
      = ''/k8s/apis/ianlewis.org/v1alpha1/namespaces/default/memcachedproxies/example''"
    by code_simp
  ultimately show ?thesis using nq unfolding example_client_made(4) by auto
qed

theorem client_paths_faithful_witness:
  "\<exists>q q'. q \<in> set (call_log ok_network example_codecs (MemcachedProxies example_client ''default'') (CallGet ''example'' []) [])
     \<and> q' \<in> set (call_log ok_network example_codecs (MemcachedProxies example_client ''default'') (CallUpdate example_proxy) [])
     \<and> hr_Path q = hr_Path q' \<and> call_name (CallGet ''example'' []) = call_name (CallUpdate example_proxy)"
proof -
  let ?log = "call_log ok_network example_codecs (MemcachedProxies example_client ''default'')"
  let ?q = "hd (?log (CallGet ''example'' []) [])" and ?q' = "hd (?log (CallUpdate example_proxy) [])"
  have "?q \<in> set (?log (CallGet ''example'' []) [])" "?q' \<in> set (?log (CallUpdate example_proxy) [])" "hr_Path ?q = hr_Path ?q'"
    by code_simp+
  then show ?thesis using client_paths_faithful [OF example_client_made(1-3)] by blast
qed

end
