(* ===== verification/ClientWiring.thy ===== *)
theory ClientWiring
  imports ProxyController ProxyClient
begin

text \<open>
  The proxy controller on the real client. The controllers are modelled over a server that answers a call by the calls made so far
  (\<open>env_api\<close>, theory \<open>Cluster\<close>); the one call the proxy controller makes, \<open>c.client.IanlewisV1alpha1().MemcachedProxies(ns).Update\<close>,
  goes through the generated client. \<open>wired\<close> is the server as the controller sees it then: the answer to an update is what the
  client makes of the responses of the network, after the requests that the earlier updates have sent.
\<close>

section \<open>Definitions\<close>

definition call_requests :: "network \<Rightarrow> codecs \<Rightarrow> 'd clientset \<Rightarrow> action \<Rightarrow> log \<Rightarrow> log" where
  \<comment> \<open>the requests for proxies after one more call; the other calls go to another clientset\<close>
  "call_requests net cd cs a log =
     (case a of
        UpdateProxy ns p \<Rightarrow> call_log net cd (MemcachedProxies (IanlewisV1alpha1 cs) ns) (CallUpdate p) log
      | _ \<Rightarrow> log)"

definition requests :: "network \<Rightarrow> codecs \<Rightarrow> 'd clientset \<Rightarrow> action list \<Rightarrow> log" where
  "requests net cd cs calls = fold (call_requests net cd cs) calls []"

definition update_answer :: "((MemcachedProxy \<times> go_error option) \<times> log) option \<Rightarrow> go_error + ObjectMeta" where
  \<comment> \<open>the controller tests \<open>err\<close> and drops the object\<close>
  "update_answer res =
     (case res of
        Some ((obj, None), _) \<Rightarrow> Inr (mp_Meta obj)
      | Some ((_, Some err), _) \<Rightarrow> Inl err
      | None \<Rightarrow> Inl (ErrorString ''nil pointer''))"

definition wired :: "network \<Rightarrow> codecs \<Rightarrow> 'd clientset \<Rightarrow> env \<Rightarrow> env" where
  "wired net cd cs e = e\<lparr>env_api := (\<lambda>calls a.
     case a of
       UpdateProxy ns p \<Rightarrow>
         update_answer (proxies_Update net cd (MemcachedProxies (IanlewisV1alpha1 cs) ns) (Some p) (requests net cd cs calls))
     | _ \<Rightarrow> env_api e calls a)\<rparr>"

section \<open>Lemmas\<close>

lemma requests_snoc: "requests net cd cs (calls @ [a]) = call_requests net cd cs a (requests net cd cs calls)"
  by (simp add: requests_def)

lemma update_body:
  assumes "well_formed cd (mpc_ns c) (CallUpdate p)"
  shows "\<exists>data. cd_encode cd p = Inr data \<and> r_body (call_request cd c (CallUpdate p)) = Some data"
proof -
  have "r_err (call_request cd c (CallUpdate p)) = None"
    using assms call_request_ok [of cd c "CallUpdate p"] by (simp add: well_formed_def del: call_request.simps)
  then have "r_err (Name (om_Name (mp_Meta p)) (resource_request ''PUT'' c)) = None" and "\<not> isl (cd_encode cd p)"
    by (simp_all add: object_body_def err_simps)
  then show ?thesis by (cases "cd_encode cd p") (simp_all add: object_body_def Body_def SetHeader_def)
qed

lemma update_requests:
  assumes "client_NewForConfig dl ua cfg = Inr cl" and "dl_serverPath dl (setConfigDefaults ua cfg) = Inr base"
    and "good_segments (segments base)"
  shows "\<exists>n \<le> maxRetries. \<exists>q. call_log net cd (MemcachedProxies cl ns) (CallUpdate p) log = log @ replicate n q
    \<and> (n = 0 \<longleftrightarrow> \<not> well_formed cd ns (CallUpdate p))
    \<and> (n > 0 \<longrightarrow> hr_Method q = ''PUT'' \<and> hr_Path q = proxies_path (segments base) ns (om_Name (mp_Meta p)) []
         \<and> (\<exists>data. cd_encode cd p = Inr data \<and> hr_Body q = Some data))"
proof -
  let ?c = "MemcachedProxies cl ns" and ?call = "CallUpdate p"
  obtain n q where nq: "n \<le> maxRetries" "call_log net cd ?c ?call log = log @ replicate n q"
    "n > 0 \<longrightarrow> hr_Method q = ''PUT'' \<and> hr_Path q = proxies_path (segments base) ns (om_Name (mp_Meta p)) []"
    using client_call_requests [OF assms, of net cd ns ?call log] by auto
  have ns: "mpc_ns ?c = ns" by (simp add: MemcachedProxies_def newMemcachedProxies_def)
  have zero: "n = 0 \<longleftrightarrow> \<not> well_formed cd ns ?call"
    using call_log_unchanged [of net cd ?c ?call log] nq(2) by (simp add: ns)
  have "\<exists>data. cd_encode cd p = Inr data \<and> hr_Body q = Some data" if "n > 0"
  proof -
    have wf: "well_formed cd (mpc_ns ?c) ?call" using that zero by (simp add: ns)
    have "call_log net cd ?c ?call log = snd (do_request net (call_request cd ?c ?call) log)"
      unfolding call_log_request by simp
    then obtain m where "log @ replicate n q = log @ replicate m (to_http (call_request cd ?c ?call))"
      using do_request_log [of net "call_request cd ?c ?call" log] nq(2) that by (metis append_self_conv replicate_empty)
    then have "q = to_http (call_request cd ?c ?call)" using that by (auto simp: replicate_eq_replicate)
    then show ?thesis using update_body [OF wf] by (simp add: to_http_def del: call_request.simps)
  qed
  then show ?thesis using nq zero by blast
qed

lemma clientset_client:
  assumes "clientset_NewForConfig dl ua newDiscovery cfg = Inr cs"
  obtains cfg' where "cfg_Host cfg' = cfg_Host cfg" and "client_NewForConfig dl ua cfg' = Inr (IanlewisV1alpha1 cs)"
proof -
  let ?c = "if cfg_RateLimiter cfg = None \<and> cfg_QPS cfg > 0 then cfg\<lparr>cfg_RateLimiter := Some (cfg_QPS cfg, cfg_Burst cfg)\<rparr> else cfg"
  have "client_NewForConfig dl ua ?c = Inr (IanlewisV1alpha1 cs)"
    using assms unfolding clientset_NewForConfig_def IanlewisV1alpha1_def Let_def by (auto simp del: if_split split: sum.splits)
  then show ?thesis by (rule that [rotated]) simp
qed

lemma setConfigDefaults_Host: "cfg_Host (setConfigDefaults ua cfg) = cfg_Host cfg"
  by (simp add: setConfigDefaults_def Let_def)

section \<open>Properties\<close>

text \<open>
  C13. What the proxy controller does to the server: a sync of a cached proxy sends nothing when the proxy is settled, and otherwise one
  request, at most ten times, which puts to the path of that proxy, in its own namespace and under its own name, and carries
  the encoded proxy with defaults set and generation observed. It sends nothing as well when the client refuses the call, which it does exactly
  when the names cannot be put in a path or the proxy cannot be encoded. The path below the host depends on the host only.
\<close>

theorem proxy_sync_requests:
  assumes "clientset_NewForConfig dl ua newDiscovery cfg = Inr cs"
    and "\<forall>c. cfg_Host c = cfg_Host cfg \<longrightarrow> dl_serverPath dl c = Inr base" and "good_segments (segments base)"
    and "SplitMetaNamespaceKey key = Inr (ns, name)" and "get_proxy (ctl_cluster st) ns name = Inr p"
    and "p' = updateStatus (ApplyDefaults p)"
  shows "\<exists>n \<le> maxRetries. \<exists>q. requests net cd cs (cl_actions (ctl_cluster (snd (proxy_syncHandler (wired net cd cs e) key st))))
      = requests net cd cs (cl_actions (ctl_cluster st)) @ replicate n q
    \<and> (n = 0 \<longleftrightarrow> settled p \<or> \<not> well_formed cd (om_Namespace (mp_Meta p)) (CallUpdate p'))
    \<and> (n > 0 \<longrightarrow> hr_Method q = ''PUT''
         \<and> hr_Path q = proxies_path (segments base) (om_Namespace (mp_Meta p)) (om_Name (mp_Meta p)) []
         \<and> (\<exists>data. cd_encode cd p' = Inr data \<and> hr_Body q = Some data))"
proof (cases "settled p")
  case True
  then show ?thesis
    by (intro exI [of _ "0 :: nat"]) (simp add: proxy_sync_result [OF assms(4,5)])
next
  case False
  obtain cfg' where client: "cfg_Host cfg' = cfg_Host cfg" "client_NewForConfig dl ua cfg' = Inr (IanlewisV1alpha1 cs)"
    by (rule clientset_client [OF assms(1)])
  have base: "dl_serverPath dl (setConfigDefaults ua cfg') = Inr base"
    using assms(2) client(1) by (simp add: setConfigDefaults_Host)
  have meta: "mp_Meta p' = mp_Meta p" by (simp add: assms(6))
  let ?a = "UpdateProxy (om_Namespace (mp_Meta p)) p'"
  have "cl_actions (ctl_cluster (snd (proxy_syncHandler (wired net cd cs e) key st))) = cl_actions (ctl_cluster st) @ [?a]"
    using False by (simp add: proxy_sync_result [OF assms(4,5)] assms(6) Let_def on_cluster_def)
  then have "requests net cd cs (cl_actions (ctl_cluster (snd (proxy_syncHandler (wired net cd cs e) key st))))
      = call_log net cd (MemcachedProxies (IanlewisV1alpha1 cs) (om_Namespace (mp_Meta p))) (CallUpdate p')
          (requests net cd cs (cl_actions (ctl_cluster st)))"
    by (simp add: requests_snoc call_requests_def)
  then show ?thesis
    using update_requests [OF client(2) base assms(3), of net cd "om_Namespace (mp_Meta p)" p'
        "requests net cd cs (cl_actions (ctl_cluster st))"] False by (simp add: meta)
qed

section \<open>Witnesses\<close>

definition example_clientset :: "unit clientset" where
  "example_clientset = \<lparr>cs_discovery = (), cs_ianlewisV1alpha1 = example_client\<rparr>"

definition unobserved_cluster :: cluster where
  \<comment> \<open>the example proxy as it was created\<close>
  "unobserved_cluster = empty_cluster\<lparr>cl_proxies := ix_Add mp_Meta example_proxy new_indexer\<rparr>"

theorem proxy_sync_requests_witness:
  "\<exists>n q. n > 0 \<and> requests ok_network example_codecs example_clientset (cl_actions (ctl_cluster (snd (proxy_syncHandler
        (wired ok_network example_codecs example_clientset accepting_env) ''default/example'' (start unobserved_cluster)))))
      = replicate n q
    \<and> hr_Method q = ''PUT'' \<and> hr_Path q = ''/k8s/apis/ianlewis.org/v1alpha1/namespaces/default/memcachedproxies/example''"
proof -
  let ?p = "updateStatus (ApplyDefaults example_proxy)"
  have made: "clientset_NewForConfig example_dial [] (\<lambda>_. Inr ()) example_config = Inr example_clientset"
    unfolding clientset_NewForConfig_def example_clientset_def by code_simp
  have base: "\<forall>c. cfg_Host c = cfg_Host example_config \<longrightarrow> dl_serverPath example_dial c = Inr ''/k8s''"
    by (simp add: example_dial_def)
  have cached: "get_proxy (ctl_cluster (start unobserved_cluster)) ''default'' ''example'' = Inr example_proxy"
    by (rule get_proxy_example) (simp_all add: unobserved_cluster_def start_def)
  have wf: "well_formed example_codecs (om_Namespace (mp_Meta example_proxy)) (CallUpdate ?p)" by code_simp
  have empty: "requests ok_network example_codecs example_clientset (cl_actions (ctl_cluster (start unobserved_cluster))) = []"
    by (simp add: requests_def start_def unobserved_cluster_def empty_cluster_def)
  have path: "proxies_path [''k8s''] ''default'' ''example'' [] = ''/k8s/apis/ianlewis.org/v1alpha1/namespaces/default/memcachedproxies/example''"
    by code_simp
  show ?thesis
    using proxy_sync_requests [OF made base example_client_made(3) example_key cached refl,
        of ok_network example_codecs accepting_env] not_settled_example wf
    unfolding empty example_client_made(4) by (auto simp: path)
qed

end
