(* ===== verification/ProxyInformers.thy ===== *)
theory ProxyInformers
  imports ProxyClient Indexer
begin

text \<open>
  The generated informers and listers of the custom resource. internal/client/informers/externalversions: the informer of
  ianlewis/v1alpha1, which main.go uses, the filtered one of ianlewis.org/v1alpha1, and the shared informer factory (factory.go,
  generic.go and the two interface.go of ianlewis.org). internal/client/listers/ianlewis/v1alpha1: the lister that the controllers
  use.

  An informer is given by how it lists and watches, by the type it is for, its resync period and its index functions; what it does
  with the answers is part of client-go's cache (theory \<open>OperatorSystem\<close>). The factory shares informers, so it is
  modelled over informers of any type; \<open>f_running\<close> records the goroutines that \<open>Start\<close> has begun.
\<close>

section \<open>Listers\<close>

definition ListAll ::
  "(string list \<Rightarrow> string list) \<Rightarrow> ('a \<Rightarrow> ObjectMeta) \<Rightarrow> 'a indexer \<Rightarrow> selector \<Rightarrow> go_error + 'a list" where
  "ListAll ord mt ix sel = append_matching mt sel (map (map_of (ix_items ix)) (ord (keys (ix_items ix))))"

record memcachedProxyLister =
  pl_indexer :: "MemcachedProxy indexer"

record memcachedProxyNamespaceLister =
  nl_indexer :: "MemcachedProxy indexer"
  nl_namespace :: string

definition NewMemcachedProxyLister :: "MemcachedProxy indexer \<Rightarrow> memcachedProxyLister" where
  "NewMemcachedProxyLister ix = \<lparr>pl_indexer = ix\<rparr>"

definition lister_List ::
  "(string list \<Rightarrow> string list) \<Rightarrow> memcachedProxyLister \<Rightarrow> selector \<Rightarrow> go_error + MemcachedProxy list" where
  "lister_List ord s sel = ListAll ord mp_Meta (pl_indexer s) sel"

definition lister_MemcachedProxies :: "memcachedProxyLister \<Rightarrow> string \<Rightarrow> memcachedProxyNamespaceLister" where
  "lister_MemcachedProxies s ns = \<lparr>nl_indexer = pl_indexer s, nl_namespace = ns\<rparr>"

definition namespaceLister_List ::
  "(string list \<Rightarrow> string list) \<Rightarrow> memcachedProxyNamespaceLister \<Rightarrow> selector \<Rightarrow> go_error + MemcachedProxy list" where
  "namespaceLister_List ord s sel = ListAllByNamespace ord mp_Meta (nl_indexer s) (nl_namespace s) sel"

definition namespaceLister_Get :: "memcachedProxyNamespaceLister \<Rightarrow> string \<Rightarrow> go_error + MemcachedProxy" where
  "namespaceLister_Get s name =
     (case ix_GetByKey (nl_namespace s @ ''/'' @ name) (nl_indexer s) of
        None \<Rightarrow> Inl (NewNotFound (api_Resource ''memcachedproxy'') name)
      | Some obj \<Rightarrow> Inr obj)"

section \<open>Informers\<close>

record shared_index_informer =
  si_List :: "ListOptions \<Rightarrow> log \<Rightarrow> (MemcachedProxyList \<times> go_error option) \<times> log"
  si_Watch :: "ListOptions \<Rightarrow> log \<Rightarrow> (go_error + string) \<times> log"
  si_type :: go_type
  si_resync :: nat
  si_indexers :: "string list"

definition NewMemcachedProxyInformer ::
  "network \<Rightarrow> codecs \<Rightarrow> 'd clientset \<Rightarrow> string \<Rightarrow> nat \<Rightarrow> string list \<Rightarrow> shared_index_informer" where
  \<comment> \<open>of ianlewis/v1alpha1\<close>
  "NewMemcachedProxyInformer net cd cs ns resyncPeriod indexers =
     \<lparr>si_List = (\<lambda>options. proxies_List net cd (MemcachedProxies (IanlewisV1alpha1 cs) ns) options),
      si_Watch = (\<lambda>options. proxies_Watch net cd (MemcachedProxies (IanlewisV1alpha1 cs) ns) options),
      si_type = api_type ''MemcachedProxy'', si_resync = resyncPeriod, si_indexers = indexers\<rparr>"

definition defaultMemcachedProxyInformer ::
  "network \<Rightarrow> codecs \<Rightarrow> 'd clientset \<Rightarrow> nat \<Rightarrow> shared_index_informer" where
  "defaultMemcachedProxyInformer net cd cs resyncPeriod = NewMemcachedProxyInformer net cd cs [] resyncPeriod [''namespace'']"

type_synonym tweak = "(ListOptions \<Rightarrow> ListOptions) option"

definition tweaked :: "tweak \<Rightarrow> ListOptions \<Rightarrow> ListOptions" where
  \<comment> \<open>\<open>if tweakListOptions != nil { tweakListOptions(&options) }\<close>\<close>
  "tweaked tweakListOptions options = (case tweakListOptions of None \<Rightarrow> options | Some f \<Rightarrow> f options)"

definition NewFilteredMemcachedProxyInformer ::
  "network \<Rightarrow> codecs \<Rightarrow> 'd clientset \<Rightarrow> string \<Rightarrow> nat \<Rightarrow> string list \<Rightarrow> tweak \<Rightarrow> shared_index_informer" where
  "NewFilteredMemcachedProxyInformer net cd cs ns resyncPeriod indexers tweakListOptions =
     \<lparr>si_List = (\<lambda>options. proxies_List net cd (MemcachedProxies (IanlewisV1alpha1 cs) ns) (tweaked tweakListOptions options)),
      si_Watch = (\<lambda>options. proxies_Watch net cd (MemcachedProxies (IanlewisV1alpha1 cs) ns) (tweaked tweakListOptions options)),
      si_type = api_type ''MemcachedProxy'', si_resync = resyncPeriod, si_indexers = indexers\<rparr>"

definition org_NewMemcachedProxyInformer ::
  "network \<Rightarrow> codecs \<Rightarrow> 'd clientset \<Rightarrow> string \<Rightarrow> nat \<Rightarrow> string list \<Rightarrow> shared_index_informer" where
  \<comment> \<open>of ianlewis.org/v1alpha1\<close>
  "org_NewMemcachedProxyInformer net cd cs ns resyncPeriod indexers =
     NewFilteredMemcachedProxyInformer net cd cs ns resyncPeriod indexers None"

section \<open>The factory\<close>

record ('c, 'i) sharedInformerFactory =
  f_client :: 'c
  f_namespace :: string
  f_tweakListOptions :: tweak
  f_defaultResync :: nat
  f_informers :: "(go_type \<times> 'i) list"
  f_startedInformers :: "(go_type \<times> bool) list"
  f_running :: "(go_type \<times> 'i) list"

definition NewFilteredSharedInformerFactory :: "'c \<Rightarrow> nat \<Rightarrow> string \<Rightarrow> tweak \<Rightarrow> ('c, 'i) sharedInformerFactory" where
  "NewFilteredSharedInformerFactory client defaultResync ns tweakListOptions =
     \<lparr>f_client = client, f_namespace = ns, f_tweakListOptions = tweakListOptions, f_defaultResync = defaultResync,
      f_informers = [], f_startedInformers = [], f_running = []\<rparr>"

definition NewSharedInformerFactory :: "'c \<Rightarrow> nat \<Rightarrow> ('c, 'i) sharedInformerFactory" where
  "NewSharedInformerFactory client defaultResync = NewFilteredSharedInformerFactory client defaultResync [] None"

definition started :: "('c, 'i) sharedInformerFactory \<Rightarrow> go_type \<Rightarrow> bool" where
  \<comment> \<open>\<open>f.startedInformers[informerType]\<close>: a missing entry is false\<close>
  "started f t = (map_of (f_startedInformers f) t = Some True)"

definition start_informer :: "go_type \<Rightarrow> ('c, 'i) sharedInformerFactory \<Rightarrow> ('c, 'i) sharedInformerFactory" where
  \<comment> \<open>the body of the loop of \<open>Start\<close>\<close>
  "start_informer t f =
     (case map_of (f_informers f) t of
        None \<Rightarrow> f
      | Some i \<Rightarrow>
          if started f t then f
          else f\<lparr>f_running := f_running f @ [(t, i)], f_startedInformers := map_put t True (f_startedInformers f)\<rparr>)"

definition factory_Start ::
  "(go_type list \<Rightarrow> go_type list) \<Rightarrow> ('c, 'i) sharedInformerFactory \<Rightarrow> ('c, 'i) sharedInformerFactory" where
  \<comment> \<open>the first argument is the order in which the map is visited\<close>
  "factory_Start ord f = fold start_informer (ord (keys (f_informers f))) f"

definition factory_WaitForCacheSync :: "('i \<Rightarrow> bool) \<Rightarrow> ('c, 'i) sharedInformerFactory \<Rightarrow> (go_type \<times> bool) list" where
  \<comment> \<open>the first argument says which informers have synced before the stop channel is closed\<close>
  "factory_WaitForCacheSync synced f =
     map (\<lambda>(t, i). (t, synced i)) (filter (\<lambda>(t, i). started f t) (f_informers f))"

definition factory_InformerFor ::
  "go_type \<Rightarrow> ('c \<Rightarrow> nat \<Rightarrow> 'i) \<Rightarrow> ('c, 'i) sharedInformerFactory \<Rightarrow> 'i \<times> ('c, 'i) sharedInformerFactory" where
  "factory_InformerFor informerType newFunc f =
     (case map_of (f_informers f) informerType of
        Some i \<Rightarrow> (i, f)
      | None \<Rightarrow>
          (let i = newFunc (f_client f) (f_defaultResync f)
           in (i, f\<lparr>f_informers := map_put informerType i (f_informers f)\<rparr>)))"

text \<open>
  \<open>group\<close>, \<open>version\<close> and \<open>memcachedProxyInformer\<close> of ianlewis.org pass the factory, the namespace and the filter on. The factory
  is the state here, so a value of these types is its other two fields.
\<close>

record informer_scope =
  ac_namespace :: string
  ac_tweakListOptions :: tweak

definition group_New :: "string \<Rightarrow> tweak \<Rightarrow> informer_scope" where
  "group_New ns tweakListOptions = \<lparr>ac_namespace = ns, ac_tweakListOptions = tweakListOptions\<rparr>"

definition version_New :: "string \<Rightarrow> tweak \<Rightarrow> informer_scope" where
  "version_New ns tweakListOptions = \<lparr>ac_namespace = ns, ac_tweakListOptions = tweakListOptions\<rparr>"

definition group_V1alpha1 :: "informer_scope \<Rightarrow> informer_scope" where
  "group_V1alpha1 g = version_New (ac_namespace g) (ac_tweakListOptions g)"

definition version_MemcachedProxies :: "informer_scope \<Rightarrow> informer_scope" where
  "version_MemcachedProxies v = \<lparr>ac_namespace = ac_namespace v, ac_tweakListOptions = ac_tweakListOptions v\<rparr>"

definition factory_Ianlewis :: "('c, 'i) sharedInformerFactory \<Rightarrow> informer_scope" where
  "factory_Ianlewis f = group_New (f_namespace f) (f_tweakListOptions f)"

definition defaultInformer :: "network \<Rightarrow> codecs \<Rightarrow> informer_scope \<Rightarrow> 'd clientset \<Rightarrow> nat \<Rightarrow> shared_index_informer" where
  "defaultInformer net cd f client resyncPeriod =
     NewFilteredMemcachedProxyInformer net cd client (ac_namespace f) resyncPeriod [''namespace''] (ac_tweakListOptions f)"

definition proxyInformer_Informer ::
  "network \<Rightarrow> codecs \<Rightarrow> informer_scope \<Rightarrow> ('d clientset, shared_index_informer) sharedInformerFactory
     \<Rightarrow> shared_index_informer \<times> ('d clientset, shared_index_informer) sharedInformerFactory" where
  "proxyInformer_Informer net cd a = factory_InformerFor (api_type ''MemcachedProxy'') (defaultInformer net cd a)"

record genericInformer =
  gi_informer :: shared_index_informer
  gi_resource :: "string \<times> string"

definition ForResource ::
  "network \<Rightarrow> codecs \<Rightarrow> (string \<times> string) \<times> string \<Rightarrow> ('d clientset, shared_index_informer) sharedInformerFactory
     \<Rightarrow> (go_error + genericInformer) \<times> ('d clientset, shared_index_informer) sharedInformerFactory" where
  \<comment> \<open>a resource is given by its group and version and its name. The error prints it with \<open>%v\<close>\<close>
  "ForResource net cd resource f =
     (if resource = (SchemeGroupVersion, ''memcachedproxies'') then
        (let (i, f') = proxyInformer_Informer net cd (version_MemcachedProxies (group_V1alpha1 (factory_Ianlewis f))) f
         in (Inr \<lparr>gi_informer = i, gi_resource = (fst (fst resource), snd resource)\<rparr>, f'))
      else (Inl (ErrorString (''no informer found for '' @ fst (fst resource) @ ''/'' @ snd (fst resource)
              @ '', Resource='' @ snd resource)), f))"

section \<open>Any use of a factory\<close>

text \<open>The states a factory can be in: what is made by its constructor, and then any sequence of its operations.\<close>

inductive factory_reachable :: "('c, 'i) sharedInformerFactory \<Rightarrow> bool" where
  new: "factory_reachable (NewFilteredSharedInformerFactory client resync ns tweakListOptions)"
| informer: "factory_reachable f \<Longrightarrow> factory_reachable (snd (factory_InformerFor t newFunc f))"
| start: "factory_reachable f \<Longrightarrow> factory_reachable (factory_Start ord f)" if "\<forall>ts. mset (ord ts) = mset ts"

definition factory_inv :: "('c, 'i) sharedInformerFactory \<Rightarrow> bool" where
  "factory_inv f \<longleftrightarrow> distinct (keys (f_informers f)) \<and> distinct (keys (f_running f))
     \<and> set (f_running f) \<subseteq> set (f_informers f)
     \<and> (\<forall>t. started f t \<longleftrightarrow> t \<in> set (keys (f_running f)))"

section \<open>Lemmas\<close>

lemma factory_inv_new: "factory_inv (NewFilteredSharedInformerFactory client resync ns tweakListOptions)"
  by (simp add: factory_inv_def NewFilteredSharedInformerFactory_def started_def)

lemma InformerFor_known: "map_of (f_informers f) t = Some i \<Longrightarrow> factory_InformerFor t newFunc f = (i, f)"
  by (simp add: factory_InformerFor_def)

lemma map_put_fresh: "map_of m k = None \<Longrightarrow> map_put k v m = m @ [(k, v)]"
  by (induction k v m rule: map_put.induct) (auto split: if_splits)

lemma factory_inv_InformerFor:
  assumes "factory_inv f"
  shows "factory_inv (snd (factory_InformerFor t newFunc f))"
proof (cases "map_of (f_informers f) t")
  case None
  then show ?thesis
    using assms by (auto simp: factory_InformerFor_def factory_inv_def started_def Let_def map_put_fresh)
qed (use assms in \<open>simp add: InformerFor_known\<close>)

lemma start_informer_simps [simp]:
  "f_informers (start_informer t f) = f_informers f"
  by (simp add: start_informer_def split: option.split)

lemma start_informer_started:
  assumes "factory_inv f"
  shows "started (start_informer t f) u \<longleftrightarrow> started f u \<or> (u = t \<and> t \<in> set (keys (f_informers f)))"
proof (cases "map_of (f_informers f) t")
  case None
  then have "t \<notin> set (keys (f_informers f))" by (simp add: map_of_eq_None_iff)
  then show ?thesis using None by (simp add: start_informer_def)
next
  case (Some i)
  then have "t \<in> set (keys (f_informers f))" by (metis map_of_eq_None_iff option.distinct(1) set_map)
  then show ?thesis using Some by (auto simp: start_informer_def started_def)
qed

lemma factory_inv_start_informer:
  assumes "factory_inv f"
  shows "factory_inv (start_informer t f)"
proof (cases "map_of (f_informers f) t")
  case (Some i)
  show ?thesis
  proof (cases "started f t")
    case False
    then have "t \<notin> set (keys (f_running f))" using assms by (simp add: factory_inv_def)
    moreover have "(t, i) \<in> set (f_informers f)" using Some by (rule map_of_SomeD)
    ultimately show ?thesis using assms Some False by (auto simp: factory_inv_def start_informer_def started_def)
  qed (use assms Some in \<open>simp add: start_informer_def\<close>)
qed (use assms in \<open>simp add: start_informer_def\<close>)

lemma fold_start_informer:
  "factory_inv f \<Longrightarrow> factory_inv (fold start_informer ts f) \<and> f_informers (fold start_informer ts f) = f_informers f
     \<and> (started (fold start_informer ts f) u \<longleftrightarrow> started f u \<or> (u \<in> set ts \<and> u \<in> set (keys (f_informers f))))"
proof (induction ts arbitrary: f)
  case (Cons t ts)
  show ?case
    using Cons.IH [OF factory_inv_start_informer [OF Cons.prems, of t]] start_informer_started [OF Cons.prems, of t u] by auto
qed simp

lemma factory_Start_inv:
  assumes "factory_inv f" and "\<forall>ts. mset (ord ts) = mset ts"
  shows "factory_inv (factory_Start ord f)" "f_informers (factory_Start ord f) = f_informers f"
    "started (factory_Start ord f) t \<longleftrightarrow> t \<in> set (keys (f_informers f))"
proof -
  have "set (ord (keys (f_informers f))) = set (keys (f_informers f))" using assms(2) perm_set by metis
  moreover have "started f t \<longrightarrow> t \<in> set (keys (f_informers f))" using assms(1) by (auto simp: factory_inv_def)
  ultimately show "factory_inv (factory_Start ord f)" "f_informers (factory_Start ord f) = f_informers f"
    "started (factory_Start ord f) t \<longleftrightarrow> t \<in> set (keys (f_informers f))"
    using fold_start_informer [OF assms(1)] unfolding factory_Start_def by blast+
qed

lemma reachable_inv: "factory_reachable f \<Longrightarrow> factory_inv f"
  by (induction rule: factory_reachable.induct) (auto intro: factory_inv_new factory_inv_InformerFor factory_Start_inv)

lemma sub_alist_iff:
  assumes "distinct (keys m)" and "set r \<subseteq> set m"
  shows "(t, i) \<in> set r \<longleftrightarrow> (t, i) \<in> set m \<and> t \<in> set (keys r)"
proof
  assume "(t, i) \<in> set m \<and> t \<in> set (keys r)"
  then obtain j where "(t, j) \<in> set r" "(t, i) \<in> set m" by auto
  then show "(t, i) \<in> set r" using assms eq_key_imp_eq_value by fast
qed (use assms(2) in force)

lemma factory_inv_running:
  "factory_inv f \<Longrightarrow> (t, i) \<in> set (f_running f) \<longleftrightarrow> (t, i) \<in> set (f_informers f) \<and> started f t"
  unfolding factory_inv_def using sub_alist_iff [of "f_informers f" "f_running f" t i] by simp

lemma InformerFor_stays:
  assumes "map_of (f_informers f) t = Some i"
  shows "map_of (f_informers (snd (factory_InformerFor u newFunc f))) t = Some i"
  using assms by (auto simp: factory_InformerFor_def Let_def split: option.split)

lemma informer_requests:
  assumes "client_NewForConfig dl ua cfg = Inr cl" and "dl_serverPath dl (setConfigDefaults ua cfg) = Inr base"
    and "good_segments (segments base)"
  shows "\<exists>n \<le> maxRetries. \<exists>q. snd (proxies_List net cd (MemcachedProxies cl ns) opts log) = log @ replicate n q
      \<and> (n > 0 \<longrightarrow> hr_Method q = ''GET'' \<and> hr_Path q = proxies_path (segments base) ns [] [])"
    "\<exists>n \<le> maxRetries. \<exists>q. snd (proxies_Watch net cd (MemcachedProxies cl ns) opts log) = log @ replicate n q
      \<and> (n > 0 \<longrightarrow> hr_Method q = ''GET'' \<and> hr_Path q = proxies_path (segments base) ns [] [])"
  using client_call_requests [OF assms, of net cd ns "CallList opts" log]
    client_call_requests [OF assms, of net cd ns "CallWatch opts" log] by simp_all

section \<open>Properties\<close>

text \<open>
  C16. A factory in any state it can reach has at most one informer for each type and has begun to run it at most once, and only
  informers it handed out run. An informer, once made, is the one that every later request for its type gets, whatever
  constructor it names; and after \<open>Start\<close> every informer requested so far runs, exactly once.
\<close>

theorem factory_shares_and_starts_once:
  assumes "factory_reachable f" and "\<forall>ts. mset (ord ts) = mset ts"
  shows "distinct (keys (f_informers f)) \<and> distinct (keys (f_running f)) \<and> set (f_running f) \<subseteq> set (f_informers f)
    \<and> (\<forall>t newFunc i f'. factory_InformerFor t newFunc f = (i, f') \<longrightarrow>
         (\<forall>newFunc'. factory_InformerFor t newFunc' f' = (i, f')))
    \<and> mset (f_running (factory_Start ord f)) = mset (f_informers f)"
proof -
  have inv: "factory_inv f" using assms(1) by (rule reachable_inv)
  have again: "factory_InformerFor t newFunc' f' = (i, f')" if "factory_InformerFor t newFunc f = (i, f')" for t newFunc newFunc' i f'
    using that by (auto simp: factory_InformerFor_def Let_def split: option.splits)
  have inv': "factory_inv (factory_Start ord f)" by (rule factory_Start_inv [OF inv assms(2)])
  have informers: "f_informers (factory_Start ord f) = f_informers f" by (rule factory_Start_inv [OF inv assms(2)])
  have "(t, i) \<in> set (f_running (factory_Start ord f)) \<longleftrightarrow> (t, i) \<in> set (f_informers f)" for t i
    using factory_inv_running [OF inv', of t i] factory_Start_inv(3) [OF inv assms(2), of t] informers by force
  then have "set (f_running (factory_Start ord f)) = set (f_informers f)" by auto
  moreover have "distinct (f_running (factory_Start ord f))" "distinct (f_informers f)"
    using inv inv' unfolding factory_inv_def by (simp_all add: distinct_map)
  ultimately have "mset (f_running (factory_Start ord f)) = mset (f_informers f)" by (simp add: set_eq_iff_mset_eq_distinct)
  moreover have "\<forall>t newFunc i f'. factory_InformerFor t newFunc f = (i, f') \<longrightarrow> (\<forall>newFunc'. factory_InformerFor t newFunc' f' = (i, f'))"
    using again by blast
  ultimately show ?thesis using inv unfolding factory_inv_def by blast
qed

text \<open>
  The informer that main.go makes for proxies reads the namespace it was given and nothing else: all its lists and watches are \<open>GET\<close>
  requests for the proxies of that namespace, or of all namespaces when it is empty. The filtered informer differs only in the
  options it sends.
\<close>

theorem informer_reads_its_namespace:
  assumes "client_NewForConfig dl ua cfg = Inr cl" and "dl_serverPath dl (setConfigDefaults ua cfg) = Inr base"
    and "good_segments (segments base)"
    and "i \<in> {NewMemcachedProxyInformer net cd \<lparr>cs_discovery = d, cs_ianlewisV1alpha1 = cl\<rparr> ns resync indexers,
             NewFilteredMemcachedProxyInformer net cd \<lparr>cs_discovery = d, cs_ianlewisV1alpha1 = cl\<rparr> ns resync indexers tweakOptions}"
    and "log' \<in> {snd (si_List i options log), snd (si_Watch i options log)}"
  shows "\<exists>n \<le> maxRetries. \<exists>q. log' = log @ replicate n q
    \<and> (n > 0 \<longrightarrow> hr_Method q = ''GET'' \<and> hr_Path q = proxies_path (segments base) ns [] [])"
proof -
  have "\<exists>opts. log' = snd (proxies_List net cd (MemcachedProxies cl ns) opts log)
      \<or> log' = snd (proxies_Watch net cd (MemcachedProxies cl ns) opts log)"
    using assms(4,5) by (auto simp: NewMemcachedProxyInformer_def NewFilteredMemcachedProxyInformer_def IanlewisV1alpha1_def)
  then show ?thesis using informer_requests [OF assms(1-3), of net cd ns _ log] by blast
qed

text \<open>
  \<open>ForResource\<close> knows one resource. For it, it returns the informer that the typed accessor of the factory returns, and
  changes the factory as that one does; for any other it returns an error and changes nothing.
\<close>

theorem ForResource_cases:
  "ForResource net cd resource f =
     (if resource = ((GroupName, SchemeVersion), ''memcachedproxies'') then
        (let (i, f') = proxyInformer_Informer net cd \<lparr>ac_namespace = f_namespace f, ac_tweakListOptions = f_tweakListOptions f\<rparr> f
         in (Inr \<lparr>gi_informer = i, gi_resource = (GroupName, ''memcachedproxies'')\<rparr>, f'))
      else (Inl (ErrorString (''no informer found for '' @ fst (fst resource) @ ''/'' @ snd (fst resource)
              @ '', Resource='' @ snd resource)), f))"
  by (simp add: ForResource_def SchemeGroupVersion_def version_MemcachedProxies_def group_V1alpha1_def version_New_def
      factory_Ianlewis_def group_New_def)

text \<open>
  \<open>WaitForCacheSync\<close> reports on the informers that run, and on no other.
\<close>

theorem WaitForCacheSync_running:
  assumes "factory_reachable f"
  shows "map_of (factory_WaitForCacheSync synced f) t = map_option synced (map_of (f_running f) t)"
proof -
  note inv = reachable_inv [OF assms]
  have waits: "(t, b) \<in> set (factory_WaitForCacheSync synced f) \<longleftrightarrow> (\<exists>i. (t, i) \<in> set (f_running f) \<and> b = synced i)" for t b
    using factory_inv_running [OF inv] by (auto simp: factory_WaitForCacheSync_def)
  have distinct: "distinct (keys (factory_WaitForCacheSync synced f))" "distinct (keys (f_running f))"
    using inv unfolding factory_WaitForCacheSync_def factory_inv_def
    by (simp_all add: comp_def case_prod_beta distinct_map_filter)
  show ?thesis
  proof (cases "map_of (f_running f) t")
    case None
    then have "(t, i) \<notin> set (f_running f)" for i using weak_map_of_SomeI [of t i "f_running f"] by auto
    then have "(t, b) \<notin> set (factory_WaitForCacheSync synced f)" for b using waits by simp
    then have "map_of (factory_WaitForCacheSync synced f) t = None" by (meson map_of_SomeD not_Some_eq)
    then show ?thesis using None by simp
  next
    case (Some i)
    then have "(t, synced i) \<in> set (factory_WaitForCacheSync synced f)" using waits map_of_SomeD [OF Some] by blast
    then show ?thesis using Some map_of_is_SomeI [OF distinct(1)] by simp
  qed
qed

text \<open>
  The generated lister: \<open>List\<close> returns the matching proxies of every namespace, and the \<open>Get\<close> of a namespace lister the proxy with
  that namespace and name, or a not-found error.
\<close>

theorem proxy_lister_complete:
  assumes "ix_inv mp_Meta ix" and "permutes_order ord"
  shows "(\<exists>xs. lister_List ord (NewMemcachedProxyLister ix) sel = Inr xs \<and> distinct xs
       \<and> set xs = {p \<in> objects ix. Matches sel (om_Labels (mp_Meta p))})
    \<and> namespaceLister_Get (lister_MemcachedProxies (NewMemcachedProxyLister ix) ns) name
        = lister_Get (api_Resource ''memcachedproxy'') ix ns name"
proof -
  have "lister_List ord (NewMemcachedProxyLister ix) sel = ListAllByNamespace ord mp_Meta ix [] sel"
    by (simp add: lister_List_def ListAll_def NewMemcachedProxyLister_def ListAllByNamespace_def)
  moreover obtain xs where "ListAllByNamespace ord mp_Meta ix [] sel = Inr (filter (\<lambda>p. Matches sel (om_Labels (mp_Meta p))) xs)"
    "distinct xs" "set xs = objects ix"
    using ListAllByNamespace_eq [OF assms, of "[]" sel] by auto
  ultimately show ?thesis
    by (auto simp: namespaceLister_Get_def lister_MemcachedProxies_def NewMemcachedProxyLister_def lister_Get_def)
qed

section \<open>Examples\<close>

definition example_factory :: "(unit, nat) sharedInformerFactory" where
  "example_factory = snd (factory_InformerFor (api_type ''B'') (\<lambda>_ _. 2)
     (factory_Start id (snd (factory_InformerFor (api_type ''A'') (\<lambda>_ _. 1) (NewSharedInformerFactory () 0)))))"

lemma example_factory_reachable: "factory_reachable example_factory"
  unfolding example_factory_def NewSharedInformerFactory_def by (intro factory_reachable.intros) simp

theorem factory_shares_and_starts_once_witness:
  "f_running example_factory = [(api_type ''A'', 1)] \<and> mset (f_running (factory_Start rev example_factory)) = mset (f_informers example_factory)"
proof
  show "f_running example_factory = [(api_type ''A'', 1)]" by code_simp
  show "mset (f_running (factory_Start rev example_factory)) = mset (f_informers example_factory)"
    using factory_shares_and_starts_once [OF example_factory_reachable, of rev] by simp
qed

theorem informer_reads_its_namespace_witness:
  "\<exists>n q. n > 0 \<and> snd (si_List (NewMemcachedProxyInformer ok_network example_codecs
       \<lparr>cs_discovery = (), cs_ianlewisV1alpha1 = example_client\<rparr> ''default'' 0 []) no_options []) = replicate n q
     \<and> hr_Method q = ''GET'' \<and> hr_Path q = ''/k8s/apis/ianlewis.org/v1alpha1/namespaces/default/memcachedproxies''"
proof -
  let ?i = "NewMemcachedProxyInformer ok_network example_codecs \<lparr>cs_discovery = (), cs_ianlewisV1alpha1 = example_client\<rparr> ''default'' 0 []"
  have "\<exists>n \<le> maxRetries. \<exists>q. snd (si_List ?i no_options []) = [] @ replicate n q
     \<and> (n > 0 \<longrightarrow> hr_Method q = ''GET'' \<and> hr_Path q = proxies_path (segments ''/k8s'') ''default'' [] [])"
    by (rule informer_reads_its_namespace [OF example_client_made(1-3)]) blast+
  then obtain n q where nq: "snd (si_List ?i no_options []) = replicate n q"
    "n > 0 \<longrightarrow> hr_Method q = ''GET'' \<and> hr_Path q = proxies_path [''k8s''] ''default'' [] []"
    unfolding example_client_made(4) by auto
  have "well_formed example_codecs ''default'' (CallList no_options)" by code_simp
  then have "snd (si_List ?i no_options []) \<noteq> []"
    using call_log_unchanged [of ok_network example_codecs "MemcachedProxies example_client ''default''" "CallList no_options" "[]"]
    by (simp add: NewMemcachedProxyInformer_def IanlewisV1alpha1_def MemcachedProxies_def newMemcachedProxies_def)
  then have "n > 0" using nq(1) by (cases n) simp_all
  moreover have "proxies_path [''k8s''] ''default'' [] [] = ''/k8s/apis/ianlewis.org/v1alpha1/namespaces/default/memcachedproxies''"
    by code_simp
  ultimately show ?thesis using nq by auto
qed

end
