(* ===== verification/OperatorMain.thy ===== *)
theory OperatorMain
  imports ProxyController ServiceController ConfigMapController ClientWiring ProxyInformers
begin

text \<open>
  The program's entry point, main.go, with what it uses of the controller manager (controllerutil): the four
  controllers are registered under their names, constructed with informers that are shared by type, and run until the
  context is cancelled or one of them fails.

  The command line is given as the record \<open>flags\<close>. What client-go does is the parameter \<open>boot\<close>: reading a kubeconfig, building the
  core clientset, setting up the connection, the scheme \<open>scheme.Scheme\<close> as it is before \<open>main\<close>, and the manager's \<open>Run\<close> once the
  controllers are constructed. The generated clientset is built by its own model (theory \<open>ProxyClient\<close>), the types are registered by
  the model of \<open>AddToScheme\<close> (theory \<open>Scheme\<close>), and the proxies are read by the generated informer (theory \<open>ProxyInformers\<close>). A
  registered constructor is modelled by the controller it builds and by the calls to \<open>InformerFor\<close> it makes, in the
  order of the arguments of \<open>New\<close>. Cancelling the context on a signal is the step \<open>step_cancel\<close> of theory \<open>OperatorSystem\<close>.
\<close>

section \<open>Flags\<close>

record flags =
  fl_kubeconfig :: string
  fl_namespace :: string
  fl_defaultResync :: nat
  fl_serviceWorkers :: int
  fl_configMapWorkers :: int

definition NamespaceAll :: string where "NamespaceAll = []"

definition default_flags :: flags where
  \<comment> \<open>the defaults given to the \<open>flag\<close> package; durations are in nanoseconds\<close>
  "default_flags = \<lparr>fl_kubeconfig = [], fl_namespace = NamespaceAll, fl_defaultResync = 12 * 3600 * second,
     fl_serviceWorkers = 5, fl_configMapWorkers = 5\<rparr>"

section \<open>Shared informers\<close>

record informer_options =
  io_namespace :: string
  io_resync :: nat
  io_indexers :: "string list"

type_synonym registry = "(informer \<times> informer_options) list"

definition InformerFor :: "informer \<Rightarrow> informer_options \<Rightarrow> registry \<Rightarrow> informer_options \<times> registry" where
  \<comment> \<open>\<open>SharedInformers.InformerFor\<close>: the constructor is called for the first request of a type only\<close>
  "InformerFor kind opts reg =
     (case map_of reg kind of
        Some made \<Rightarrow> (made, reg)
      | None \<Rightarrow> (opts, reg @ [(kind, opts)]))"

definition informer_opts :: "flags \<Rightarrow> informer_options" where
  \<comment> \<open>every informer of main.go is made with the same three arguments\<close>
  "informer_opts f = \<lparr>io_namespace = fl_namespace f, io_resync = fl_defaultResync f, io_indexers = [''namespace'']\<rparr>"

definition request_informers :: "flags \<Rightarrow> informer list \<Rightarrow> registry \<Rightarrow> registry" where
  "request_informers f kinds reg = fold (\<lambda>kind reg. snd (InformerFor kind (informer_opts f) reg)) kinds reg"

section \<open>The registrations\<close>

record registration =
  reg_name :: string
  reg_informers :: "informer list"
  reg_controller :: controller

definition register_proxy :: "flags \<Rightarrow> registration" where
  "register_proxy f =
     \<lparr>reg_name = ''memcached-proxy'', reg_informers = [ProxyInformer],
      reg_controller = proxy_New ''memcached-proxy'' (fl_serviceWorkers f)\<rparr>"

definition register_service :: "flags \<Rightarrow> registration" where
  "register_service f =
     \<lparr>reg_name = ''memcached-proxy-service'', reg_informers = [ProxyInformer, ServiceInformer],
      reg_controller = service_New ''memcached-proxy-service'' (fl_serviceWorkers f)\<rparr>"

definition register_configmap :: "flags \<Rightarrow> registration" where
  "register_configmap f =
     \<lparr>reg_name = ''memcached-proxy-configmap'',
      reg_informers = [ProxyInformer, ConfigMapInformer, DeploymentInformer, ReplicaSetInformer, ServiceInformer, EndpointsInformer],
      reg_controller = configmap_New ''memcached-proxy-configmap'' (fl_namespace f) (fl_configMapWorkers f)\<rparr>"

definition register_deployment :: "flags \<Rightarrow> registration" where
  "register_deployment f =
     \<lparr>reg_name = ''memcached-proxy-deployment'', reg_informers = [ProxyInformer, DeploymentInformer, ConfigMapInformer],
      reg_controller = deployment_New ''memcached-proxy-deployment'' (fl_configMapWorkers f)\<rparr>"

definition Register :: "registration \<Rightarrow> (string \<times> registration) list \<Rightarrow> (string \<times> registration) list" where
  "Register r m = map_put (reg_name r) r m"

definition manager :: "flags \<Rightarrow> (string \<times> registration) list" where
  "manager f = Register (register_deployment f) (Register (register_configmap f)
     (Register (register_service f) (Register (register_proxy f) [])))"

section \<open>Construction\<close>

definition construct :: "(string list \<Rightarrow> string list) \<Rightarrow> flags \<Rightarrow> controller list \<times> registry" where
  \<comment> \<open>the first loop of \<open>ControllerManager.Run\<close>: it ranges over a map, \<open>ord\<close> is the order it takes\<close>
  "construct ord f =
     (let regs = List.map_filter (map_of (manager f)) (ord (keys (manager f)))
      in (map reg_controller regs, fold (\<lambda>r. request_informers f (reg_informers r)) regs []))"

section \<open>The program\<close>

record 'd boot =
  su_kubeconfig :: "string \<Rightarrow> go_error + config"
  su_inCluster :: "go_error + config"
  su_client :: "config \<Rightarrow> go_error option"
  su_dial :: dial
  su_userAgent :: string
  su_newDiscovery :: "config \<Rightarrow> go_error + 'd"
  su_scheme :: scheme
  su_run :: "scheme \<Rightarrow> 'd clientset \<Rightarrow> controller list \<Rightarrow> registry \<Rightarrow> go_error option"

definition buildConfig :: "'d boot \<Rightarrow> string \<Rightarrow> go_error + config" where
  "buildConfig su kubeconfig = (if kubeconfig \<noteq> [] then su_kubeconfig su kubeconfig else su_inCluster su)"

definition proxy_informer :: "network \<Rightarrow> codecs \<Rightarrow> 'd clientset \<Rightarrow> registry \<Rightarrow> shared_index_informer option" where
  \<comment> \<open>the informer for proxies that the controllers share, once it has been requested\<close>
  "proxy_informer net cd ianlewisorgClient reg =
     map_option (\<lambda>opts. NewMemcachedProxyInformer net cd ianlewisorgClient (io_namespace opts) (io_resync opts) (io_indexers opts))
       (map_of reg ProxyInformer)"

datatype exit = Exitf string | Panics | Returns

definition run_manager :: "'d boot \<Rightarrow> scheme \<Rightarrow> 'd clientset \<Rightarrow> controller list \<times> registry \<Rightarrow> exit" where
  \<comment> \<open>the message prints the error with \<open>%#v\<close>; its text stands for that here\<close>
  "run_manager su sch ianlewisorgClient constructed =
     (case su_run su sch ianlewisorgClient (fst constructed) (snd constructed) of
        Some err \<Rightarrow> Exitf (''Unhandled error received. Exiting: '' @ ErrorText err)
      | None \<Rightarrow> Returns)"

definition register_types :: "'d boot \<Rightarrow> scheme option" where
  \<comment> \<open>adds the repository's types to \<open>scheme.Scheme\<close>; the result of \<open>AddToScheme\<close> is dropped, but it may panic\<close>
  "register_types su = AddToScheme (su_scheme su)"

definition main :: "'d boot \<Rightarrow> (string list \<Rightarrow> string list) \<Rightarrow> flags \<Rightarrow> exit" where
  "main su ord f =
     (case buildConfig su (fl_kubeconfig f) of
        Inl err \<Rightarrow> Exitf (''Could not read kubeconfig '' @ Quote (fl_kubeconfig f) @ '': '' @ ErrorText err)
      | Inr config \<Rightarrow>
          (case su_client su config of
             Some err \<Rightarrow> Exitf (''Could not create Kubernetes API client: '' @ ErrorText err)
           | None \<Rightarrow>
               (case clientset_NewForConfig (su_dial su) (su_userAgent su) (su_newDiscovery su) config of
                  Inl err \<Rightarrow> Exitf (''Could not create ianlewis.org API client: '' @ ErrorText err)
                | Inr ianlewisorgClient \<Rightarrow>
                    (case register_types su of
                       None \<Rightarrow> Panics
                     | Some sch \<Rightarrow> run_manager su sch ianlewisorgClient (construct ord f)))))"

section \<open>Lemmas\<close>

lemma manager_eq:
  "manager f = [(''memcached-proxy'', register_proxy f), (''memcached-proxy-service'', register_service f),
     (''memcached-proxy-configmap'', register_configmap f), (''memcached-proxy-deployment'', register_deployment f)]"
  by (simp add: manager_def Register_def register_proxy_def register_service_def register_configmap_def register_deployment_def)

lemma register_simps [simp]:
  "reg_controller (register_proxy f) = proxy_New ''memcached-proxy'' (fl_serviceWorkers f)"
  "reg_controller (register_service f) = service_New ''memcached-proxy-service'' (fl_serviceWorkers f)"
  "reg_controller (register_configmap f) = configmap_New ''memcached-proxy-configmap'' (fl_namespace f) (fl_configMapWorkers f)"
  "reg_controller (register_deployment f) = deployment_New ''memcached-proxy-deployment'' (fl_configMapWorkers f)"
  by (simp_all add: register_proxy_def register_service_def register_configmap_def register_deployment_def)

lemma New_names [simp]:
  "c_name (proxy_New n w) = n" "c_name (service_New n w) = n" "c_name (configmap_New n ns w) = n" "c_name (deployment_New n w) = n"
  "c_workers (proxy_New n w) = w" "c_workers (service_New n w) = w" "c_workers (configmap_New n ns w) = w"
  "c_workers (deployment_New n w) = w"
  "c_Run (proxy_New n w) = Run" "c_Run (service_New n w) = Run" "c_Run (configmap_New n ns w) = Run" "c_Run (deployment_New n w) = Run"
  by (simp_all add: registration_defs Let_def)

text \<open>A registry in which every type occurs once, with the options of the flags.\<close>

definition shared :: "flags \<Rightarrow> registry \<Rightarrow> bool" where
  "shared f reg \<longleftrightarrow> distinct (keys reg) \<and> (\<forall>(kind, opts) \<in> set reg. opts = informer_opts f)"

lemma InformerFor_shared:
  assumes "shared f reg"
  shows "shared f (snd (InformerFor kind (informer_opts f) reg))"
    "set (keys (snd (InformerFor kind (informer_opts f) reg))) = insert kind (set (keys reg))"
    "fst (InformerFor kind (informer_opts f) reg) = informer_opts f"
proof -
  have "shared f (snd (InformerFor kind (informer_opts f) reg))
    \<and> set (keys (snd (InformerFor kind (informer_opts f) reg))) = insert kind (set (keys reg))
    \<and> fst (InformerFor kind (informer_opts f) reg) = informer_opts f"
  proof (cases "map_of reg kind")
    case None
    then have new: "InformerFor kind (informer_opts f) reg = (informer_opts f, reg @ [(kind, informer_opts f)])"
      by (simp add: InformerFor_def)
    have "kind \<notin> set (keys reg)" using None by (simp add: map_of_eq_None_iff)
    then show ?thesis using assms unfolding new by (auto simp: shared_def)
  next
    case (Some opts)
    note known = map_of_SomeD [OF Some]
    then have "opts = informer_opts f" using assms by (auto simp: shared_def)
    moreover have "kind \<in> set (keys reg)" using known by force
    ultimately show ?thesis using assms Some by (simp add: InformerFor_def insert_absorb)
  qed
  then show "shared f (snd (InformerFor kind (informer_opts f) reg))"
    "set (keys (snd (InformerFor kind (informer_opts f) reg))) = insert kind (set (keys reg))"
    "fst (InformerFor kind (informer_opts f) reg) = informer_opts f" by blast+
qed

lemma request_informers_shared:
  assumes "shared f reg"
  shows "shared f (request_informers f kinds reg)"
    "set (keys (request_informers f kinds reg)) = set kinds \<union> set (keys reg)"
proof -
  have "shared f (request_informers f kinds reg) \<and> set (keys (request_informers f kinds reg)) = set kinds \<union> set (keys reg)"
    using assms
  proof (induction kinds arbitrary: reg)
    case (Cons kind kinds)
    let ?reg = "snd (InformerFor kind (informer_opts f) reg)"
    have "request_informers f (kind # kinds) reg = request_informers f kinds ?reg" by (simp add: request_informers_def)
    then show ?case using Cons.IH [of ?reg] InformerFor_shared [OF Cons.prems] by auto
  qed (simp add: request_informers_def)
  then show "shared f (request_informers f kinds reg)"
    "set (keys (request_informers f kinds reg)) = set kinds \<union> set (keys reg)" by auto
qed

lemma requests_shared:
  "shared f reg \<Longrightarrow> shared f (fold (\<lambda>r. request_informers f (reg_informers r)) rs reg)
     \<and> set (keys (fold (\<lambda>r. request_informers f (reg_informers r)) rs reg)) = \<Union> (set ` reg_informers ` set rs) \<union> set (keys reg)"
proof (induction rs arbitrary: reg)
  case (Cons r rs)
  then show ?case using request_informers_shared [OF Cons.prems, of "reg_informers r"] by auto
qed simp

lemma constructed_registrations:
  assumes "permutes_order ord"
  shows "mset (List.map_filter (map_of (manager f)) (ord (keys (manager f))))
    = {#register_proxy f, register_service f, register_configmap f, register_deployment f#}"
proof -
  have "mset (ord (keys (manager f))) = mset (keys (manager f))" using assms by (simp add: permutes_order_def)
  then have "mset (List.map_filter (map_of (manager f)) (ord (keys (manager f)))) = mset (List.map_filter (map_of (manager f)) (keys (manager f)))"
    by (simp add: List.map_filter_def)
  then show ?thesis by (simp add: manager_eq List.map_filter_simps)
qed

lemma constructed_informers:
  assumes "permutes_order ord"
  shows "map_of (snd (construct ord f)) kind = Some (informer_opts f)" and "distinct (keys (snd (construct ord f)))"
proof -
  let ?regs = "List.map_filter (map_of (manager f)) (ord (keys (manager f)))"
  let ?reg = "snd (construct ord f)"
  have set_regs: "set ?regs = {register_proxy f, register_service f, register_configmap f, register_deployment f}"
    using arg_cong [OF constructed_registrations [OF assms, of f], of set_mset] by simp
  have "shared f ?reg \<and> set (keys ?reg) = \<Union> (set ` reg_informers ` set ?regs)"
    using requests_shared [of f "[]" ?regs] by (simp add: construct_def Let_def shared_def)
  moreover have "kind \<in> \<Union> (set ` reg_informers ` set ?regs)"
    unfolding set_regs by (cases kind) (simp_all add: register_configmap_def)
  ultimately have all: "shared f ?reg" "kind \<in> set (keys ?reg)" by auto
  obtain opts where opts: "map_of ?reg kind = Some opts" using all(2) by (metis map_of_eq_None_iff option.exhaust set_map)
  then show "map_of ?reg kind = Some (informer_opts f)" using all(1) map_of_SomeD [OF opts] by (auto simp: shared_def)
  show "distinct (keys ?reg)" using all(1) by (simp add: shared_def)
qed

section \<open>Properties\<close>

text \<open>
  C37. In whatever order the manager ranges over its map of constructors, it builds the same four controllers, with different
  names, and ends up with exactly one informer for each of the six types, every one of them watching the namespace of
  the command line with its resync interval.
\<close>

theorem operator_construction:
  assumes "permutes_order ord"
  shows "mset (fst (construct ord f)) =
      {#proxy_New ''memcached-proxy'' (fl_serviceWorkers f), service_New ''memcached-proxy-service'' (fl_serviceWorkers f),
        configmap_New ''memcached-proxy-configmap'' (fl_namespace f) (fl_configMapWorkers f),
        deployment_New ''memcached-proxy-deployment'' (fl_configMapWorkers f)#}
    \<and> distinct (map c_name (fst (construct ord f)))
    \<and> distinct (keys (snd (construct ord f)))
    \<and> (\<forall>kind. map_of (snd (construct ord f)) kind
        = Some \<lparr>io_namespace = fl_namespace f, io_resync = fl_defaultResync f, io_indexers = [''namespace'']\<rparr>)"
proof -
  let ?regs = "List.map_filter (map_of (manager f)) (ord (keys (manager f)))"
  note regs = constructed_registrations [OF assms, of f]
  have "mset (map c_name (fst (construct ord f))) = image_mset (c_name \<circ> reg_controller) (mset ?regs)"
    by (simp add: construct_def Let_def)
  also have "\<dots> = mset [''memcached-proxy'', ''memcached-proxy-service'', ''memcached-proxy-configmap'', ''memcached-proxy-deployment'']"
    unfolding regs by simp
  finally have names: "distinct (map c_name (fst (construct ord f)))"
    by (rule mset_eq_imp_distinct_iff [THEN iffD2]) simp
  have "mset (fst (construct ord f)) = image_mset reg_controller (mset ?regs)"
    by (simp add: construct_def Let_def)
  then show ?thesis
    using names constructed_informers [OF assms, of f] unfolding regs by (simp add: informer_opts_def)
qed

theorem operator_construction_witness:
  "permutes_order rev \<and> fst (construct rev default_flags) \<noteq> [] \<and> distinct (keys (snd (construct rev default_flags)))"
proof -
  have perm: "permutes_order rev" by (simp add: permutes_order_def)
  from operator_construction [OF this, of default_flags] have "size (mset (fst (construct rev default_flags))) = 4" by simp
  then have "fst (construct rev default_flags) \<noteq> []" by auto
  with operator_construction [OF perm, of default_flags] perm show ?thesis by blast
qed

text \<open>
  C25. The operator reads the proxies of the namespace on its command line and no others. However the controllers are constructed,
  they share one informer for proxies, made with the resync interval of the command line and indexed by namespace. All its lists and
  watches are \<open>GET\<close> requests, each sent at most ten times, for the collection of proxies in that namespace, or for all proxies when the
  flag is not given, on the server of the configuration that \<open>main\<close> has read.
\<close>

theorem operator_reads_its_namespace:
  assumes "permutes_order ord" and "clientset_NewForConfig dl ua newDiscovery cfg = Inr cs"
    and "\<forall>c. cfg_Host c = cfg_Host cfg \<longrightarrow> dl_serverPath dl c = Inr base" and "good_segments (segments base)"
  shows "\<exists>inf. proxy_informer net cd cs (snd (construct ord f)) = Some inf
    \<and> si_resync inf = fl_defaultResync f \<and> si_indexers inf = [''namespace'']
    \<and> (\<forall>options log. \<forall>log' \<in> {snd (si_List inf options log), snd (si_Watch inf options log)}.
        \<exists>n \<le> maxRetries. \<exists>q. log' = log @ replicate n q
          \<and> (n > 0 \<longrightarrow> hr_Method q = ''GET'' \<and> hr_Path q = proxies_path (segments base) (fl_namespace f) [] []))"
proof -
  let ?inf = "NewMemcachedProxyInformer net cd cs (fl_namespace f) (fl_defaultResync f) [''namespace'']"
  obtain cfg' where client: "cfg_Host cfg' = cfg_Host cfg" "client_NewForConfig dl ua cfg' = Inr (IanlewisV1alpha1 cs)"
    by (rule clientset_client [OF assms(2)])
  have base: "dl_serverPath dl (setConfigDefaults ua cfg') = Inr base"
    using assms(3) client(1) by (simp add: setConfigDefaults_Host)
  have "proxy_informer net cd cs (snd (construct ord f)) = Some ?inf"
    using constructed_informers(1) [OF assms(1), of f ProxyInformer] by (simp add: proxy_informer_def informer_opts_def)
  moreover have "\<exists>n \<le> maxRetries. \<exists>q. log' = log @ replicate n q
      \<and> (n > 0 \<longrightarrow> hr_Method q = ''GET'' \<and> hr_Path q = proxies_path (segments base) (fl_namespace f) [] [])"
    if "log' \<in> {snd (si_List ?inf options log), snd (si_Watch ?inf options log)}" for options log log'
  proof -
    have "log' = snd (proxies_List net cd (MemcachedProxies (IanlewisV1alpha1 cs) (fl_namespace f)) options log)
        \<or> log' = snd (proxies_Watch net cd (MemcachedProxies (IanlewisV1alpha1 cs) (fl_namespace f)) options log)"
      using that by (auto simp: NewMemcachedProxyInformer_def)
    then show ?thesis using informer_requests [OF client(2) base assms(4), of net cd "fl_namespace f" options log] by blast
  qed
  moreover have "si_resync ?inf = fl_defaultResync f" "si_indexers ?inf = [''namespace'']" by (simp_all add: NewMemcachedProxyInformer_def)
  ultimately show ?thesis by blast
qed

theorem operator_reads_its_namespace_witness:
  "\<exists>inf. proxy_informer ok_network example_codecs example_clientset (snd (construct id default_flags)) = Some inf
    \<and> (\<exists>n q. snd (si_List inf no_options []) = replicate n q \<and> (n > 0 \<longrightarrow> hr_Path q = ''/k8s/apis/ianlewis.org/v1alpha1/memcachedproxies''))"
proof -
  have made: "clientset_NewForConfig example_dial [] (\<lambda>_. Inr ()) example_config = Inr example_clientset"
    unfolding clientset_NewForConfig_def example_clientset_def by code_simp
  have base: "\<forall>c. cfg_Host c = cfg_Host example_config \<longrightarrow> dl_serverPath example_dial c = Inr ''/k8s''" by (simp add: example_dial_def)
  have perm: "permutes_order id" by (simp add: permutes_order_def)
  have ns: "fl_namespace default_flags = []" by (simp add: default_flags_def NamespaceAll_def)
  have path: "proxies_path [''k8s''] [] [] [] = ''/k8s/apis/ianlewis.org/v1alpha1/memcachedproxies''"
    by code_simp
  note reads = operator_reads_its_namespace [OF perm made base example_client_made(3), of ok_network example_codecs default_flags]
  from reads obtain inf where inf: "proxy_informer ok_network example_codecs example_clientset (snd (construct id default_flags)) = Some inf"
    and logs: "\<forall>options log. \<forall>log' \<in> {snd (si_List inf options log), snd (si_Watch inf options log)}.
        \<exists>n \<le> maxRetries. \<exists>q. log' = log @ replicate n q
          \<and> (n > 0 \<longrightarrow> hr_Method q = ''GET'' \<and> hr_Path q = proxies_path (segments ''/k8s'') (fl_namespace default_flags) [] [])"
    by (elim exE conjE)
  have "\<exists>n \<le> maxRetries. \<exists>q. snd (si_List inf no_options []) = [] @ replicate n q
      \<and> (n > 0 \<longrightarrow> hr_Method q = ''GET'' \<and> hr_Path q = proxies_path (segments ''/k8s'') (fl_namespace default_flags) [] [])"
    by (rule logs [THEN spec [of _ no_options], THEN spec, THEN bspec]) simp
  then have "\<exists>n q. snd (si_List inf no_options []) = replicate n q
      \<and> (n > 0 \<longrightarrow> hr_Path q = ''/k8s/apis/ianlewis.org/v1alpha1/memcachedproxies'')"
    unfolding example_client_made(4) ns path by auto
  with inf show ?thesis by blast
qed

text \<open>
  The program only starts when a configuration can be read, both clients can be constructed from it and the repository's types can be added to the scheme;
  without a kubeconfig flag the configuration is the in-cluster one. It then ends as the manager does: quietly when the manager
  returns nil, with the error otherwise.
\<close>

theorem main_runs_iff:
  "main su ord f = Returns \<longleftrightarrow>
     (\<exists>config cs sch. (if fl_kubeconfig f = [] then su_inCluster su else su_kubeconfig su (fl_kubeconfig f)) = Inr config
        \<and> su_client su config = None
        \<and> clientset_NewForConfig (su_dial su) (su_userAgent su) (su_newDiscovery su) config = Inr cs
        \<and> AddToScheme (su_scheme su) = Some sch
        \<and> su_run su sch cs (fst (construct ord f)) (snd (construct ord f)) = None)"
  by (auto simp: main_def run_manager_def buildConfig_def register_types_def split: sum.split option.split prod.split)

end
