(* ===== verification/OperatorSystem.thy ===== *)
theory OperatorSystem
  imports OperatorMain
begin

text \<open>
  The running operator: the four controllers of main.go, each with its queue and its workers, over the caches they
  share. A step is one of: an informer changes a cache, an informer calls the handlers of one controller, an
  idle worker gets a key, a worker processes the key it holds (a whole \<open>processWorkItem\<close>, and \<open>AddRateLimited\<close> after an
  error), the waiting loop of a queue moves delayed keys on, the context is cancelled. The order of the steps is
  arbitrary, so every interleaving at this granularity is covered; a panic in any goroutine ends the program. The orders in
  which a step ranges over Go maps are drawn anew at every step.

  The locale \<open>controller_set\<close> holds what the steps rely on: handlers only add keys, and a \<open>syncHandler\<close> meets the contract
  \<open>sync_handler\<close>. \<open>safe_controllers\<close> adds a condition on the caches under which nothing panics. Both are interpreted on
  the operator's controllers.
\<close>

section \<open>What a controller may touch\<close>

fun action_kind :: "action \<Rightarrow> informer" where
  "action_kind (UpdateProxy ns p) = ProxyInformer"
| "action_kind (CreateService ns s) = ServiceInformer"
| "action_kind (UpdateService ns s) = ServiceInformer"
| "action_kind (CreateConfigMap ns c) = ConfigMapInformer"
| "action_kind (UpdateConfigMap ns c) = ConfigMapInformer"
| "action_kind (CreateDeployment ns d) = DeploymentInformer"
| "action_kind (UpdateDeployment ns d) = DeploymentInformer"
| "action_kind (DeleteDeployment ns n) = DeploymentInformer"

definition footprint :: "informer \<Rightarrow> cluster \<Rightarrow> cluster \<Rightarrow> bool" where
  \<comment> \<open>only the cache of one type has changed, and only objects of that type were written\<close>
  "footprint kind cl cl' \<longleftrightarrow>
     (kind \<noteq> ProxyInformer \<longrightarrow> cl_proxies cl' = cl_proxies cl) \<and> (kind \<noteq> ServiceInformer \<longrightarrow> cl_services cl' = cl_services cl)
     \<and> (kind \<noteq> EndpointsInformer \<longrightarrow> cl_endpoints cl' = cl_endpoints cl)
     \<and> (kind \<noteq> ConfigMapInformer \<longrightarrow> cl_configmaps cl' = cl_configmaps cl)
     \<and> (kind \<noteq> DeploymentInformer \<longrightarrow> cl_deployments cl' = cl_deployments cl)
     \<and> (kind \<noteq> ReplicaSetInformer \<longrightarrow> cl_replicasets cl' = cl_replicasets cl)
     \<and> (\<exists>calls. cl_actions cl' = cl_actions cl @ calls \<and> (\<forall>a \<in> set calls. action_kind a = kind))"

section \<open>State and steps\<close>

record system =
  sys_cluster :: cluster
  sys_queue :: "string \<Rightarrow> item rlq"
  sys_held :: "string \<Rightarrow> nat \<Rightarrow> item option"
  sys_crashed :: bool

definition view :: "string \<Rightarrow> system \<Rightarrow> ctl" where
  \<comment> \<open>the controller of a name sees the shared caches and its own queue\<close>
  "view n s = \<lparr>ctl_cluster = sys_cluster s, ctl_queue = sys_queue s n\<rparr>"

definition put_view :: "string \<Rightarrow> ctl \<Rightarrow> system \<Rightarrow> system" where
  "put_view n st s = s\<lparr>sys_cluster := ctl_cluster st, sys_queue := (sys_queue s)(n := ctl_queue st)\<rparr>"

datatype delta =
    SetProxy MemcachedProxy | DropProxy MemcachedProxy
  | SetService Service | DropService Service
  | SetEndpoints Endpoints | DropEndpoints Endpoints
  | SetConfigMap ConfigMap | DropConfigMap ConfigMap
  | SetDeployment Deployment | DropDeployment Deployment
  | SetReplicaSet ReplicaSet | DropReplicaSet ReplicaSet

fun apply_delta :: "delta \<Rightarrow> cluster \<Rightarrow> cluster" where
  \<comment> \<open>what \<open>sharedIndexInformer.HandleDeltas\<close> does to the indexer\<close>
  "apply_delta (SetProxy x) cl = cl\<lparr>cl_proxies := ix_Add mp_Meta x (cl_proxies cl)\<rparr>"
| "apply_delta (DropProxy x) cl = cl\<lparr>cl_proxies := ix_Delete mp_Meta x (cl_proxies cl)\<rparr>"
| "apply_delta (SetService x) cl = cl\<lparr>cl_services := ix_Add svc_Meta x (cl_services cl)\<rparr>"
| "apply_delta (DropService x) cl = cl\<lparr>cl_services := ix_Delete svc_Meta x (cl_services cl)\<rparr>"
| "apply_delta (SetEndpoints x) cl = cl\<lparr>cl_endpoints := ix_Add eps_Meta x (cl_endpoints cl)\<rparr>"
| "apply_delta (DropEndpoints x) cl = cl\<lparr>cl_endpoints := ix_Delete eps_Meta x (cl_endpoints cl)\<rparr>"
| "apply_delta (SetConfigMap x) cl = cl\<lparr>cl_configmaps := ix_Add cm_Meta x (cl_configmaps cl)\<rparr>"
| "apply_delta (DropConfigMap x) cl = cl\<lparr>cl_configmaps := ix_Delete cm_Meta x (cl_configmaps cl)\<rparr>"
| "apply_delta (SetDeployment x) cl = cl\<lparr>cl_deployments := ix_Add d_Meta x (cl_deployments cl)\<rparr>"
| "apply_delta (DropDeployment x) cl = cl\<lparr>cl_deployments := ix_Delete d_Meta x (cl_deployments cl)\<rparr>"
| "apply_delta (SetReplicaSet x) cl = cl\<lparr>cl_replicasets := ix_Add rs_Meta x (cl_replicasets cl)\<rparr>"
| "apply_delta (DropReplicaSet x) cl = cl\<lparr>cl_replicasets := ix_Delete rs_Meta x (cl_replicasets cl)\<rparr>"

fun typed_event :: "informer \<Rightarrow> informer_event \<Rightarrow> bool" where
  \<comment> \<open>an informer reports objects of its type; only a deletion may come as a tombstone\<close>
  "typed_event EndpointsInformer (Added obj) = (\<exists>ep. obj = EndpointsObj ep)"
| "typed_event EndpointsInformer (Updated old new) = ((\<exists>ep. old = EndpointsObj ep) \<and> (\<exists>ep. new = EndpointsObj ep))"
| "typed_event kind ev = True"

definition process_held :: "handler \<Rightarrow> item \<Rightarrow> ctl \<Rightarrow> bool \<times> ctl" where
  \<comment> \<open>the body of the loop in \<open>worker\<close> after \<open>Get\<close>, and whether it panicked\<close>
  "process_held syncHandler x st =
     (case processWorkItem syncHandler x st of
        (RetNil, st1) \<Rightarrow> (False, st1)
      | (RetErr err, st1) \<Rightarrow> (False, on_queue (AddRateLimited x) st1)
      | (Panic, st1) \<Rightarrow> (True, st1))"

definition drawn :: "env \<Rightarrow> env \<Rightarrow> bool" where
  \<comment> \<open>the environment with new orders for ranging over maps\<close>
  "drawn e e' \<longleftrightarrow> (\<exists>rng. permutes_keys rng \<and> e' = e\<lparr>env_range := rng\<rparr>)"

inductive sys_step :: "env \<Rightarrow> controller set \<Rightarrow> (delta \<Rightarrow> bool) \<Rightarrow> system \<Rightarrow> system \<Rightarrow> bool"
  for e C sent where
  step_cache: "\<not> sys_crashed s \<Longrightarrow> sent d \<Longrightarrow>
     sys_step e C sent s (s\<lparr>sys_cluster := apply_delta d (sys_cluster s)\<rparr>)"
| step_event: "\<not> sys_crashed s \<Longrightarrow> c \<in> C \<Longrightarrow> typed_event kind ev \<Longrightarrow> drawn e e' \<Longrightarrow> c_handlers c e' kind ev (view (c_name c) s) = Some st \<Longrightarrow>
     sys_step e C sent s (put_view (c_name c) st s)"
| step_event_panic: "\<not> sys_crashed s \<Longrightarrow> c \<in> C \<Longrightarrow> typed_event kind ev \<Longrightarrow> drawn e e' \<Longrightarrow> c_handlers c e' kind ev (view (c_name c) s) = None \<Longrightarrow>
     sys_step e C sent s (s\<lparr>sys_crashed := True\<rparr>)"
| step_get: "\<not> sys_crashed s \<Longrightarrow> c \<in> C \<Longrightarrow> i \<in> set (fst (c_Run c (c_workers c))) \<Longrightarrow> sys_held s (c_name c) i = None \<Longrightarrow>
     wq_Get (sys_queue s (c_name c)) = GotItem x q \<Longrightarrow>
     sys_step e C sent s (s\<lparr>sys_queue := (sys_queue s)(c_name c := q),
       sys_held := (sys_held s)(c_name c := (sys_held s (c_name c))(i := Some x))\<rparr>)"
| step_process: "\<not> sys_crashed s \<Longrightarrow> c \<in> C \<Longrightarrow> sys_held s (c_name c) i = Some x \<Longrightarrow> drawn e e' \<Longrightarrow>
     process_held (c_syncHandler c e') x (view (c_name c) s) = (crashed, st) \<Longrightarrow>
     sys_step e C sent s ((put_view (c_name c) st s)\<lparr>
       sys_held := (sys_held s)(c_name c := (sys_held s (c_name c))(i := None)), sys_crashed := crashed\<rparr>)"
| step_receive: "\<not> sys_crashed s \<Longrightarrow> c \<in> C \<Longrightarrow>
     sys_step e C sent s (s\<lparr>sys_queue := (sys_queue s)(c_name c := waiting_receive (sys_queue s (c_name c)))\<rparr>)"
| step_fire: "\<not> sys_crashed s \<Longrightarrow> c \<in> C \<Longrightarrow> dl_now (sys_queue s (c_name c)) \<le> t \<Longrightarrow>
     sys_step e C sent s (s\<lparr>sys_queue := (sys_queue s)(c_name c := waiting_fire ((sys_queue s (c_name c))\<lparr>dl_now := t\<rparr>))\<rparr>)"
| step_cancel: "\<not> sys_crashed s \<Longrightarrow> c \<in> C \<Longrightarrow>
     sys_step e C sent s (put_view (c_name c) (snd (c_Run c (c_workers c)) (view (c_name c) s)) s)"

definition boot_system :: "(string \<Rightarrow> nat \<Rightarrow> nat) \<Rightarrow> system" where
  \<comment> \<open>empty caches, empty queues and idle workers; \<open>buckets n\<close> are the delays of the token bucket of the queue \<open>n\<close>\<close>
  "boot_system buckets = \<lparr>sys_cluster = empty_cluster, sys_queue = (\<lambda>n. new_rlq (buckets n)), sys_held = (\<lambda>_ _. None), sys_crashed = False\<rparr>"

inductive sys_reach :: "env \<Rightarrow> controller set \<Rightarrow> (delta \<Rightarrow> bool) \<Rightarrow> system \<Rightarrow> bool" for e C sent where
  reach_boot: "sys_reach e C sent (boot_system buckets)"
| reach_next: "sys_reach e C sent s \<Longrightarrow> sys_step e C sent s t \<Longrightarrow> sys_reach e C sent t"

inductive_cases sys_stepE: "sys_step e C sent s t"

definition operator_controllers :: "flags \<Rightarrow> controller set" where
  "operator_controllers f = reg_controller ` {register_proxy f, register_service f, register_configmap f, register_deployment f}"

lemma drawn_refl: "permutes_keys (env_range e) \<Longrightarrow> drawn e e"
  unfolding drawn_def by (rule exI [of _ "env_range e"]) simp

section \<open>Invariants\<close>

definition holders_ok :: "(nat \<Rightarrow> item option) \<Rightarrow> item rlq \<Rightarrow> bool" where
  \<comment> \<open>the queue is well formed and the items being processed are the ones held, each by one worker\<close>
  "holders_ok ws q \<longleftrightarrow> wq_inv q \<and> q_processing q = ran ws \<and> (\<forall>i j x. ws i = Some x \<longrightarrow> ws j = Some x \<longrightarrow> i = j)"

definition sys_inv :: "system \<Rightarrow> bool" where
  "sys_inv s \<longleftrightarrow> cluster_inv (sys_cluster s) \<and> (\<forall>n. holders_ok (sys_held s n) (sys_queue s n))"

definition adds :: "item rlq \<Rightarrow> item rlq \<Rightarrow> bool" where
  "adds q q' \<longleftrightarrow> (\<exists>xs. q' = fold wq_Add xs q)"

fun fit_action :: "action \<Rightarrow> bool" where
  "fit_action (UpdateProxy ns p) = (mr_Port (spec_McRouter (mp_Spec p)) \<noteq> None)"
| "fit_action (CreateDeployment ns d) = config_volumes_ok d"
| "fit_action (UpdateDeployment ns d) = config_volumes_ok d"
| "fit_action _ = True"

definition fit :: "cluster \<Rightarrow> bool" where
  \<comment> \<open>every observed proxy has a port, no \<open>config\<close> volume has lost its source, and the same holds of what was written\<close>
  "fit cl \<longleftrightarrow> (\<forall>p \<in> objects (cl_proxies cl). om_Generation (mp_Meta p) = st_ObservedGeneration (mp_Status p)
       \<longrightarrow> mr_Port (spec_McRouter (mp_Spec p)) \<noteq> None)
     \<and> (\<forall>d \<in> objects (cl_deployments cl). config_volumes_ok d)
     \<and> (\<forall>a \<in> set (cl_actions cl). fit_action a)"

fun fit_delta :: "delta \<Rightarrow> bool" where
  "fit_delta (SetProxy p) = (om_Generation (mp_Meta p) = st_ObservedGeneration (mp_Status p)
     \<longrightarrow> mr_Port (spec_McRouter (mp_Spec p)) \<noteq> None)"
| "fit_delta (SetDeployment d) = config_volumes_ok d"
| "fit_delta _ = True"

section \<open>Lemmas on footprints\<close>

lemma footprint_refl [simp]: "footprint kind cl cl"
  by (simp add: footprint_def)

lemma footprint_trans [trans]:
  assumes "footprint kind cl cl'" and "footprint kind cl' cl''"
  shows "footprint kind cl cl''"
proof -
  from assms(1) obtain as where as: "cl_actions cl' = cl_actions cl @ as" "\<forall>a \<in> set as. action_kind a = kind"
    unfolding footprint_def by blast
  from assms(2) obtain bs where bs: "cl_actions cl'' = cl_actions cl' @ bs" "\<forall>a \<in> set bs. action_kind a = kind"
    unfolding footprint_def by blast
  from as bs have "\<exists>calls. cl_actions cl'' = cl_actions cl @ calls \<and> (\<forall>a \<in> set calls. action_kind a = kind)"
    by (intro exI [of _ "as @ bs"]) auto
  then show ?thesis using assms by (simp add: footprint_def)
qed

lemma footprint_api_call: "action_kind a = kind \<Longrightarrow> footprint kind cl (snd (api_call e a cl))"
  by (simp add: footprint_def)

lemma footprint_quiet:
  assumes "same_caches cl cl'" and "cl_actions cl' = cl_actions cl"
  shows "footprint kind cl cl'"
  using assms by (simp add: footprint_def same_caches_def)

lemma footprint_with_observed_proxy:
  assumes "\<And>ns p. footprint kind (ctl_cluster st) (ctl_cluster (snd (k ns p)))"
  shows "footprint kind (ctl_cluster st) (ctl_cluster (snd (with_observed_proxy key st k)))"
  by (rule with_observed_proxy_cases) (simp_all add: assms)

lemma proxy_footprint: "footprint ProxyInformer (ctl_cluster st) (ctl_cluster (snd (proxy_syncHandler e key st)))
    \<and> cl_proxies (ctl_cluster (snd (proxy_syncHandler e key st))) = cl_proxies (ctl_cluster st)"
  by (auto simp: proxy_syncHandler_def footprint_def api_call_def Let_def split: sum.split)

lemma service_footprint: "footprint ServiceInformer (ctl_cluster st) (ctl_cluster (snd (service_syncHandler e key st)))"
  unfolding service_syncHandler_def
  by (rule footprint_with_observed_proxy)
    (auto simp: service_sync_def footprint_def api_call_def Let_def split: sum.split option.split prod.split bool.split)

lemma update_cm_footprint:
  "footprint ConfigMapInformer (ctl_cluster st) (ctl_cluster (snd (update_cm e p cm wrap st)))"
  by (auto simp: update_cm_def footprint_def api_call_def recordConfigMapEvent_def split: sum.split)

lemma mutate_cm_footprint: "footprint ConfigMapInformer cl (mutate_cm cm refs cl)"
  by (simp add: footprint_def mutate_cm_def)

lemma reuse_footprint: "footprint ConfigMapInformer (ctl_cluster st) (ctl_cluster (snd (reuseConfigMap e p cm st)))"
  using footprint_trans [OF mutate_cm_footprint update_cm_footprint [where st = "on_cluster (mutate_cm cm refs) st" for refs, simplified]]
  by (auto simp: reuseConfigMap_def Let_def split: prod.split option.split)

lemma sync_one_new_footprint: "footprint ConfigMapInformer (ctl_cluster st) (ctl_cluster (snd (sync_one_new e key p cm st)))"
proof (cases "applyOwnerRefToCM e (ctl_cluster st) p cm")
  case (Inr r)
  show ?thesis
  proof (cases r)
    case (Some refs)
    obtain res st1 where u: "update_cm e p (set_refs refs cm)
        (\<lambda>err. ErrorString (''failed to update configmaps for '' @ Quote key @ '': '' @ ErrorText err))
        (on_cluster (mutate_cm cm refs) st) = (res, st1)" by fastforce
    have "footprint ConfigMapInformer (mutate_cm cm refs (ctl_cluster st)) (ctl_cluster st1)"
      using update_cm_footprint [of "on_cluster (mutate_cm cm refs) st" e p "set_refs refs cm"] u by (metis on_simps(4) snd_conv)
    with mutate_cm_footprint have "footprint ConfigMapInformer (ctl_cluster st) (ctl_cluster st1)" by (rule footprint_trans)
    then show ?thesis using Inr Some u by (cases res) (auto simp: sync_one_new_def)
  qed (use Inr in \<open>simp add: sync_one_new_def\<close>)
qed (simp add: sync_one_new_def)

lemma configmap_footprint: "footprint ConfigMapInformer (ctl_cluster st) (ctl_cluster (snd (configmap_syncHandler e key st)))"
  unfolding configmap_syncHandler_def
proof (rule footprint_with_observed_proxy)
  fix ns p
  have "footprint ConfigMapInformer (ctl_cluster st) (ctl_cluster (snd (create_cm e key ns p cm st)))" for cm
    by (auto simp: create_cm_def footprint_def api_call_def recordConfigMapEvent_def split: sum.split)
  moreover have "footprint ConfigMapInformer cl (configmap_recordEvent v p k obj err cl)" for cl v k obj err
    by (simp add: footprint_def)
  ultimately show "footprint ConfigMapInformer (ctl_cluster st) (ctl_cluster (snd (configmap_sync e key st ns p)))"
    using sync_one_new_footprint reuse_footprint
    by (auto simp: configmap_sync_def sync_no_new_def split: sum.split list.split)
qed

lemma deleteDeployments_footprint: "footprint DeploymentInformer cl (snd (deleteDeployments e p ds cl))"
proof -
  obtain n where "cl_actions (snd (deleteDeployments e p ds cl)) = cl_actions cl
      @ map (\<lambda>d. DeleteDeployment (om_Namespace (d_Meta d)) (om_Name (d_Meta d))) (take n ds)"
    using deleteDeployments_log by blast
  then show ?thesis using deleteDeployments_caches [of cl e p ds] by (auto simp: footprint_def same_caches_def)
qed

lemma ensure_footprint: "footprint DeploymentInformer (ctl_cluster st) (ctl_cluster (snd (ensure_deployment e st p found)))"
  by (auto simp: ensure_deployment_def createDeployment_def updateDeployment_def footprint_def api_call_def Let_def
      split: option.split sum.split result.split)

lemma deployment_footprint: "footprint DeploymentInformer (ctl_cluster st) (ctl_cluster (snd (deployment_syncHandler e key st)))"
  unfolding deployment_syncHandler_def
proof (rule footprint_with_observed_proxy)
  fix ns p
  obtain found dList where g: "GetDeploymentsForProxy e (ctl_cluster st) p = (found, dList, None)"
    using GetDeploymentsForProxy_no_error [of e "ctl_cluster st" p] by (metis prod.collapse)
  obtain res st1 where r: "ensure_deployment e st p found = (res, st1)" by fastforce
  have "footprint DeploymentInformer (ctl_cluster st) (ctl_cluster st1)" using ensure_footprint [of st e p found] by (simp add: r)
  moreover from this have "footprint DeploymentInformer (ctl_cluster st) (snd (deleteDeployments e p ds (ctl_cluster st1)))" for ds
    by (rule footprint_trans) (rule deleteDeployments_footprint)
  ultimately show "footprint DeploymentInformer (ctl_cluster st) (ctl_cluster (snd (deployment_sync e key st ns p)))"
    by (auto simp: deployment_sync_eq [OF g] r split: prod.split outcome.split) (metis snd_conv)+
qed

section \<open>Lemmas on queues and their workers\<close>

lemma adds_refl [simp]: "adds q q"
  unfolding adds_def by (rule exI [of _ "[]"]) simp

lemma adds_trans: "adds q q' \<Longrightarrow> adds q' q'' \<Longrightarrow> adds q q''"
  unfolding adds_def by (metis fold_append comp_apply)

lemma adds_wq_Add: "adds q (wq_Add x q)"
  unfolding adds_def by (rule exI [of _ "[x]"]) simp

lemma adds_enqueue: "adds q (enqueue obj q)"
  by (simp add: enqueue_def adds_wq_Add split: sum.split)

lemma adds_enqueueOwned: "adds q (enqueueOwned obj q)"
  by (simp add: enqueueOwned_def adds_wq_Add split: option.split)

lemma adds_add_keys: "adds q (add_keys ks q)"
proof -
  have "add_keys ks q = fold wq_Add (map StringItem ks) q" by (simp add: add_keys_def fold_map comp_def)
  then show ?thesis unfolding adds_def by blast
qed

lemma adds_dispatch:
  assumes "\<And>obj q. adds q (add obj q)" and "\<And>old new q. adds q (upd old new q)" and "\<And>obj q. adds q (del obj q)"
  shows "adds q (dispatch add upd del ev q)"
  using assms by (cases ev) simp_all

lemma adds_keeps:
  assumes "adds q q'"
  shows "wq_inv q \<Longrightarrow> wq_inv q'" "q_processing q' = q_processing q" "q_shuttingDown q' = q_shuttingDown q"
    "q_dirty q \<subseteq> q_dirty q'"
proof -
  have *: "(wq_inv q \<longrightarrow> wq_inv (fold wq_Add xs q)) \<and> q_processing (fold wq_Add xs q) = q_processing q
    \<and> q_shuttingDown (fold wq_Add xs q) = q_shuttingDown q \<and> q_dirty q \<subseteq> q_dirty (fold wq_Add xs q)" for xs and q :: "item rlq"
  proof (induction xs arbitrary: q)
    case (Cons x xs)
    then show ?case using Cons.IH [of "wq_Add x q"] wq_Add_inv [of q x] by (auto split: if_splits)
  qed simp
  obtain xs where "q' = fold wq_Add xs q" using assms by (auto simp: adds_def)
  with * [of q xs] show "wq_inv q \<Longrightarrow> wq_inv q'" "q_processing q' = q_processing q" "q_shuttingDown q' = q_shuttingDown q"
    "q_dirty q \<subseteq> q_dirty q'" by auto
qed

lemma waiting_fire_adds: "\<exists>q0. quiet q q0 \<and> adds q0 (waiting_fire (q\<lparr>dl_now := t\<rparr>))"
proof (cases "q_shuttingDown q")
  case True
  then show ?thesis by (intro exI [of _ "q\<lparr>dl_now := t\<rparr>"]) (simp add: waiting_fire_def quiet_def)
next
  case False
  let ?ready = "sort_key snd (filter (\<lambda>e. snd e \<le> t) (dl_waiting q))"
  let ?q0 = "q\<lparr>dl_now := t, dl_waiting := filter (\<lambda>e. snd e > t) (dl_waiting q)\<rparr>"
  have "waiting_fire (q\<lparr>dl_now := t\<rparr>) = fold wq_Add (map fst ?ready) ?q0"
    using False by (simp add: waiting_fire_def Let_def fold_map comp_def)
  then show ?thesis by (intro exI [of _ ?q0]) (auto simp: quiet_def adds_def)
qed

lemma holders_quiet: "holders_ok ws q \<Longrightarrow> quiet q q' \<Longrightarrow> holders_ok ws q'"
  using quiet_inv [of q q'] by (auto simp: holders_ok_def quiet_def)

lemma holders_adds: "holders_ok ws q \<Longrightarrow> adds q q' \<Longrightarrow> holders_ok ws q'"
  using adds_keeps [of q q'] by (auto simp: holders_ok_def)

lemma holders_worker_step:
  assumes "worker_step wq_Add wq_Get wq_Done wq_ShutDown (ws, q) (ws', q')" and "holders_ok ws q"
  shows "holders_ok ws' q'"
  using wqi.step_keeps [OF assms(1)] assms(2) unfolding holders_ok_def by simp

lemma holders_get: "holders_ok ws q \<Longrightarrow> ws i = None \<Longrightarrow> wq_Get q = GotItem x q' \<Longrightarrow> holders_ok (ws(i := Some x)) q'"
  by (rule holders_worker_step [OF worker_step.step_get])

lemma holders_done: "holders_ok ws q \<Longrightarrow> ws i = Some x \<Longrightarrow> holders_ok (ws(i := None)) (wq_Done x q)"
  by (rule holders_worker_step [OF worker_step.step_done])

lemma view_simps [simp]: "ctl_cluster (view n s) = sys_cluster s" "ctl_queue (view n s) = sys_queue s n"
  by (simp_all add: view_def)

lemma put_view_simps [simp]:
  "sys_cluster (put_view n st s) = ctl_cluster st" "sys_queue (put_view n st s) = (sys_queue s)(n := ctl_queue st)"
  "sys_held (put_view n st s) = sys_held s" "sys_crashed (put_view n st s) = sys_crashed s"
  by (simp_all add: put_view_def)

lemma apply_delta_inv: "cluster_inv cl \<Longrightarrow> cluster_inv (apply_delta d cl)"
  by (cases d) (simp_all add: cluster_inv_def ix_Add_inv ix_Delete_inv)

lemma holders_boot: "holders_ok (\<lambda>_. None) (new_rlq bucket)"
  by (simp add: holders_ok_def new_rlq_def wq_inv_def)

lemma holders_receive:
  assumes "holders_ok ws q"
  shows "holders_ok ws (waiting_receive q)"
proof -
  have "quiet q (q\<lparr>dl_waitCh := rest\<rparr>)" "quiet q (q\<lparr>dl_waitCh := rest, dl_waiting := w\<rparr>)" for rest w
    by (simp_all add: quiet_def)
  then have "holders_ok ws (q\<lparr>dl_waitCh := rest\<rparr>)" "holders_ok ws (q\<lparr>dl_waitCh := rest, dl_waiting := w\<rparr>)" for rest w
    using assms holders_quiet by blast+
  then show ?thesis
    using assms holders_adds [OF _ adds_wq_Add] by (simp add: waiting_receive_def Let_def split: list.split)
qed

lemma holders_fire: "holders_ok ws q \<Longrightarrow> holders_ok ws (waiting_fire (q\<lparr>dl_now := t\<rparr>))"
  using waiting_fire_adds [of q t] holders_quiet holders_adds by blast

lemma holders_shut: "holders_ok ws q \<Longrightarrow> holders_ok ws (wq_ShutDown q)"
  by (rule holders_worker_step [OF worker_step.step_shut])

lemma sys_inv_queue:
  assumes "sys_inv s" and "holders_ok ws q"
  shows "sys_inv (s\<lparr>sys_queue := (sys_queue s)(n := q), sys_held := (sys_held s)(n := ws)\<rparr>)"
  using assms by (simp add: sys_inv_def)

lemma crashed_stops: "sys_crashed s \<Longrightarrow> \<not> sys_step e C sent s t"
  by (auto elim: sys_stepE)

section \<open>The contract of a set of controllers\<close>

locale controller_set =
  fixes C :: "controller set" and e :: env
  assumes sync: "c \<in> C \<Longrightarrow> drawn e e' \<Longrightarrow> sync_handler (c_syncHandler c e')"
    and events: "c \<in> C \<Longrightarrow> drawn e e' \<Longrightarrow> c_handlers c e' kind ev st = Some st' \<Longrightarrow>
      ctl_cluster st' = ctl_cluster st \<and> adds (ctl_queue st) (ctl_queue st')"
    and runs: "c \<in> C \<Longrightarrow> c_Run c = Run"
begin

lemma cancel_effect: "c \<in> C \<Longrightarrow> snd (c_Run c w) st = on_queue wq_ShutDown st"
  by (simp add: runs Run_def Run_cancel_def)

lemma process_effect:
  assumes "c \<in> C" and "drawn e e'" and "process_held (c_syncHandler c e') x st = (crashed, st')"
  shows "\<exists>q. quiet (ctl_queue st) q \<and> quiet (wq_Done x q) (ctl_queue st')"
    "cluster_inv (ctl_cluster st) \<Longrightarrow> cluster_inv (ctl_cluster st')"
proof -
  obtain res st1 where p: "processWorkItem (c_syncHandler c e') x st = (res, st1)" by fastforce
  then have st': "st' = st1 \<or> st' = on_queue (AddRateLimited x) st1"
    using assms(3) by (auto simp: process_held_def split: outcome.splits)
  have "\<exists>q. quiet (ctl_queue st) q \<and> ctl_queue st1 = wq_Done x q"
    by (rule sync_handler.process_queue [OF sync [OF assms(1,2)] p])
  then show "\<exists>q. quiet (ctl_queue st) q \<and> quiet (wq_Done x q) (ctl_queue st')"
    using st' quiet_AddRateLimited by auto
  show "cluster_inv (ctl_cluster st')" if "cluster_inv (ctl_cluster st)"
    using sync_handler.process_caches [OF sync [OF assms(1,2)] p that] st' by auto
qed

lemma step_keeps_inv:
  assumes "sys_step e C sent s t" and "sys_inv s"
  shows "sys_inv t"
  using assms(1)
proof cases
  case (step_cache d)
  then show ?thesis using assms(2) apply_delta_inv by (simp add: sys_inv_def)
next
  case (step_event c kind ev e' st)
  then show ?thesis
    using events [OF step_event(3,5,6)] assms(2) holders_adds by (auto simp: sys_inv_def)
next
  case (step_event_panic c kind ev e')
  then show ?thesis using assms(2) by (simp add: sys_inv_def)
next
  case (step_get c i x q)
  have "holders_ok (sys_held s (c_name c)) (sys_queue s (c_name c))" using assms(2) by (simp add: sys_inv_def)
  from holders_get [OF this, of i x q] show ?thesis using step_get assms(2) by (simp add: sys_inv_def)
next
  case (step_process c i x e' crashed st)
  have ok: "holders_ok (sys_held s (c_name c)) (sys_queue s (c_name c))" using assms(2) by (simp add: sys_inv_def)
  obtain q where q: "quiet (sys_queue s (c_name c)) q" "quiet (wq_Done x q) (ctl_queue st)"
    using process_effect(1) [OF step_process(3,5,6)] by auto
  have "holders_ok ((sys_held s (c_name c))(i := None)) (ctl_queue st)"
    by (rule holders_quiet [OF holders_done [OF holders_quiet [OF ok q(1)] step_process(4)] q(2)])
  then show ?thesis
    using step_process(1) assms(2) process_effect(2) [OF step_process(3,5,6)] by (simp add: sys_inv_def)
next
  case (step_receive c)
  then show ?thesis using assms(2) holders_receive by (simp add: sys_inv_def)
next
  case (step_fire c t)
  then show ?thesis using assms(2) holders_fire by (simp add: sys_inv_def)
next
  case (step_cancel c)
  then show ?thesis using assms(2) holders_shut by (simp add: sys_inv_def cancel_effect)
qed

lemma reach_inv: "sys_reach e C sent s \<Longrightarrow> sys_inv s"
proof (induction rule: sys_reach.induct)
  case reach_boot
  then show ?case by (simp add: sys_inv_def boot_system_def cluster_inv_empty holders_boot)
qed (rule step_keeps_inv)

lemma pending_kept:
  assumes "sys_step e C sent s t" and "sys_inv s" and "x \<in> q_dirty (sys_queue s n)"
  shows "x \<in> q_dirty (sys_queue t n) \<or> (\<exists>i. sys_held s n i = None \<and> sys_held t n i = Some x)"
  using assms(1)
proof cases
  case (step_event c kind ev e' st)
  then show ?thesis using adds_keeps(4) events [OF step_event(3,5,6)] assms(3) by auto
next
  case (step_get c i y q)
  have "wq_inv (sys_queue s (c_name c))" using assms(2) by (simp add: sys_inv_def holders_ok_def)
  then show ?thesis using Get_GotItem(3) [OF _ step_get(6)] step_get assms(3) by (cases "n = c_name c") auto
next
  case (step_process c i y e' crashed st)
  obtain q where "quiet (sys_queue s (c_name c)) q" "quiet (wq_Done y q) (ctl_queue st)"
    using process_effect(1) [OF step_process(3,5,6)] by auto
  then have "q_dirty (ctl_queue st) = q_dirty (sys_queue s (c_name c))" by (simp add: quiet_def)
  then show ?thesis using step_process(1) assms(3) by auto
next
  case (step_receive c)
  then show ?thesis using assms(3) by (auto simp: waiting_receive_def Let_def split: list.split)
next
  case (step_fire c t)
  obtain q where "quiet (sys_queue s (c_name c)) q" "adds q (waiting_fire ((sys_queue s (c_name c))\<lparr>dl_now := t\<rparr>))"
    using waiting_fire_adds by blast
  then show ?thesis using step_fire(1) assms(3) adds_keeps(4) by (auto simp: quiet_def)
qed (use assms(3) in \<open>auto simp: cancel_effect\<close>)

end

text \<open>A condition on the caches that keeps every handler and every sync from panicking.\<close>

locale safe_controllers = controller_set +
  fixes safe :: "cluster \<Rightarrow> bool"
  assumes sync_safe: "c \<in> C \<Longrightarrow> drawn e e' \<Longrightarrow> safe (ctl_cluster st) \<Longrightarrow>
      fst (c_syncHandler c e' key st) \<noteq> Panic \<and> safe (ctl_cluster (snd (c_syncHandler c e' key st)))"
    and events_safe: "c \<in> C \<Longrightarrow> drawn e e' \<Longrightarrow> typed_event kind ev \<Longrightarrow> c_handlers c e' kind ev st \<noteq> None"
begin

lemma process_safe:
  assumes "c \<in> C" and "drawn e e'" and "process_held (c_syncHandler c e') x st = (crashed, st')" and "safe (ctl_cluster st)"
  shows "\<not> crashed \<and> safe (ctl_cluster st')"
proof (cases x)
  case (StringItem key)
  obtain res st1 where "c_syncHandler c e' key st = (res, st1)" by fastforce
  then show ?thesis
    using sync_safe [OF assms(1,2,4), of key] assms(3) StringItem
    by (cases res) (auto simp: process_held_def processWorkItem_StringItem)
next
  case (OtherItem shown)
  then show ?thesis using assms(3,4) by (auto simp: process_held_def processWorkItem_def)
qed

lemma step_safe:
  assumes "sys_step e C sent s t" and "safe (sys_cluster s)"
    and "\<And>d cl. sent d \<Longrightarrow> safe cl \<Longrightarrow> safe (apply_delta d cl)"
  shows "\<not> sys_crashed t \<and> safe (sys_cluster t)"
  using assms(1)
proof cases
  case (step_event c kind ev e' st)
  then show ?thesis using events [OF step_event(3,5,6)] assms(2) by auto
next
  case (step_event_panic c kind ev e')
  then show ?thesis using events_safe by blast
next
  case (step_process c i x e' crashed st)
  then show ?thesis using process_safe [OF step_process(3,5,6)] assms(2) by auto
qed (use assms(2,3) in \<open>auto simp: cancel_effect\<close>)

lemma never_crashes:
  assumes "sys_reach e C sent s" and "safe empty_cluster"
    and "\<And>d cl. sent d \<Longrightarrow> safe cl \<Longrightarrow> safe (apply_delta d cl)"
  shows "\<not> sys_crashed s \<and> safe (sys_cluster s)"
  using assms(1)
proof (induction rule: sys_reach.induct)
  case reach_boot
  then show ?case using assms(2) by (simp add: boot_system_def)
next
  case (reach_next s t)
  then show ?case using step_safe [OF reach_next.hyps(2)] assms(3) by blast
qed

end

section \<open>The operator's controllers meet the contracts\<close>

lemma operator_controllers_iff:
  "c \<in> operator_controllers f \<longleftrightarrow> c = proxy_New ''memcached-proxy'' (fl_serviceWorkers f)
     \<or> c = service_New ''memcached-proxy-service'' (fl_serviceWorkers f)
     \<or> c = configmap_New ''memcached-proxy-configmap'' (fl_namespace f) (fl_configMapWorkers f)
     \<or> c = deployment_New ''memcached-proxy-deployment'' (fl_configMapWorkers f)"
  by (auto simp: operator_controllers_def)

lemma New_syncHandler [simp]:
  "c_syncHandler (proxy_New n w) = proxy_syncHandler" "c_syncHandler (service_New n w) = service_syncHandler"
  "c_syncHandler (configmap_New n ns w) = configmap_syncHandler" "c_syncHandler (deployment_New n w) = deployment_syncHandler"
  by (simp_all add: registration_defs Let_def)

lemmas adds_enqueues = adds_enqueue adds_enqueueOwned adds_trans [OF adds_enqueueOwned adds_enqueueOwned]

lemma enqueue_affected_adds [simp]:
  "ctl_cluster (enqueue_affected e ns ep st) = ctl_cluster st" "adds (ctl_queue st) (ctl_queue (enqueue_affected e ns ep st))"
  by (simp_all add: enqueue_affected_def adds_add_keys split: sum.split)

fun_cases addEndpoints_SomeE: "addEndpoints e ns obj st = Some st'"
  and updateEndpoints_SomeE: "updateEndpoints e ns old new st = Some st'"
  and deleteEndpoints_SomeE: "deleteEndpoints e ns obj st = Some st'"

lemma endpoints_dispatch_adds:
  "endpoints_dispatch e ns ev st = Some st' \<Longrightarrow> ctl_cluster st' = ctl_cluster st \<and> adds (ctl_queue st) (ctl_queue st')"
  by (cases ev) (auto elim!: addEndpoints_SomeE updateEndpoints_SomeE deleteEndpoints_SomeE split: if_splits)

lemma operator_events:
  assumes "c \<in> operator_controllers f" and "c_handlers c e kind ev st = Some st'"
  shows "ctl_cluster st' = ctl_cluster st \<and> adds (ctl_queue st) (ctl_queue st')"
  using assms endpoints_dispatch_adds adds_enqueues adds_dispatch
  by (auto simp: operator_controllers_iff registration_defs Let_def split: informer.splits)

interpretation operator: controller_set "operator_controllers f" e for f e
proof (rule controller_set.intro)
  fix c e'
  assume "c \<in> operator_controllers f"
  then show "sync_handler (c_syncHandler c e')"
    using proxy_loop.sync_handler_axioms service_loop.sync_handler_axioms configmap_loop.sync_handler_axioms
      deployment_loop.sync_handler_axioms
    by (auto simp: operator_controllers_iff)
next
  fix c
  assume "c \<in> operator_controllers f"
  then show "c_Run c = Run" by (auto simp: operator_controllers_iff)
qed (rule operator_events)

lemma endpoints_dispatch_total: "typed_event EndpointsInformer ev \<Longrightarrow> endpoints_dispatch e ns ev st \<noteq> None"
proof (cases ev)
  case (Deleted obj)
  then show "typed_event EndpointsInformer ev \<Longrightarrow> ?thesis"
    by (cases "(e, ns, obj, st)" rule: deleteEndpoints.cases) auto
qed auto

lemma operator_events_total:
  assumes "c \<in> operator_controllers f" and "typed_event kind ev"
  shows "c_handlers c e kind ev st \<noteq> None"
  using assms endpoints_dispatch_total
  by (auto simp: operator_controllers_iff registration_defs Let_def split: informer.splits)

lemma found_deployment:
  assumes "GetDeploymentsForProxy e cl p = (Some d, ds, err)"
  shows "d \<in> objects (cl_deployments cl)"
proof -
  obtain dList where l: "ListAllByNamespace (env_range e RangeDeployments) d_Meta (cl_deployments cl) (om_Namespace (mp_Meta p)) Everything = Inr dList"
    using assms by (auto simp: GetDeploymentsForProxy_def split: sum.splits)
  let ?result = "filter (\<lambda>d. IsControlledBy (d_Meta d) (mp_Meta p)) dList"
  have "sort_newest_first ?result = d # ds" using assms l by (auto simp: GetDeploymentsForProxy_def Let_def split: list.splits)
  then have "d \<in> set (sort_newest_first ?result)" by (metis list.set_intros(1))
  then have "d \<in> set ?result" by simp
  then show ?thesis using listed_objects [OF l] by auto
qed

lemma fit_delta_keeps: "fit_delta d \<Longrightarrow> fit cl \<Longrightarrow> fit (apply_delta d cl)"
proof (cases d)
  case (SetProxy p)
  then show "fit_delta d \<Longrightarrow> fit cl \<Longrightarrow> ?thesis" using objects_add [of mp_Meta p "cl_proxies cl"] by (auto simp: fit_def)
next
  case (DropProxy p)
  then show "fit_delta d \<Longrightarrow> fit cl \<Longrightarrow> ?thesis" using objects_delete [of mp_Meta p "cl_proxies cl"] by (auto simp: fit_def)
next
  case (SetDeployment x)
  then show "fit_delta d \<Longrightarrow> fit cl \<Longrightarrow> ?thesis" using objects_add [of d_Meta x "cl_deployments cl"] by (auto simp: fit_def)
next
  case (DropDeployment x)
  then show "fit_delta d \<Longrightarrow> fit cl \<Longrightarrow> ?thesis" using objects_delete [of d_Meta x "cl_deployments cl"] by (auto simp: fit_def)
qed (simp_all add: fit_def)

lemma fit_footprint:
  assumes "footprint kind cl cl'" and "kind \<noteq> ProxyInformer" and "kind \<noteq> DeploymentInformer" and "fit cl"
  shows "fit cl'"
proof -
  obtain calls where "cl_actions cl' = cl_actions cl @ calls" "\<forall>a \<in> set calls. action_kind a = kind"
    using assms(1) unfolding footprint_def by blast
  moreover have "fit_action a" if "action_kind a = kind" for a using that assms(2,3) by (cases a) auto
  ultimately have "\<forall>a \<in> set (cl_actions cl'). fit_action a" using assms(4) by (auto simp: fit_def)
  then show ?thesis using assms by (simp add: footprint_def fit_def)
qed

lemma proxy_fit:
  assumes "fit (ctl_cluster st)"
  shows "fit (ctl_cluster (snd (proxy_syncHandler e key st)))"
proof -
  have port: "mr_Port (spec_McRouter (mp_Spec (updateStatus (ApplyDefaults p)))) \<noteq> None" for p
    by (auto simp: ApplyDefaults_McRouter McRouterSpec_ApplyDefaults_def Let_def)
  show ?thesis
    using assms port by (auto simp: proxy_syncHandler_def fit_def api_call_def Let_def split: sum.split)
qed

lemma fit_observed:
  "fit cl \<Longrightarrow> get_proxy cl ns name = Inr p \<Longrightarrow> om_Generation (mp_Meta p) = st_ObservedGeneration (mp_Status p) \<Longrightarrow>
     mr_Port (spec_McRouter (mp_Spec p)) \<noteq> None"
  using map_of_SomeD [of "ix_items (cl_proxies cl)" "ns @ ''/'' @ name" p] by (auto simp: fit_def objects_iff get_proxy_iff)

lemma point_at_ok: "config_volumes_ok d \<Longrightarrow> config_volumes_ok (with_volumes (map (point_at n) (pt_Volumes (d_Template d))) x)"
  by (auto simp: config_volumes_ok_def list_all_iff point_at_def)

lemma ensure_fit:
  assumes "fit (ctl_cluster st)" and "\<And>d. found = Some d \<Longrightarrow> config_volumes_ok d" and "mr_Port (spec_McRouter (mp_Spec p)) \<noteq> None"
  shows "fst (ensure_deployment e st p found) \<noteq> Panic \<and> fit (ctl_cluster (snd (ensure_deployment e st p found)))"
proof (cases found)
  case None
  then show ?thesis
    using assms(1,3)
    by (auto simp: ensure_deployment_def createDeployment_def deploymentForProxy_def fit_def api_call_def Let_def
        desired_deployment_shape(4) split: sum.split option.split)
next
  case (Some d)
  then have ok: "config_volumes_ok d" by (rule assms(2))
  have vs: "set_config_volumes n (pt_Volumes (d_Template d)) = Some (map (point_at n) (pt_Volumes (d_Template d)))" for n
    using ok by (simp add: set_config_volumes_eq config_volumes_ok_def)
  have "config_volumes_ok x" if "x \<in> objects (ix_mutate k (with_volumes (map (point_at n) (pt_Volumes (d_Template d))))
      (cl_deployments (ctl_cluster st)))" for x k n
  proof -
    have "x \<in> objects (cl_deployments (ctl_cluster st)) \<union> with_volumes (map (point_at n) (pt_Volumes (d_Template d))) ` objects (cl_deployments (ctl_cluster st))"
      by (rule subsetD [OF objects_mutate that])
    moreover have "\<forall>d \<in> objects (cl_deployments (ctl_cluster st)). config_volumes_ok d" using assms(1) by (simp add: fit_def)
    ultimately show ?thesis using point_at_ok [OF ok] by auto
  qed
  then show ?thesis
    using Some assms(1)
    by (auto simp: ensure_deployment_def updateDeployment_def vs fit_def api_call_def Let_def point_at_ok [OF ok]
        split: sum.split option.split)
qed

lemma deployment_fit:
  assumes "fit (ctl_cluster st)"
  shows "fst (deployment_syncHandler e key st) \<noteq> Panic \<and> fit (ctl_cluster (snd (deployment_syncHandler e key st)))"
  unfolding deployment_syncHandler_def
proof (rule with_observed_proxy_cases)
  fix ns name p
  assume p: "get_proxy (ctl_cluster st) ns name = Inr p" "om_Generation (mp_Meta p) = st_ObservedGeneration (mp_Status p)"
  obtain found dList where g: "GetDeploymentsForProxy e (ctl_cluster st) p = (found, dList, None)"
    using GetDeploymentsForProxy_no_error [of e "ctl_cluster st" p] by (metis prod.collapse)
  have "config_volumes_ok d" if "found = Some d" for d
    using found_deployment [of e "ctl_cluster st" p d dList None] g that assms by (auto simp: fit_def)
  then have ensure: "fst (ensure_deployment e st p found) \<noteq> Panic \<and> fit (ctl_cluster (snd (ensure_deployment e st p found)))"
    using ensure_fit [OF assms] fit_observed [OF assms p] by blast
  obtain res st1 where r: "ensure_deployment e st p found = (res, st1)" by fastforce
  let ?cl = "snd (deleteDeployments e p (drop (Suc 0) dList) (ctl_cluster st1))"
  obtain n where "cl_actions ?cl = cl_actions (ctl_cluster st1)
      @ map (\<lambda>d. DeleteDeployment (om_Namespace (d_Meta d)) (om_Name (d_Meta d))) (take n (drop (Suc 0) dList))"
    using deleteDeployments_log by blast
  then have "\<forall>a \<in> set (cl_actions ?cl). fit_action a" using ensure by (auto simp: r fit_def)
  then have "fit ?cl"
    using ensure deleteDeployments_caches [of "ctl_cluster st1" e p "drop (Suc 0) dList"] by (simp add: r fit_def same_caches_def)
  then show "fst (deployment_sync e key st ns p) \<noteq> Panic \<and> fit (ctl_cluster (snd (deployment_sync e key st ns p)))"
    using ensure deleteDeployments_no_panic [of e p "drop (Suc 0) dList" "ctl_cluster st1"]
    by (cases "deleteDeployments e p (drop (Suc 0) dList) (ctl_cluster st1)")
      (auto simp: deployment_sync_eq [OF g] r split: outcome.split)
qed (use assms in simp_all)

lemma service_fit:
  assumes "fit (ctl_cluster st)"
  shows "fst (service_syncHandler e key st) \<noteq> Panic \<and> fit (ctl_cluster (snd (service_syncHandler e key st)))"
proof
  show "fit (ctl_cluster (snd (service_syncHandler e key st)))"
    by (rule fit_footprint [OF service_footprint _ _ assms]) simp_all
  show "fst (service_syncHandler e key st) \<noteq> Panic"
    unfolding service_syncHandler_def
  proof (rule with_observed_proxy_cases)
    fix ns name p
    assume p: "get_proxy (ctl_cluster st) ns name = Inr p" "om_Generation (mp_Meta p) = st_ObservedGeneration (mp_Status p)"
    show "fst (service_sync e st ns p) \<noteq> Panic"
      using fit_observed [OF assms p]
      by (auto simp: service_sync_def Let_def api_call_def split: sum.split option.split prod.split bool.split)
  qed simp_all
qed

lemma operator_sync_fit:
  assumes "c \<in> operator_controllers f" and "fit (ctl_cluster st)"
  shows "fst (c_syncHandler c e key st) \<noteq> Panic \<and> fit (ctl_cluster (snd (c_syncHandler c e key st)))"
proof -
  have "fit (ctl_cluster (snd (configmap_syncHandler e key st)))"
    by (rule fit_footprint [OF configmap_footprint _ _ assms(2)]) simp_all
  then show ?thesis
    using assms proxy_fit [OF assms(2)] proxy_loop.sync_no_panic [of e key st] configmap_loop.sync_no_panic [of e key st]
      service_fit [OF assms(2)] deployment_fit [OF assms(2)]
    by (auto simp: operator_controllers_iff)
qed

interpretation operator: safe_controllers "operator_controllers f" e fit for f e
  by (intro safe_controllers.intro safe_controllers_axioms.intro operator.controller_set_axioms)
    (use operator_sync_fit operator_events_total in \<open>blast+\<close>)

section \<open>Properties\<close>

text \<open>
  C4. The operator never crashes: from empty caches, whatever the API server answers, in whatever order informers, workers,
  delayed adds and shutdown take turns, no goroutine panics, as long as the informers deliver only proxies that have a
  port once they are marked as observed, and deployments whose \<open>config\<close> volumes have a config map source. The proxies
  and deployments the operator itself writes are of this kind.
\<close>

theorem operator_never_crashes:
  assumes "sys_reach e (operator_controllers f) sent s" and "\<And>d. sent d \<Longrightarrow> fit_delta d"
  shows "\<not> sys_crashed s \<and> (\<forall>a \<in> set (cl_actions (sys_cluster s)). fit_action a)"
proof -
  have "fit empty_cluster" by (simp add: fit_def empty_cluster_def objects_def new_indexer_def)
  with operator.never_crashes [OF assms(1)] fit_delta_keeps assms(2)
  have "\<not> sys_crashed s \<and> fit (sys_cluster s)" by blast
  then show ?thesis by (simp add: fit_def)
qed

text \<open>
  C5. In every state the operator can reach, the six caches are consistent with their indexes, every work queue is well formed, its
  active items are exactly the ones its workers hold, and no two workers of a controller hold the same key.
\<close>

theorem operator_invariant:
  assumes "sys_reach e (operator_controllers f) sent s"
  shows "cluster_inv (sys_cluster s) \<and> wq_inv (sys_queue s n) \<and> q_processing (sys_queue s n) = ran (sys_held s n)
    \<and> (sys_held s n i = Some x \<longrightarrow> sys_held s n j = Some x \<longrightarrow> i = j)"
  using operator.reach_inv [OF assms] by (simp add: sys_inv_def holders_ok_def)

text \<open>
  C23. No request gets lost: a key that needs processing stays marked in its queue through every step of the
  operator, shutdown included, until an idle worker takes it.
\<close>

theorem operator_key_not_lost:
  assumes "sys_reach e (operator_controllers f) sent s" and "sys_step e (operator_controllers f) sent s t"
    and "x \<in> q_dirty (sys_queue s n)"
  shows "x \<in> q_dirty (sys_queue t n) \<or> (\<exists>i. sys_held s n i = None \<and> sys_held t n i = Some x)"
  using operator.pending_kept [OF assms(2) operator.reach_inv [OF assms(1)] assms(3)] .

text \<open>
  C24. Separation of duties: one sync of a controller writes objects of one type only and changes no cache but
  the one of that type; the proxy controller, which works on a deep copy, changes no cache at all.
\<close>

theorem one_writer_per_type:
  "footprint ProxyInformer (ctl_cluster st) (ctl_cluster (snd (proxy_syncHandler e key st)))
   \<and> cl_proxies (ctl_cluster (snd (proxy_syncHandler e key st))) = cl_proxies (ctl_cluster st)
   \<and> footprint ServiceInformer (ctl_cluster st) (ctl_cluster (snd (service_syncHandler e key st)))
   \<and> footprint ConfigMapInformer (ctl_cluster st) (ctl_cluster (snd (configmap_syncHandler e key st)))
   \<and> footprint DeploymentInformer (ctl_cluster st) (ctl_cluster (snd (deployment_syncHandler e key st)))"
  using proxy_footprint service_footprint configmap_footprint deployment_footprint by blast

section \<open>Examples\<close>

text \<open>A run: the example proxy appears, its key is queued, worker 0 of the proxy controller takes it and writes the proxy.\<close>

lemma example_run:
  obtains s t u where "sys_reach accepting_env (operator_controllers default_flags) fit_delta s"
    and "sys_step accepting_env (operator_controllers default_flags) fit_delta s t"
    and "sys_step accepting_env (operator_controllers default_flags) fit_delta t u"
    and "StringItem ''default/example'' \<in> q_dirty (sys_queue s ''memcached-proxy'')"
    and "sys_held t ''memcached-proxy'' 0 = Some (StringItem ''default/example'')"
    and "cl_actions (sys_cluster u) = [UpdateProxy ''default'' (updateStatus (ApplyDefaults example_proxy))]"
proof -
  let ?C = "operator_controllers default_flags" and ?n = "''memcached-proxy''" and ?x = "StringItem ''default/example''"
  let ?c = "proxy_New ''memcached-proxy'' (fl_serviceWorkers default_flags)"
  let ?step = "sys_step accepting_env ?C fit_delta"
  define r where "r = (boot_system (\<lambda>_ _. 0))\<lparr>sys_cluster := apply_delta (SetProxy example_proxy) (sys_cluster (boot_system (\<lambda>_ _. 0)))\<rparr>"
  define s where "s = put_view ?n (on_queue (wq_Add ?x) (view ?n r)) r"
  have c: "?c \<in> ?C" by (simp add: operator_controllers_iff)
  have "fit_delta (SetProxy example_proxy)" by (simp add: example_proxy_def)
  then have "?step (boot_system (\<lambda>_ _. 0)) r" unfolding r_def by (intro sys_step.step_cache) (simp_all add: boot_system_def)
  then have r: "sys_reach accepting_env ?C fit_delta r" by (rule reach_next [OF reach_boot])
  have key: "meta_key (mp_Meta example_proxy) = ''default/example''" by (simp add: meta_key_def example_proxy_def)
  have "c_handlers ?c accepting_env ProxyInformer (Added (MetaObj (mp_Meta example_proxy))) (view (c_name ?c) r)
      = Some (on_queue (wq_Add ?x) (view ?n r))"
    by (simp add: registration_defs enqueue_def MetaNamespaceKeyFunc_def key on_queue_def)
  then have "?step r s"
    using sys_step.step_event [OF _ c, of r ProxyInformer "Added (MetaObj (mp_Meta example_proxy))" accepting_env accepting_env _ fit_delta]
    by (simp add: s_def r_def boot_system_def drawn_refl)
  with r have s: "sys_reach accepting_env ?C fit_delta s" by (rule reach_next)
  have queue: "sys_queue s ?n = wq_Add ?x (new_rlq (\<lambda>_. 0))" and idle: "sys_held s ?n 0 = None" and up: "\<not> sys_crashed s"
    and cl: "sys_cluster s = empty_cluster\<lparr>cl_proxies := ix_Add mp_Meta example_proxy new_indexer\<rparr>"
    by (simp_all add: s_def r_def boot_system_def empty_cluster_def)
  obtain q where q: "wq_Get (sys_queue s ?n) = GotItem ?x q"
    by (simp add: queue new_rlq_def wq_Add_def wq_Get_def)
  define t where "t = s\<lparr>sys_queue := (sys_queue s)(?n := q), sys_held := (sys_held s)(?n := (sys_held s ?n)(0 := Some ?x))\<rparr>"
  have "?step s t"
    using sys_step.step_get [OF up c, of 0 ?x q] idle q by (simp add: t_def Run_def Run_workers_def default_flags_def)
  moreover have held: "sys_held t ?n 0 = Some ?x" and up': "\<not> sys_crashed t" and cl': "sys_cluster t = sys_cluster s"
    using up by (simp_all add: t_def)
  obtain crashed st where p: "process_held (c_syncHandler ?c accepting_env) ?x (view (c_name ?c) t) = (crashed, st)" by fastforce
  define u where "u = (put_view ?n st t)\<lparr>sys_held := (sys_held t)(?n := (sys_held t ?n)(0 := None)), sys_crashed := crashed\<rparr>"
  have "?step t u"
    using sys_step.step_process [OF up' c _ drawn_refl p, of 0] held by (simp add: u_def)
  moreover have "cl_actions (ctl_cluster st) = [UpdateProxy ''default'' (updateStatus (ApplyDefaults example_proxy))]"
  proof -
    have get: "get_proxy (ctl_cluster (view ?n t)) ''default'' ''example'' = Inr example_proxy"
      by (rule get_proxy_example) (simp_all add: cl' cl)
    have "\<not> settled example_proxy" by (simp add: settled_def example_proxy_def)
    then have "\<exists>st1. proxy_syncHandler accepting_env ''default/example'' (view ?n t) = (RetNil, st1)
      \<and> cl_actions (ctl_cluster st1) = [UpdateProxy ''default'' (updateStatus (ApplyDefaults example_proxy))]"
      using proxy_sync_result [OF example_key get, of accepting_env] cl' cl
      by (simp add: accepting_env_def Let_def empty_cluster_def)
    then show ?thesis using p by (auto simp: process_held_def processWorkItem_StringItem)
  qed
  moreover have "?x \<in> q_dirty (sys_queue s ?n)" by (simp add: queue new_rlq_def)
  ultimately show ?thesis using that [OF s] held by (simp add: u_def)
qed

theorem operator_never_crashes_witness:
  "\<exists>s. sys_reach accepting_env (operator_controllers default_flags) fit_delta s \<and> \<not> sys_crashed s \<and> cl_actions (sys_cluster s) \<noteq> []"
proof -
  obtain s t u where run: "sys_reach accepting_env (operator_controllers default_flags) fit_delta s"
    "sys_step accepting_env (operator_controllers default_flags) fit_delta s t"
    "sys_step accepting_env (operator_controllers default_flags) fit_delta t u"
    "cl_actions (sys_cluster u) = [UpdateProxy ''default'' (updateStatus (ApplyDefaults example_proxy))]"
    by (rule example_run)
  have "sys_reach accepting_env (operator_controllers default_flags) fit_delta u"
    by (rule reach_next [OF reach_next [OF run(1,2)] run(3)])
  with operator_never_crashes [OF this] run(4) show ?thesis by auto
qed

theorem operator_invariant_witness:
  "\<exists>t. sys_reach accepting_env (operator_controllers default_flags) fit_delta t
     \<and> sys_held t ''memcached-proxy'' 0 = Some (StringItem ''default/example'')
     \<and> sys_held t ''memcached-proxy'' 1 \<noteq> Some (StringItem ''default/example'')"
proof -
  obtain s t u where run: "sys_reach accepting_env (operator_controllers default_flags) fit_delta s"
    "sys_step accepting_env (operator_controllers default_flags) fit_delta s t"
    "sys_held t ''memcached-proxy'' 0 = Some (StringItem ''default/example'')"
    by (rule example_run)
  have t: "sys_reach accepting_env (operator_controllers default_flags) fit_delta t" by (rule reach_next [OF run(1,2)])
  from operator_invariant [OF this, of "''memcached-proxy''" 0 "StringItem ''default/example''" 1] run(3) t show ?thesis by auto
qed

theorem operator_key_not_lost_witness:
  "\<exists>s t. sys_step accepting_env (operator_controllers default_flags) fit_delta s t
     \<and> (StringItem ''default/example'' \<in> q_dirty (sys_queue t ''memcached-proxy'')
        \<or> (\<exists>i. sys_held t ''memcached-proxy'' i = Some (StringItem ''default/example'')))"
proof -
  obtain s t u where run: "sys_reach accepting_env (operator_controllers default_flags) fit_delta s"
    "sys_step accepting_env (operator_controllers default_flags) fit_delta s t"
    "StringItem ''default/example'' \<in> q_dirty (sys_queue s ''memcached-proxy'')"
    by (rule example_run)
  from operator_key_not_lost [OF this] run(2) show ?thesis by blast
qed

end
