(* ===== verification/Stability.thy ===== *)
theory Stability
  imports OperatorSystem
begin

text \<open>
  When the operator comes to rest. A sync rests when it sends nothing but updates that change nothing, which a server
  answers without an event. For a proxy in the cache, \<open>resting_stage\<close> decides from the caches whether the syncs of all four
  controllers rest, and if so at which of five stages; \<open>operator_at_rest_iff\<close> shows that it decides correctly. Rest is
  stable: as long as no informer changes a cache, every interleaving of the operator's steps leaves the caches alone and sends
  nothing but such updates, in whatever orders the steps range over maps (\<open>operator_stays_at_rest\<close>). A rollout ends at rest (\<open>handover_comes_to_rest\<close>).
\<close>

section \<open>Rest\<close>

fun noop :: "cluster \<Rightarrow> action \<Rightarrow> bool" where
  \<comment> \<open>the call writes the object that the cache holds already\<close>
  "noop cl (UpdateProxy ns p) = (ns = om_Namespace (mp_Meta p) \<and> ix_GetByKey (meta_key (mp_Meta p)) (cl_proxies cl) = Some p)"
| "noop cl (UpdateService ns s) = (ns = om_Namespace (svc_Meta s) \<and> ix_GetByKey (meta_key (svc_Meta s)) (cl_services cl) = Some s)"
| "noop cl (UpdateConfigMap ns c) = (ns = om_Namespace (cm_Meta c) \<and> ix_GetByKey (meta_key (cm_Meta c)) (cl_configmaps cl) = Some c)"
| "noop cl (UpdateDeployment ns d) = (ns = om_Namespace (d_Meta d) \<and> ix_GetByKey (meta_key (d_Meta d)) (cl_deployments cl) = Some d)"
| "noop cl (CreateService ns s) = False"
| "noop cl (CreateConfigMap ns c) = False"
| "noop cl (CreateDeployment ns d) = False"
| "noop cl (DeleteDeployment ns n) = False"

definition calls :: "cluster \<Rightarrow> cluster \<Rightarrow> action list" where
  \<comment> \<open>what was sent between two states\<close>
  "calls cl cl' = drop (length (cl_actions cl)) (cl_actions cl')"

definition rests :: "handler \<Rightarrow> string \<Rightarrow> ctl \<Rightarrow> bool" where
  "rests syncHandler key st \<longleftrightarrow>
     (let cl = ctl_cluster st in list_all (noop cl) (calls cl (ctl_cluster (snd (syncHandler key st)))))"

definition at_rest :: "env \<Rightarrow> controller set \<Rightarrow> string \<Rightarrow> system \<Rightarrow> bool" where
  "at_rest e C key s \<longleftrightarrow> (\<forall>c \<in> C. rests (c_syncHandler c e) key (view (c_name c) s))"

section \<open>The stages at which a proxy rests\<close>

definition service_in_place :: "cluster \<Rightarrow> string \<Rightarrow> MemcachedProxy \<Rightarrow> bool" where
  "service_in_place cl ns p \<longleftrightarrow>
     (case lister_Get ''service'' (cl_services cl) ns (GetProxyServiceName p) of
        Inl err \<Rightarrow> False
      | Inr s \<Rightarrow> map_equal (svc_Selector s) (GetProxyServiceSelector p))"

definition few_deployments :: "env \<Rightarrow> cluster \<Rightarrow> MemcachedProxy \<Rightarrow> bool" where
  \<comment> \<open>no deployment but the newest and the second newest, which nothing removes\<close>
  "few_deployments e cl p \<longleftrightarrow> length (fst (snd (GetDeploymentsForProxy e cl p))) \<le> 1"

definition runs_config :: "Deployment \<Rightarrow> string \<Rightarrow> bool" where
  \<comment> \<open>every \<open>config\<close> volume refers to the config map\<close>
  "runs_config d cmName \<longleftrightarrow> list_all (\<lambda>v. v_Name v = ''config'' \<longrightarrow> map_option cmv_Name (v_ConfigMap v) = Some cmName)
     (pt_Volumes (d_Template d))"

datatype stage = UpToDate | RollingOut | Crowded | Stuck | Unrenderable

definition stage_without_new :: "env \<Rightarrow> cluster \<Rightarrow> MemcachedProxy \<Rightarrow> stage option" where
  \<comment> \<open>the proxy controls no config map\<close>
  "stage_without_new e cl p =
     (case configForProxy e cl p of
        Inl err \<Rightarrow> (if few_deployments e cl p then Some Unrenderable else None)
      | Inr config \<Rightarrow>
          (case lister_Get ''configmap'' (cl_configmaps cl) (om_Namespace (mp_Meta p))
                  (om_Name (cm_Meta (rendered_configmap p (config_json config)))) of
             Inl err \<Rightarrow> None
           | Inr cm \<Rightarrow>
               (case fst (GetDeploymentsForProxy e cl p) of
                  None \<Rightarrow> Some Stuck
                | Some d \<Rightarrow> (if few_deployments e cl p \<and> mounts d (om_Name (cm_Meta cm)) then Some UpToDate else None))))"

definition stage_with_new :: "env \<Rightarrow> cluster \<Rightarrow> MemcachedProxy \<Rightarrow> ConfigMap \<Rightarrow> stage option" where
  \<comment> \<open>the proxy controls one config map: the replica set that is to own it has not been seen\<close>
  "stage_with_new e cl p cm =
     (case fst (GetDeploymentsForProxy e cl p) of
        None \<Rightarrow> None
      | Some d \<Rightarrow>
          (if few_deployments e cl p \<and> runs_config d (om_Name (cm_Meta cm))
              \<and> (case getNewRSForProxy e cl p of Inr (Some rs) \<Rightarrow> False | _ \<Rightarrow> True)
           then Some RollingOut else None))"

definition resting_stage :: "env \<Rightarrow> cluster \<Rightarrow> MemcachedProxy \<Rightarrow> stage option" where
  "resting_stage e cl p =
     (case GetConfigMapsForProxy e cl p of
        Inl err \<Rightarrow> None
      | Inr [] \<Rightarrow> stage_without_new e cl p
      | Inr [cm] \<Rightarrow> stage_with_new e cl p cm
      | Inr _ \<Rightarrow> Some Crowded)"

definition key_rests :: "env \<Rightarrow> cluster \<Rightarrow> string \<Rightarrow> bool" where
  \<comment> \<open>a key that does not belong to a proxy rests too\<close>
  "key_rests e cl key \<longleftrightarrow>
     (case SplitMetaNamespaceKey key of
        Inl err \<Rightarrow> True
      | Inr (ns, name) \<Rightarrow>
          (case get_proxy cl ns name of
             Inl err \<Rightarrow> True
           | Inr p \<Rightarrow> settled p \<and> service_in_place cl ns p \<and> resting_stage e cl p \<noteq> None))"

section \<open>A cluster at rest\<close>

text \<open>
  The sharded example after everything is done: its service is there, the config map with the text \<open>cfg\<close> has been handed
  over, and a deployment mounts it.
\<close>

definition ready_cluster :: cluster where
  "ready_cluster = serving_cluster\<lparr>cl_services :=
     ix_Add svc_Meta (desired_service ''default'' (GetProxyServiceName sharded_proxy) sharded_proxy 11211) (cl_services serving_cluster)\<rparr>"

definition handed_configmap :: "string \<Rightarrow> ConfigMap" where
  "handed_configmap cfg = set_refs [] (rendered_configmap sharded_proxy cfg)"

definition running_deployment :: "string \<Rightarrow> Deployment" where
  "running_deployment cfg = desired_deployment sharded_proxy (om_Name (cm_Meta (handed_configmap cfg))) 11211"

definition calm_cluster :: "string \<Rightarrow> cluster" where
  "calm_cluster cfg = ready_cluster\<lparr>cl_configmaps := ix_Add cm_Meta (handed_configmap cfg) new_indexer,
     cl_deployments := ix_Add d_Meta (running_deployment cfg) new_indexer\<rparr>"

definition rolled_replicaset :: "string \<Rightarrow> ReplicaSet" where
  "rolled_replicaset cfg = \<lparr>rs_Meta = zero_meta\<lparr>om_Name := ''sharded-1'', om_Namespace := ''default'', om_UID := ''uid-rs'',
       om_Labels := GetProxyServiceSelector sharded_proxy\<rparr>,
     rs_Template = set_hash ''1'' (d_Template (running_deployment cfg)), rs_Rest = []\<rparr>"

definition rolled_out_cluster :: "string \<Rightarrow> cluster" where
  \<comment> \<open>just before the end of a rollout: the proxy still owns the config map\<close>
  "rolled_out_cluster cfg = (calm_cluster cfg)\<lparr>cl_configmaps := ix_Add cm_Meta (rendered_configmap sharded_proxy cfg) new_indexer,
     cl_replicasets := ix_Add rs_Meta (rolled_replicaset cfg) new_indexer\<rparr>"

section \<open>Lemmas on caches\<close>

lemma map_put_same: "map_of m k = Some v \<Longrightarrow> map_put k v m = m"
  by (induction k v m rule: map_put.induct) (auto split: if_splits)

lemma ix_mutate_same: "ix_GetByKey k ix = Some x \<Longrightarrow> f x = x \<Longrightarrow> ix_mutate k f ix = ix"
  by (simp add: ix_mutate_def ix_GetByKey_def map_put_same)

lemma cached_object: "ix_inv mt ix \<Longrightarrow> x \<in> objects ix \<Longrightarrow> ix_GetByKey (meta_key (mt x)) ix = Some x"
  using ix_inv_key ix_GetByKey_items by (metis objects_iff)

lemma lister_Get_cached:
  assumes "ix_inv mt ix" and "lister_Get resource ix ns name = Inr x"
  shows "ix_GetByKey (meta_key (mt x)) ix = Some x"
proof -
  have "ix_GetByKey (ns @ ''/'' @ name) ix = Some x" using assms(2) by (auto simp: lister_Get_def split: option.splits)
  then show ?thesis using ix_inv_map_of_key [OF assms(1)] by (metis ix_GetByKey_def)
qed

lemma ix_GetByKey_unique: "ix_GetByKey k ix = Some x \<Longrightarrow> ix_GetByKey k ix = Some y \<longleftrightarrow> y = x"
  by auto

lemma same_caches_refl [simp]: "same_caches cl cl"
  by (simp add: same_caches_def)

lemma Split_parts: "\<forall>x \<in> set (Split sep s). sep \<notin> set x"
  by (induction s) (auto split: list.split)

lemma SplitMetaNamespaceKey_parts:
  assumes "SplitMetaNamespaceKey key = Inr (ns, name)"
  shows "CHR ''/'' \<notin> set ns" "CHR ''/'' \<notin> set name"
proof -
  have "Split (CHR ''/'') key = [name] \<and> ns = [] \<or> Split (CHR ''/'') key = [ns, name]"
    using assms by (auto simp: SplitMetaNamespaceKey_def split: list.splits)
  then show "CHR ''/'' \<notin> set ns" "CHR ''/'' \<notin> set name" using Split_parts [of "CHR ''/''" key] by auto
qed

section \<open>Lemmas on rest\<close>

lemma rests_calls:
  assumes "cl_actions (ctl_cluster (snd (h key st))) = cl_actions (ctl_cluster st) @ as"
  shows "rests h key st \<longleftrightarrow> list_all (noop (ctl_cluster st)) as"
  using assms by (simp add: rests_def calls_def Let_def)

lemma rests_silent: "cl_actions (ctl_cluster (snd (h key st))) = cl_actions (ctl_cluster st) \<Longrightarrow> rests h key st"
  using rests_calls [of h key st "[]"] by simp

lemma proxy_rests:
  assumes "SplitMetaNamespaceKey key = Inr (ns, name)" and "get_proxy (ctl_cluster st) ns name = Inr p"
    and "cluster_inv (ctl_cluster st)"
  shows "rests (proxy_syncHandler e) key st \<longleftrightarrow> settled p"
    and "settled p \<Longrightarrow> same_caches (ctl_cluster st) (ctl_cluster (snd (proxy_syncHandler e key st)))"
proof -
  note sync = proxy_sync_result [OF assms(1,2), of e]
  have "ix_GetByKey (meta_key (mp_Meta p)) (cl_proxies (ctl_cluster st)) = Some p"
    using assms(2,3) by (intro lister_Get_cached) (auto simp: get_proxy_def cluster_inv_def)
  then have "noop (ctl_cluster st) (UpdateProxy (om_Namespace (mp_Meta p)) (updateStatus (ApplyDefaults p)))
      \<longrightarrow> updateStatus (ApplyDefaults p) = p" by auto
  then have "\<not> noop (ctl_cluster st) (UpdateProxy (om_Namespace (mp_Meta p)) (updateStatus (ApplyDefaults p)))" if "\<not> settled p"
    using that settled_updated by metis
  then show "rests (proxy_syncHandler e) key st \<longleftrightarrow> settled p"
    by (auto simp: rests_def calls_def sync Let_def)
  show "same_caches (ctl_cluster st) (ctl_cluster (snd (proxy_syncHandler e key st)))" if "settled p"
    by (simp add: sync that)
qed

lemma settled_port:
  assumes "settled p"
  obtains port where "mr_Port (spec_McRouter (mp_Spec p)) = Some port"
proof -
  have "\<exists>port. mr_Port (spec_McRouter (mp_Spec (ApplyDefaults p))) = Some port"
    by (auto simp: ApplyDefaults_McRouter McRouterSpec_ApplyDefaults_def Let_def)
  then show ?thesis using assms that by (auto simp: settled_def)
qed

lemma service_rests:
  assumes "SplitMetaNamespaceKey key = Inr (ns, name)" and "get_proxy (ctl_cluster st) ns name = Inr p"
    and "cluster_inv (ctl_cluster st)" and "settled p"
  shows "rests (service_syncHandler e) key st \<longleftrightarrow> service_in_place (ctl_cluster st) ns p"
    and "service_in_place (ctl_cluster st) ns p \<Longrightarrow> same_caches (ctl_cluster st) (ctl_cluster (snd (service_syncHandler e key st)))"
proof -
  have sync: "service_syncHandler e key st = service_sync e st ns p"
    unfolding service_syncHandler_def using assms(4) by (intro with_observed_proxy_current [OF assms(1,2)]) (simp add: settled_def)
  obtain port where port: "mr_Port (spec_McRouter (mp_Spec p)) = Some port" by (rule settled_port [OF assms(4)])
  have "(rests (service_syncHandler e) key st \<longleftrightarrow> service_in_place (ctl_cluster st) ns p)
    \<and> (service_in_place (ctl_cluster st) ns p \<longrightarrow> same_caches (ctl_cluster st) (ctl_cluster (snd (service_syncHandler e key st))))"
  proof (cases "lister_Get ''service'' (cl_services (ctl_cluster st)) ns (GetProxyServiceName p)")
    case (Inl err)
    then have "\<not> rests (service_syncHandler e) key st"
      using service_sync_missing [OF Inl port, of e] sync by (subst rests_calls) (auto simp: Let_def)
    then show ?thesis by (simp add: service_in_place_def Inl)
  next
    case (Inr s)
    show ?thesis
    proof (cases "map_of (svc_Selector s) = map_of (GetProxyServiceSelector p)")
      case True
      then show ?thesis
        using service_sync_healthy [OF Inr True, of e] sync by (simp add: rests_silent service_in_place_def Inr map_equal_iff)
    next
      case False
      let ?s = "s\<lparr>svc_Selector := GetProxyServiceSelector p\<rparr>"
      have "ix_GetByKey (meta_key (svc_Meta s)) (cl_services (ctl_cluster st)) = Some s"
        using assms(3) by (intro lister_Get_cached [OF _ Inr]) (simp add: cluster_inv_def)
      moreover have "?s \<noteq> s" using False by (metis Service.select_convs(2) Service.surjective Service.update_convs(2))
      ultimately have "\<not> rests (service_syncHandler e) key st"
        using service_sync_drifted [OF Inr False, of e] sync by (subst rests_calls) (auto simp: Let_def)
      then show ?thesis by (simp add: service_in_place_def Inr map_equal_iff False)
    qed
  qed
  then show "rests (service_syncHandler e) key st \<longleftrightarrow> service_in_place (ctl_cluster st) ns p"
    "service_in_place (ctl_cluster st) ns p \<Longrightarrow> same_caches (ctl_cluster st) (ctl_cluster (snd (service_syncHandler e key st)))"
    by blast+
qed


lemma deployments_found:
  obtains found dList where "GetDeploymentsForProxy e cl p = (found, dList, None)" and "found = None \<Longrightarrow> dList = []"
proof -
  obtain found dList err where g: "GetDeploymentsForProxy e cl p = (found, dList, err)" by (rule prod_cases3)
  then have "err = None \<and> (found = None \<longrightarrow> dList = [])"
    by (auto simp: GetDeploymentsForProxy_def Let_def split: sum.splits list.splits)
  with g that show ?thesis by blast
qed

lemma newest_cached:
  assumes "cluster_inv cl" and "permutes_keys (env_range e)" and "GetDeploymentsForProxy e cl p = (Some d, dList, err)"
  shows "ix_GetByKey (meta_key (d_Meta d)) (cl_deployments cl) = Some d" and "d \<in> objects (cl_deployments cl)"
proof -
  show "d \<in> objects (cl_deployments cl)"
    using GetDeploymentsForProxy_spec [OF assms(1,2), of p] assms(3) by (auto simp: owned_deployments_def)
  then show "ix_GetByKey (meta_key (d_Meta d)) (cl_deployments cl) = Some d"
    using assms(1) by (intro cached_object) (simp_all add: cluster_inv_def)
qed

lemma GetConfigMapForProxy_list:
  "GetConfigMapsForProxy e cl p = Inr [] \<Longrightarrow> GetConfigMapForProxy e cl p = Inr None"
  "GetConfigMapsForProxy e cl p = Inr [cm] \<Longrightarrow> GetConfigMapForProxy e cl p = Inr (Some cm)"
  "GetConfigMapsForProxy e cl p = Inr (c1 # c2 # cms) \<Longrightarrow> isl (GetConfigMapForProxy e cl p)"
  by (simp_all add: GetConfigMapForProxy_def)

lemma runs_config_iff:
  assumes "config_volumes_ok d"
  shows "with_volumes (map (point_at n) (pt_Volumes (d_Template d))) d = d \<longleftrightarrow> runs_config d n"
proof -
  have point: "point_at n v = v \<longleftrightarrow> (v_Name v = ''config'' \<longrightarrow> map_option cmv_Name (v_ConfigMap v) = Some n)"
    if "v_Name v = ''config'' \<longrightarrow> v_ConfigMap v \<noteq> None" for v
  proof (cases "v_ConfigMap v")
    case (Some src)
    have "v\<lparr>v_ConfigMap := Some (src\<lparr>cmv_Name := n\<rparr>)\<rparr> = v \<longleftrightarrow> cmv_Name src = n"
      using Some by (cases v, cases src) auto
    then show ?thesis by (auto simp: point_at_def Some)
  qed (use that in \<open>simp add: point_at_def\<close>)
  have "with_volumes vs d = d \<longleftrightarrow> vs = pt_Volumes (d_Template d)" for vs
    by (metis with_volumes_simps(2) with_volumes_def Deployment.surjective Deployment.update_convs(4)
        PodTemplateSpec.surjective PodTemplateSpec.update_convs(3))
  then have "with_volumes (map (point_at n) (pt_Volumes (d_Template d))) d = d
      \<longleftrightarrow> (\<forall>v \<in> set (pt_Volumes (d_Template d)). point_at n v = v)"
    by (simp add: map_idI map_eq_conv [where g = id, simplified])
  then show ?thesis using point assms by (simp add: runs_config_def config_volumes_ok_def list_all_iff)
qed

lemma deployment_calls:
  assumes "GetDeploymentsForProxy e (ctl_cluster st) p = (found, dList, None)"
    and "ensure_deployment e st p found = (RetNil, st1)" and "cl_actions (ctl_cluster st1) = cl_actions (ctl_cluster st) @ as"
    and "\<And>as a. \<not> isl (env_api e as a)"
  shows "cl_actions (ctl_cluster (snd (deployment_sync e key st ns p))) = cl_actions (ctl_cluster st) @ as
      @ map (\<lambda>d. DeleteDeployment (om_Namespace (d_Meta d)) (om_Name (d_Meta d))) (drop 1 dList)"
    and "same_caches (ctl_cluster st1) (ctl_cluster (snd (deployment_sync e key st ns p)))"
proof -
  obtain cl where cl: "deleteDeployments e p (drop 1 dList) (ctl_cluster st1) = (RetNil, cl)"
    "cl_actions cl = cl_actions (ctl_cluster st1)
      @ map (\<lambda>d. DeleteDeployment (om_Namespace (d_Meta d)) (om_Name (d_Meta d))) (drop 1 dList)"
    using deleteDeployments_accepted [OF assms(4), of p "drop 1 dList" "ctl_cluster st1"] by (metis prod.collapse)
  have "same_caches (ctl_cluster st1) cl" using deleteDeployments_caches [of "ctl_cluster st1" e p "drop 1 dList"] cl(1) by (metis snd_conv)
  then show "cl_actions (ctl_cluster (snd (deployment_sync e key st ns p))) = cl_actions (ctl_cluster st) @ as
      @ map (\<lambda>d. DeleteDeployment (om_Namespace (d_Meta d)) (om_Name (d_Meta d))) (drop 1 dList)"
    "same_caches (ctl_cluster st1) (ctl_cluster (snd (deployment_sync e key st ns p)))"
    using cl assms(3) by (auto simp: deployment_sync_eq [OF assms(1)] assms(2))
qed

definition deployment_resting :: "env \<Rightarrow> cluster \<Rightarrow> MemcachedProxy \<Rightarrow> bool" where
  "deployment_resting e cl p \<longleftrightarrow>
     (case (GetConfigMapForProxy e cl p, fst (GetDeploymentsForProxy e cl p)) of
        (Inl err, _) \<Rightarrow> True
      | (Inr None, _) \<Rightarrow> few_deployments e cl p
      | (Inr (Some cm), None) \<Rightarrow> False
      | (Inr (Some cm), Some d) \<Rightarrow> few_deployments e cl p \<and> runs_config d (om_Name (cm_Meta cm)))"


lemma deployment_rests:
  assumes "SplitMetaNamespaceKey key = Inr (ns, name)" and "get_proxy (ctl_cluster st) ns name = Inr p"
    and "cluster_inv (ctl_cluster st)" and "settled p" and "permutes_keys (env_range e)"
    and "\<forall>d \<in> objects (cl_deployments (ctl_cluster st)). config_volumes_ok d" and "\<And>as a. \<not> isl (env_api e as a)"
  shows "rests (deployment_syncHandler e) key st \<longleftrightarrow> deployment_resting e (ctl_cluster st) p"
    and "deployment_resting e (ctl_cluster st) p \<Longrightarrow> same_caches (ctl_cluster st) (ctl_cluster (snd (deployment_syncHandler e key st)))"
proof -
  let ?cl = "ctl_cluster st" and ?h = "deployment_syncHandler e"
  have sync: "?h key st = deployment_sync e key st ns p"
    unfolding deployment_syncHandler_def using assms(4) by (intro with_observed_proxy_current [OF assms(1,2)]) (simp add: settled_def)
  obtain port where port: "mr_Port (spec_McRouter (mp_Spec p)) = Some port" by (rule settled_port [OF assms(4)])
  obtain found dList where g: "GetDeploymentsForProxy e ?cl p = (found, dList, None)" "found = None \<Longrightarrow> dList = []"
    using deployments_found [of e ?cl p] by blast
  have few: "few_deployments e ?cl p \<longleftrightarrow> drop 1 dList = []" by (simp add: few_deployments_def g(1))
  have *: "(rests ?h key st \<longleftrightarrow> list_all (noop ?cl) as \<and> few_deployments e ?cl p)
      \<and> (same_caches ?cl (ctl_cluster st1) \<longrightarrow> same_caches ?cl (ctl_cluster (snd (?h key st))))"
    if "ensure_deployment e st p found = (RetNil, st1)" "cl_actions (ctl_cluster st1) = cl_actions ?cl @ as" for st1 as
  proof -
    have "\<not> list_all (noop ?cl) (map (\<lambda>d. DeleteDeployment (om_Namespace (d_Meta d)) (om_Name (d_Meta d))) ds)" if "ds \<noteq> []" for ds
      using that by (cases ds) simp_all
    then have "list_all (noop ?cl) (map (\<lambda>d. DeleteDeployment (om_Namespace (d_Meta d)) (om_Name (d_Meta d))) (drop 1 dList))
        \<longleftrightarrow> few_deployments e ?cl p" unfolding few by (cases "drop 1 dList") simp_all
    then show ?thesis
      using deployment_calls [OF g(1) that assms(7), of key ns] sync
      by (subst rests_calls, simp) (auto simp: same_caches_def)
  qed
  have silent: "rests ?h key st \<and> same_caches ?cl (ctl_cluster (snd (?h key st)))"
    if "ensure_deployment e st p found = (RetErr err, st)" for err
    using that by (simp add: rests_silent sync deployment_sync_eq [OF g(1)])
  have "(rests ?h key st \<longleftrightarrow> deployment_resting e ?cl p)
    \<and> (deployment_resting e ?cl p \<longrightarrow> same_caches ?cl (ctl_cluster (snd (?h key st))))"
  proof (cases "GetConfigMapForProxy e ?cl p")
    case (Inl err)
    then obtain er where "ensure_deployment e st p found = (RetErr er, st)"
      by (cases found) (auto simp: ensure_deployment_def createDeployment_def deploymentForProxy_def updateDeployment_def)
    from silent [OF this] show ?thesis by (simp add: deployment_resting_def Inl)
  next
    case (Inr r)
    show ?thesis
    proof (cases r)
      case None
      show ?thesis
      proof (cases found)
        case None
        then obtain er where "ensure_deployment e st p found = (RetErr er, st)"
          using Inr \<open>r = None\<close> by (auto simp: ensure_deployment_def createDeployment_def deploymentForProxy_def)
        from silent [OF this] show ?thesis using few g(2) [OF None] by (simp add: deployment_resting_def Inr \<open>r = None\<close>)
      next
        case (Some d)
        then have "ensure_deployment e st p found = (RetNil, st)"
          by (simp add: ensure_deployment_def updateDeployment_def Inr \<open>r = None\<close>)
        from * [OF this, of "[]"] show ?thesis by (simp add: deployment_resting_def Inr \<open>r = None\<close>)
      qed
    next
      case (Some cm)
      show ?thesis
      proof (cases found)
        case None
        then have "\<not> rests ?h key st"
          using deployment_sync_fresh [OF _ _ port, of e st cm key ns] g Inr Some sync by (subst rests_calls) (auto simp: Let_def)
        then show ?thesis by (simp add: deployment_resting_def Inr Some g(1) None)
      next
        case d: (Some d)
        let ?vs = "map (point_at (om_Name (cm_Meta cm))) (pt_Volumes (d_Template d))"
        let ?up = "UpdateDeployment (om_Namespace (d_Meta d)) (with_volumes ?vs d)"
        note cached = newest_cached [OF assms(3,5) g(1) [unfolded d]]
        have ok: "config_volumes_ok d" using assms(6) cached(2) by blast
        obtain m where "env_api e (cl_actions ?cl) ?up = Inr m" using assms(7) by (metis isl_def sum.exhaust)
        then obtain st1 where st1: "ensure_deployment e st p found = (RetNil, st1)" "cl_actions (ctl_cluster st1) = cl_actions ?cl @ [?up]"
          "cl_deployments (ctl_cluster st1) = ix_mutate (meta_key (d_Meta d)) (with_volumes ?vs) (cl_deployments ?cl)"
          "same_caches ?cl ((ctl_cluster st1)\<lparr>cl_deployments := cl_deployments ?cl\<rparr>)"
          using ok by (simp add: ensure_deployment_def d updateDeployment_def Inr Some set_config_volumes_eq config_volumes_ok_def
              api_call_def record_event_def same_caches_def Let_def)
        have noop: "noop ?cl ?up \<longleftrightarrow> runs_config d (om_Name (cm_Meta cm))"
          using cached(1) runs_config_iff [OF ok, of "om_Name (cm_Meta cm)"] by (auto simp: eq_commute)
        have "same_caches ?cl (ctl_cluster st1)" if "runs_config d (om_Name (cm_Meta cm))"
        proof -
          have "ix_mutate (meta_key (d_Meta d)) (with_volumes ?vs) (cl_deployments ?cl) = cl_deployments ?cl"
            using that runs_config_iff [OF ok] by (intro ix_mutate_same [OF cached(1)]) blast
          then show ?thesis using st1(3,4) by (simp add: same_caches_def)
        qed
        then show ?thesis using * [OF st1(1,2)] noop by (auto simp: deployment_resting_def Inr Some g(1) d simp del: noop.simps)
      qed
    qed
  qed
  then show "rests ?h key st \<longleftrightarrow> deployment_resting e ?cl p"
    "deployment_resting e ?cl p \<Longrightarrow> same_caches ?cl (ctl_cluster (snd (?h key st)))" by blast+
qed


definition configmap_resting :: "env \<Rightarrow> cluster \<Rightarrow> MemcachedProxy \<Rightarrow> bool" where
  "configmap_resting e cl p \<longleftrightarrow>
     (case GetConfigMapsForProxy e cl p of
        Inr [] \<Rightarrow>
          (case configForProxy e cl p of
             Inl err \<Rightarrow> True
           | Inr config \<Rightarrow>
               (case lister_Get ''configmap'' (cl_configmaps cl) (om_Namespace (mp_Meta p))
                       (om_Name (cm_Meta (rendered_configmap p (config_json config)))) of
                  Inl err \<Rightarrow> False
                | Inr cm \<Rightarrow> (case fst (GetDeploymentsForProxy e cl p) of None \<Rightarrow> True | Some d \<Rightarrow> mounts d (om_Name (cm_Meta cm)))))
      | Inr [cm] \<Rightarrow> (case getNewRSForProxy e cl p of Inr (Some rs) \<Rightarrow> False | _ \<Rightarrow> True)
      | _ \<Rightarrow> True)"

lemma set_refs_same: "set_refs refs cm = cm \<longleftrightarrow> refs = om_OwnerReferences (cm_Meta cm)"
proof
  show "set_refs refs cm = cm \<Longrightarrow> refs = om_OwnerReferences (cm_Meta cm)" by (metis set_refs_simps(1))
qed (cases cm, simp add: set_refs_def)

lemma update_cm_calls:
  assumes "update_cm e p (set_refs refs cm) wrap (on_cluster (mutate_cm cm refs) st) = (res, st1)"
    and "ix_GetByKey (meta_key (cm_Meta cm)) (cl_configmaps (ctl_cluster st)) = Some cm"
  shows "cl_actions (ctl_cluster st1) = cl_actions (ctl_cluster st) @ [UpdateConfigMap (om_Namespace (cm_Meta cm)) (set_refs refs cm)]"
    "noop (ctl_cluster st) (UpdateConfigMap (om_Namespace (cm_Meta cm)) (set_refs refs cm)) \<longleftrightarrow> refs = om_OwnerReferences (cm_Meta cm)"
    "refs = om_OwnerReferences (cm_Meta cm) \<Longrightarrow> same_caches (ctl_cluster st) (ctl_cluster st1)"
proof -
  have st1: "same_caches (mutate_cm cm refs (ctl_cluster st)) (ctl_cluster st1)"
    "cl_actions (ctl_cluster st1) = cl_actions (ctl_cluster st) @ [UpdateConfigMap (om_Namespace (cm_Meta cm)) (set_refs refs cm)]"
    using assms(1) by (auto simp: update_cm_eq recordConfigMapEvent_def same_caches_def Let_def)
  show "cl_actions (ctl_cluster st1) = cl_actions (ctl_cluster st) @ [UpdateConfigMap (om_Namespace (cm_Meta cm)) (set_refs refs cm)]"
    by (rule st1(2))
  have "meta_key (cm_Meta (set_refs refs cm)) = meta_key (cm_Meta cm)" by (simp add: meta_key_def)
  then show "noop (ctl_cluster st) (UpdateConfigMap (om_Namespace (cm_Meta cm)) (set_refs refs cm))
      \<longleftrightarrow> refs = om_OwnerReferences (cm_Meta cm)"
    using assms(2) set_refs_same [of refs cm] by auto
  show "same_caches (ctl_cluster st) (ctl_cluster st1)" if "refs = om_OwnerReferences (cm_Meta cm)"
    using st1(1) ix_mutate_same [OF assms(2), of "set_refs refs"] set_refs_same [of refs cm] that
    by (simp add: same_caches_def mutate_cm_def)
qed

lemma handed_over_changes:
  assumes "IsControlledBy (cm_Meta cm) (mp_Meta p)"
  shows "handed_over_refs p rs cm \<noteq> om_OwnerReferences (cm_Meta cm)"
proof
  assume "handed_over_refs p rs cm = om_OwnerReferences (cm_Meta cm)"
  moreover have "ref_UID ref \<noteq> om_UID (mp_Meta p)" if "ref \<in> set (handed_over_refs p rs cm)" for ref
    using that by (simp add: handed_over_refs_def)
  ultimately show False
    using IsControlledBy_IsOwnedBy [OF assms] by (auto simp: IsOwnedBy_def list_ex_iff)
qed

lemma owned_cached:
  assumes "cluster_inv cl" and "permutes_keys (env_range e)" and "GetConfigMapsForProxy e cl p = Inr cms" and "cm \<in> set cms"
  shows "ix_GetByKey (meta_key (cm_Meta cm)) (cl_configmaps cl) = Some cm" and "IsControlledBy (cm_Meta cm) (mp_Meta p)"
proof -
  obtain ys where "GetConfigMapsForProxy e cl p = Inr ys" "set ys = owned_configmaps cl p"
    using GetConfigMapsForProxy_set [OF assms(1,2)] by metis
  then have "cm \<in> owned_configmaps cl p" using assms(3,4) by simp
  then show "ix_GetByKey (meta_key (cm_Meta cm)) (cl_configmaps cl) = Some cm" "IsControlledBy (cm_Meta cm) (mp_Meta p)"
    using assms(1) by (auto simp: owned_configmaps_def cluster_inv_def intro: cached_object)
qed

lemma sync_no_new_calls:
  assumes "cluster_inv (ctl_cluster st)" and "GetConfigMapsForProxy e (ctl_cluster st) p = Inr []"
    and h: "snd (h key st) = snd (sync_no_new e key ns p st)"
  shows "(rests h key st \<longleftrightarrow> configmap_resting e (ctl_cluster st) p)
    \<and> (configmap_resting e (ctl_cluster st) p \<longrightarrow> same_caches (ctl_cluster st) (ctl_cluster (snd (h key st))))"
proof -
  let ?cl = "ctl_cluster st"
  have resting: "configmap_resting e ?cl p = (case configForProxy e ?cl p of Inl err \<Rightarrow> True | Inr config \<Rightarrow>
     (case lister_Get ''configmap'' (cl_configmaps ?cl) (om_Namespace (mp_Meta p))
             (om_Name (cm_Meta (rendered_configmap p (config_json config)))) of
        Inl err \<Rightarrow> False
      | Inr cm \<Rightarrow> (case fst (GetDeploymentsForProxy e ?cl p) of None \<Rightarrow> True | Some d \<Rightarrow> mounts d (om_Name (cm_Meta cm)))))"
    by (simp add: configmap_resting_def assms(2))
  show ?thesis
  proof (cases "configForProxy e ?cl p")
    case (Inl err)
    then have "cl_actions (ctl_cluster (snd (h key st))) = cl_actions ?cl" "same_caches ?cl (ctl_cluster (snd (h key st)))"
      by (simp_all add: h sync_no_new_def configMapForProxy_def same_caches_def)
    then show ?thesis by (simp add: rests_silent resting Inl)
  next
    case (Inr config)
    let ?cm = "rendered_configmap p (config_json config)"
    show ?thesis
    proof (cases "lister_Get ''configmap'' (cl_configmaps ?cl) (om_Namespace (mp_Meta p)) (om_Name (cm_Meta ?cm))")
      case (Inl err)
      then have "IsNotFound err" by (auto simp: lister_Get_def NewNotFound_def split: option.splits)
      then have "snd (h key st) = snd (create_cm e key ns p ?cm st)"
        by (simp add: h sync_no_new_def configMapForProxy_def Inr Inl)
      then have "\<not> rests h key st"
        by (subst rests_calls [where as = "[CreateConfigMap ns ?cm]"])
          (simp_all add: create_cm_eq recordConfigMapEvent_def Let_def split: sum.split)
      then show ?thesis by (simp add: resting Inr Inl)
    next
      case cm: (Inr cm)
      have reuse: "snd (h key st) = snd (reuseConfigMap e p cm st)" by (simp add: h sync_no_new_def configMapForProxy_def Inr cm)
      have cached: "ix_GetByKey (meta_key (cm_Meta cm)) (cl_configmaps ?cl) = Some cm"
        using assms(1) by (intro lister_Get_cached [OF _ cm]) (simp add: cluster_inv_def)
      obtain found dList where g: "GetDeploymentsForProxy e ?cl p = (found, dList, None)"
        using deployments_found [of e ?cl p] by blast
      show ?thesis
      proof (cases found)
        case None
        then have "snd (h key st) = st" by (simp add: reuse reuseConfigMap_def g)
        then show ?thesis by (simp add: rests_silent resting Inr cm g None)
      next
        case (Some d)
        let ?refs = "if \<not> mounts d (om_Name (cm_Meta cm))
          then om_OwnerReferences (cm_Meta cm) @ [NewControllerRef (mp_Meta p) memcachedProxyType] else om_OwnerReferences (cm_Meta cm)"
        obtain res st1 where u: "update_cm e p (set_refs ?refs cm)
            (\<lambda>err. ErrorString (''failed to update configmaps for '' @ [CHR 0x22] @ proxy_key p @ [CHR 0x22] @ '': '' @ ErrorText err))
            (on_cluster (mutate_cm cm ?refs) st) = (res, st1)" by fastforce
        then have "snd (h key st) = st1" by (simp add: reuse reuseConfigMap_def g Some Let_def)
        moreover have "?refs = om_OwnerReferences (cm_Meta cm) \<longleftrightarrow> mounts d (om_Name (cm_Meta cm))" by simp
        ultimately show ?thesis
          using update_cm_calls [OF u cached] rests_calls [of h key st] by (simp add: resting Inr cm g Some)
      qed
    qed
  qed
qed


lemma sync_one_new_calls:
  assumes "GetConfigMapsForProxy e (ctl_cluster st) p = Inr [cm]"
    and "ix_GetByKey (meta_key (cm_Meta cm)) (cl_configmaps (ctl_cluster st)) = Some cm" and "IsControlledBy (cm_Meta cm) (mp_Meta p)"
    and h: "h key st = sync_one_new e key p cm st"
  shows "(rests h key st \<longleftrightarrow> configmap_resting e (ctl_cluster st) p)
    \<and> (configmap_resting e (ctl_cluster st) p \<longrightarrow> same_caches (ctl_cluster st) (ctl_cluster (snd (h key st))))"
proof (cases "\<exists>rs. getNewRSForProxy e (ctl_cluster st) p = Inr (Some rs)")
  case True
  then obtain rs where rs: "getNewRSForProxy e (ctl_cluster st) p = Inr (Some rs)" by blast
  let ?refs = "handed_over_refs p rs cm"
  obtain res st1 where u: "update_cm e p (set_refs ?refs cm)
      (\<lambda>err. ErrorString (''failed to update configmaps for '' @ Quote key @ '': '' @ ErrorText err))
      (on_cluster (mutate_cm cm ?refs) st) = (res, st1)" by fastforce
  then have "cl_actions (ctl_cluster (snd (h key st))) = cl_actions (ctl_cluster st1)"
    by (cases res) (simp_all add: h sync_one_new_def applyOwnerRefToCM_def rs)
  then have "\<not> rests h key st"
    using update_cm_calls(1,2) [OF u assms(2)] handed_over_changes [OF assms(3), of rs]
    by (subst rests_calls [where as = "[UpdateConfigMap (om_Namespace (cm_Meta cm)) (set_refs ?refs cm)]"])
      (simp_all del: noop.simps)
  then show ?thesis by (simp add: configmap_resting_def assms(1) rs)
next
  case False
  then have "ctl_cluster (snd (h key st)) = ctl_cluster st"
    by (auto simp: h sync_one_new_def applyOwnerRefToCM_def split: sum.split option.split)
  then show ?thesis
    using False by (auto simp: rests_silent configmap_resting_def assms(1) split: sum.split option.split)
qed

lemma configmap_rests:
  assumes "SplitMetaNamespaceKey key = Inr (ns, name)" and "get_proxy (ctl_cluster st) ns name = Inr p"
    and "cluster_inv (ctl_cluster st)" and "settled p" and "permutes_keys (env_range e)"
  shows "rests (configmap_syncHandler e) key st \<longleftrightarrow> configmap_resting e (ctl_cluster st) p"
    and "configmap_resting e (ctl_cluster st) p \<Longrightarrow> same_caches (ctl_cluster st) (ctl_cluster (snd (configmap_syncHandler e key st)))"
proof -
  let ?cl = "ctl_cluster st" and ?h = "configmap_syncHandler e"
  have sync: "?h key st = configmap_sync e key st ns p"
    unfolding configmap_syncHandler_def using assms(4) by (intro with_observed_proxy_current [OF assms(1,2)]) (simp add: settled_def)
  obtain cms where cms: "GetConfigMapsForProxy e ?cl p = Inr cms" using GetConfigMapsForProxy_set [OF assms(3,5)] by metis
  have "(rests ?h key st \<longleftrightarrow> configmap_resting e ?cl p)
    \<and> (configmap_resting e ?cl p \<longrightarrow> same_caches ?cl (ctl_cluster (snd (?h key st))))"
  proof (cases cms rule: remdups_adj.cases)
    case 1
    then show ?thesis
      using cms by (intro sync_no_new_calls [OF assms(3), where p = p and ns = ns]) (simp_all add: sync configmap_sync_def)
  next
    case (2 cm)
    then show ?thesis
      using cms owned_cached [OF assms(3,5) cms, of cm]
      by (intro sync_one_new_calls [where p = p and cm = cm]) (simp_all add: sync configmap_sync_def)
  next
    case (3 c1 c2 cs)
    then have "?h key st = (RetNil, st)" using cms by (simp add: sync configmap_sync_def)
    then show ?thesis using 3 cms by (simp add: rests_silent configmap_resting_def)
  qed
  then show "rests ?h key st \<longleftrightarrow> configmap_resting e ?cl p"
    "configmap_resting e ?cl p \<Longrightarrow> same_caches ?cl (ctl_cluster (snd (?h key st)))" by blast+
qed

lemma resting_stage_iff:
  assumes "cluster_inv cl" and "permutes_keys (env_range e)"
  shows "resting_stage e cl p \<noteq> None \<longleftrightarrow> deployment_resting e cl p \<and> configmap_resting e cl p"
proof -
  obtain cms where cms: "GetConfigMapsForProxy e cl p = Inr cms" using GetConfigMapsForProxy_set [OF assms] by metis
  obtain found dList where g: "GetDeploymentsForProxy e cl p = (found, dList, None)" "found = None \<Longrightarrow> dList = []"
    using deployments_found [of e cl p] by blast
  have few: "found = None \<Longrightarrow> few_deployments e cl p" using g by (simp add: few_deployments_def)
  show ?thesis
  proof (cases cms rule: remdups_adj.cases)
    case 1
    note none = GetConfigMapForProxy_list(1) [OF cms [unfolded 1]]
    show ?thesis
      using few cms none
      by (auto simp: 1 g(1) resting_stage_def stage_without_new_def deployment_resting_def configmap_resting_def
          split: sum.split option.split)
  next
    case (2 cm)
    note one = GetConfigMapForProxy_list(2) [OF cms [unfolded 2]]
    show ?thesis
      using cms one
      by (auto simp: 2 g(1) resting_stage_def stage_with_new_def deployment_resting_def configmap_resting_def
          split: sum.split option.split)
  next
    case (3 c1 c2 cs)
    obtain err where "GetConfigMapForProxy e cl p = Inl err" using GetConfigMapForProxy_list(3) [OF cms [unfolded 3]] by (auto simp: isl_def)
    then show ?thesis by (simp add: resting_stage_def deployment_resting_def configmap_resting_def cms 3)
  qed
qed


text \<open>Whether a key rests depends on the caches only.\<close>

lemma configForProxy_caches:
  assumes "cl_services cl' = cl_services cl" and "cl_endpoints cl' = cl_endpoints cl"
  shows "configForProxy e cl' p = configForProxy e cl p"
proof -
  have "poolForService cl' = poolForService cl" unfolding poolForService_def [abs_def] assms by (rule refl)
  then have "poolsForServices cl' svcs ks acc = poolsForServices cl svcs ks acc" for svcs ks acc
    by (induction ks arbitrary: acc) (auto split: option.split sum.split)
  then have "poolsForServices cl' = poolsForServices cl" by (intro ext)
  then show ?thesis unfolding configForProxy_def by (rule arg_cong)
qed

lemma lookups_caches:
  assumes "same_caches cl cl'"
  shows "GetDeploymentsForProxy e cl' p = GetDeploymentsForProxy e cl p" "GetConfigMapsForProxy e cl' p = GetConfigMapsForProxy e cl p"
    "getNewRSForProxy e cl' p = getNewRSForProxy e cl p" "configForProxy e cl' p = configForProxy e cl p"
    "get_proxy cl' ns name = get_proxy cl ns name" "service_in_place cl' ns p = service_in_place cl ns p"
    "few_deployments e cl' p = few_deployments e cl p" "noop cl' = noop cl"
proof -
  have eqs: "cl_proxies cl' = cl_proxies cl" "cl_services cl' = cl_services cl" "cl_endpoints cl' = cl_endpoints cl"
    "cl_configmaps cl' = cl_configmaps cl" "cl_deployments cl' = cl_deployments cl" "cl_replicasets cl' = cl_replicasets cl"
    using assms by (simp_all add: same_caches_def)
  show d: "GetDeploymentsForProxy e cl' p = GetDeploymentsForProxy e cl p" for p
    unfolding GetDeploymentsForProxy_def eqs by (rule refl)
  show "getNewRSForProxy e cl' p = getNewRSForProxy e cl p" unfolding getNewRSForProxy_def d eqs by (rule refl)
  show "few_deployments e cl' p = few_deployments e cl p" by (simp add: few_deployments_def d)
  show "configForProxy e cl' p = configForProxy e cl p" by (rule configForProxy_caches) (simp_all add: eqs)
  have "noop cl' a = noop cl a" for a by (cases a) (simp_all add: eqs)
  then show "noop cl' = noop cl" by (simp add: fun_eq_iff)
qed (simp_all add: GetConfigMapsForProxy_def get_proxy_def service_in_place_def assms [unfolded same_caches_def])

lemma resting_stage_caches:
  assumes "same_caches cl cl'"
  shows "resting_stage e cl' = resting_stage e cl"
proof (rule ext)
  fix p
  have cm: "cl_configmaps cl' = cl_configmaps cl" using assms by (simp add: same_caches_def)
  have stages: "stage_without_new e cl' = stage_without_new e cl" "stage_with_new e cl' = stage_with_new e cl"
    unfolding stage_without_new_def [abs_def] stage_with_new_def [abs_def] lookups_caches [OF assms] cm by (rule refl)+
  show "resting_stage e cl' p = resting_stage e cl p"
    unfolding resting_stage_def lookups_caches [OF assms] stages by (rule refl)
qed

lemma key_rests_caches:
  assumes "same_caches cl cl'"
  shows "key_rests e cl' key = key_rests e cl key"
  unfolding key_rests_def lookups_caches [OF assms] resting_stage_caches [OF assms] by (rule refl)

lemma handed_over_lookup:
  fixes e :: env
  assumes "cluster_inv cl" and "permutes_keys (env_range e)" and "owned_configmaps cl p = {cm}"
    and "om_Namespace (cm_Meta cm) \<noteq> []"
  shows "lister_Get r (cl_configmaps (mutate_cm cm refs cl)) (om_Namespace (cm_Meta cm)) (om_Name (cm_Meta cm)) = Inr (set_refs refs cm)"
proof -
  have "GetConfigMapsForProxy e cl p = Inr [cm]" by (rule GetConfigMapsForProxy_eq(2) [OF assms(1-3)])
  then have "ix_GetByKey (meta_key (cm_Meta cm)) (cl_configmaps cl) = Some cm" by (rule owned_cached(1) [OF assms(1,2)]) simp
  then show ?thesis
    using assms(4) by (simp add: lister_Get_def mutate_cm_def ix_GetByKey_mutate meta_key_def)
qed

section \<open>The operator at rest\<close>

definition calm :: "env \<Rightarrow> cluster \<Rightarrow> bool" where
  \<comment> \<open>every key rests in whatever order maps are ranged over, with well-formed caches and a server that accepts every call\<close>
  "calm e cl \<longleftrightarrow> cluster_inv cl \<and> (\<forall>as a. \<not> isl (env_api e as a))
     \<and> (\<forall>d \<in> objects (cl_deployments cl). config_volumes_ok d) \<and> (\<forall>e'. drawn e e' \<longrightarrow> (\<forall>key. key_rests e' cl key))"

definition idle_between :: "cluster \<Rightarrow> cluster \<Rightarrow> bool" where
  \<comment> \<open>the caches are the same, and only updates that change nothing were sent\<close>
  "idle_between cl cl' \<longleftrightarrow> same_caches cl cl' \<and> (\<exists>as. cl_actions cl' = cl_actions cl @ as \<and> list_all (noop cl) as)"

lemma idle_between_refl [simp]: "idle_between cl cl"
  by (simp add: idle_between_def)

lemma idle_between_trans [trans]:
  assumes "idle_between cl cl'" and "idle_between cl' cl''"
  shows "idle_between cl cl''"
proof -
  have same: "same_caches cl cl'" and "same_caches cl' cl''" using assms by (simp_all add: idle_between_def)
  then have "same_caches cl cl''" by (simp add: same_caches_def)
  moreover obtain as where "cl_actions cl' = cl_actions cl @ as" "list_all (noop cl) as"
    using assms(1) by (auto simp: idle_between_def)
  moreover obtain bs where "cl_actions cl'' = cl_actions cl' @ bs" "list_all (noop cl) bs"
    using assms(2) lookups_caches(8) [OF same] by (auto simp: idle_between_def)
  ultimately show ?thesis unfolding idle_between_def by (intro conjI exI [of _ "as @ bs"]) simp_all
qed

text \<open>
  Controllers whose syncs leave a calm cluster as it is. Their steps do so in every order, as long as no informer changes
  a cache.
\<close>

locale calm_controllers = controller_set +
  fixes at_peace :: "cluster \<Rightarrow> bool"
  assumes sync_idle: "c \<in> C \<Longrightarrow> drawn e e' \<Longrightarrow> at_peace (ctl_cluster st) \<Longrightarrow>
      idle_between (ctl_cluster st) (ctl_cluster (snd (c_syncHandler c e' key st)))"
    and peace_caches: "at_peace cl \<Longrightarrow> same_caches cl cl' \<Longrightarrow> at_peace cl'"
begin

lemma process_idle:
  assumes "c \<in> C" and "drawn e e'" and "at_peace (ctl_cluster st)" and "process_held (c_syncHandler c e') x st = (crashed, st')"
  shows "idle_between (ctl_cluster st) (ctl_cluster st')"
proof (cases x)
  case (StringItem key)
  obtain res st1 where s: "c_syncHandler c e' key st = (res, st1)" by fastforce
  then have "ctl_cluster st' = ctl_cluster st1"
    using assms(4) StringItem by (cases res) (auto simp: process_held_def processWorkItem_StringItem)
  then show ?thesis using sync_idle [OF assms(1-3), of key] s by simp
next
  case (OtherItem shown)
  then show ?thesis using assms(4) by (auto simp: process_held_def processWorkItem_def)
qed

lemma step_idle:
  assumes "sys_step e C (\<lambda>_. False) s t" and "at_peace (sys_cluster s)"
  shows "idle_between (sys_cluster s) (sys_cluster t)"
  using assms(1)
proof cases
  case (step_event c kind ev e' st)
  then show ?thesis using events [OF step_event(3,5,6)] by (simp add: put_view_def view_def)
next
  case (step_process c i x e' crashed st)
  have "at_peace (ctl_cluster (view (c_name c) s))" using assms(2) by (simp add: view_def)
  from process_idle [OF step_process(3,5) this step_process(6)] show ?thesis
    using step_process(1) by (simp add: put_view_def view_def)
next
  case (step_cancel c)
  then show ?thesis by (simp add: put_view_def view_def cancel_effect)
qed simp_all

lemma steps_idle:
  assumes "(sys_step e C (\<lambda>_. False))\<^sup>*\<^sup>* s t" and "at_peace (sys_cluster s)"
  shows "idle_between (sys_cluster s) (sys_cluster t)"
  using assms
proof (induction rule: rtranclp_induct)
  case (step t u)
  have "at_peace (sys_cluster t)"
    using peace_caches [OF assms(2)] step.IH [OF assms(2)] by (simp add: idle_between_def)
  with step_idle [OF step.hyps(2)] step.IH [OF assms(2)] show ?case by (metis idle_between_trans)
qed simp

end

lemma rests_idle:
  assumes "rests h key st" and "same_caches (ctl_cluster st) (ctl_cluster (snd (h key st)))" and "sync_handler h"
  shows "idle_between (ctl_cluster st) (ctl_cluster (snd (h key st)))"
proof -
  obtain as where "cl_actions (ctl_cluster (snd (h key st))) = cl_actions (ctl_cluster st) @ as"
    using sync_handler.sync_log [OF assms(3), of key st] by blast
  then show ?thesis using assms(1,2) by (auto simp: idle_between_def rests_calls)
qed

lemma silent_without_proxy:
  assumes "\<And>ns name p. SplitMetaNamespaceKey key = Inr (ns, name) \<Longrightarrow> isl (get_proxy (ctl_cluster st) ns name)"
  shows "ctl_cluster (snd (proxy_syncHandler e key st)) = ctl_cluster st"
    "ctl_cluster (snd (with_observed_proxy key st k)) = ctl_cluster st"
  using assms by (auto simp: proxy_syncHandler_def with_observed_proxy_def split: sum.split)

lemma proxy_of_key:
  obtains (none) "\<And>ns name. SplitMetaNamespaceKey key = Inr (ns, name) \<Longrightarrow> isl (get_proxy cl ns name)"
  | (cached) ns name p where "SplitMetaNamespaceKey key = Inr (ns, name)" and "get_proxy cl ns name = Inr p"
proof (cases "SplitMetaNamespaceKey key")
  case (Inr r)
  then show ?thesis using that by (cases r; cases "get_proxy cl (fst r) (snd r)") auto
qed (use that in auto)

lemma calm_rests:
  assumes "calm e0 (ctl_cluster st)" and "drawn e0 e" and "c \<in> operator_controllers f"
  shows "idle_between (ctl_cluster st) (ctl_cluster (snd (c_syncHandler c e key st)))"
proof (cases rule: proxy_of_key [of key "ctl_cluster st"])
  case none
  then have "ctl_cluster (snd (c_syncHandler c e key st)) = ctl_cluster st"
    using assms(3) silent_without_proxy [of key st]
    by (auto simp: operator_controllers_iff service_syncHandler_def configmap_syncHandler_def deployment_syncHandler_def)
  then show ?thesis by simp
next
  case (cached ns name p)
  let ?cl = "ctl_cluster st"
  have inv: "cluster_inv ?cl" "permutes_keys (env_range e)" "\<And>as a. \<not> isl (env_api e as a)"
    "\<forall>d \<in> objects (cl_deployments ?cl). config_volumes_ok d"
    using assms(1,2) by (auto simp: calm_def drawn_def)
  have "key_rests e ?cl key" using assms(1,2) by (simp add: calm_def)
  then have s: "settled p" "service_in_place ?cl ns p" "deployment_resting e ?cl p" "configmap_resting e ?cl p"
    using resting_stage_iff [OF inv(1,2), of p] by (simp_all add: key_rests_def cached)
  have "idle_between ?cl (ctl_cluster (snd (proxy_syncHandler e key st)))"
    using proxy_rests [OF cached inv(1), of e] s(1) by (intro rests_idle proxy_loop.sync_handler_axioms) blast+
  moreover have "idle_between ?cl (ctl_cluster (snd (service_syncHandler e key st)))"
    using service_rests [OF cached inv(1) s(1), of e] s(2) by (intro rests_idle service_loop.sync_handler_axioms) blast+
  moreover have "idle_between ?cl (ctl_cluster (snd (configmap_syncHandler e key st)))"
    using configmap_rests [OF cached inv(1) s(1) inv(2)] s(4) by (intro rests_idle configmap_loop.sync_handler_axioms) blast+
  moreover have "idle_between ?cl (ctl_cluster (snd (deployment_syncHandler e key st)))"
    using deployment_rests [OF cached inv(1) s(1) inv(2,4,3)] s(3) by (intro rests_idle deployment_loop.sync_handler_axioms) blast+
  ultimately show ?thesis using assms(3) by (auto simp: operator_controllers_iff)
qed

interpretation calm_operator: calm_controllers "operator_controllers f" e "calm e" for f e
proof (intro calm_controllers.intro calm_controllers_axioms.intro operator.controller_set_axioms calm_rests)
  fix cl cl'
  assume "calm e cl" and same: "same_caches cl cl'"
  then show "calm e cl'"
    using key_rests_caches [OF same] cluster_inv_same_caches [OF same] by (simp add: calm_def same_caches_def)
qed


section \<open>Properties\<close>

text \<open>
  C2. When the operator rests. For a proxy in the cache, and on a server that accepts every call, the syncs of all four
  controllers send nothing that changes anything if and only if the proxy is settled, its service is cached with the right
  selector, and the caches are at one of five stages. \<open>UpToDate\<close>: the proxy controls no config map, the config map named after
  its current configuration exists and the newest deployment mounts it. \<open>RollingOut\<close>: it controls one config map, all
  \<open>config\<close> volumes of the newest deployment refer to it, and no replica set with that deployment's template is
  cached. \<open>Crowded\<close>: it controls several config maps. \<open>Stuck\<close>: the current config map exists, but no deployment does.
  \<open>Unrenderable\<close>: its configuration cannot be rendered. At \<open>UpToDate\<close>, \<open>RollingOut\<close> and \<open>Unrenderable\<close> there is at most one deployment
  besides the newest.
\<close>

theorem operator_at_rest_iff:
  assumes "SplitMetaNamespaceKey key = Inr (ns, name)" and "get_proxy (sys_cluster s) ns name = Inr p"
    and "cluster_inv (sys_cluster s)" and "permutes_keys (env_range e)"
    and "\<forall>d \<in> objects (cl_deployments (sys_cluster s)). config_volumes_ok d" and "\<And>as a. \<not> isl (env_api e as a)"
  shows "at_rest e (operator_controllers f) key s
    \<longleftrightarrow> settled p \<and> service_in_place (sys_cluster s) ns p \<and> resting_stage e (sys_cluster s) p \<noteq> None"
proof -
  have view: "ctl_cluster (view n s) = sys_cluster s" for n by (simp add: view_def)
  have get: "get_proxy (ctl_cluster (view n s)) ns name = Inr p" "cluster_inv (ctl_cluster (view n s))"
    "\<forall>d \<in> objects (cl_deployments (ctl_cluster (view n s))). config_volumes_ok d" for n
    using assms(2,3,5) by (simp_all add: view)
  have controllers: "operator_controllers f = {proxy_New ''memcached-proxy'' (fl_serviceWorkers f),
      service_New ''memcached-proxy-service'' (fl_serviceWorkers f), configmap_New ''memcached-proxy-configmap'' (fl_namespace f) (fl_configMapWorkers f),
      deployment_New ''memcached-proxy-deployment'' (fl_configMapWorkers f)}"
    by (auto simp: operator_controllers_iff)
  have "at_rest e (operator_controllers f) key s \<longleftrightarrow> rests (proxy_syncHandler e) key (view ''memcached-proxy'' s)
      \<and> rests (service_syncHandler e) key (view ''memcached-proxy-service'' s)
      \<and> rests (configmap_syncHandler e) key (view ''memcached-proxy-configmap'' s)
      \<and> rests (deployment_syncHandler e) key (view ''memcached-proxy-deployment'' s)"
    unfolding at_rest_def controllers by (simp add: conj_ac)
  also have "\<dots> \<longleftrightarrow> settled p \<and> service_in_place (sys_cluster s) ns p \<and> resting_stage e (sys_cluster s) p \<noteq> None"
    using proxy_rests(1) [OF assms(1) get(1,2)] service_rests(1) [OF assms(1) get(1,2)]
      configmap_rests(1) [OF assms(1) get(1,2) _ assms(4)] deployment_rests(1) [OF assms(1) get(1,2) _ assms(4) get(3) assms(6)]
      resting_stage_iff [OF assms(3,4), of p]
    by (auto simp: view)
  finally show ?thesis .
qed

text \<open>
  C3. Rest is stable. On a server that accepts every call, once every key rests, in whatever order maps are ranged over, every interleaving of
  the operator's steps without news from the informers leaves all caches as they are and sends only updates that write what
  is cached already. Each step draws its own orders; events handled once more, retries and shutdown are among the steps.
\<close>

theorem operator_stays_at_rest:
  assumes "(sys_step e (operator_controllers f) (\<lambda>_. False))\<^sup>*\<^sup>* s t"
    and "cluster_inv (sys_cluster s)"
    and "\<forall>d \<in> objects (cl_deployments (sys_cluster s)). config_volumes_ok d" and "\<And>as a. \<not> isl (env_api e as a)"
    and "\<And>e' key. drawn e e' \<Longrightarrow> key_rests e' (sys_cluster s) key"
  shows "same_caches (sys_cluster s) (sys_cluster t)
    \<and> (\<exists>as. cl_actions (sys_cluster t) = cl_actions (sys_cluster s) @ as \<and> list_all (noop (sys_cluster s)) as)"
proof -
  have "calm e (sys_cluster s)" using assms(2-5) by (simp add: calm_def)
  from calm_operator.steps_idle [OF assms(1) this] show ?thesis by (simp add: idle_between_def)
qed

text \<open>
  C27. At the stage \<open>Stuck\<close> the two controllers wait for each other. When the deployment of a proxy is gone but the config map with its
  current configuration still exists, the deployment controller finds no config map it could mount and the config
  map controller finds no deployment that could mount it. Both syncs fail, change nothing and are retried forever.
\<close>

theorem proxy_stuck:
  assumes "SplitMetaNamespaceKey key = Inr (ns, name)" and "get_proxy (ctl_cluster st) ns name = Inr p"
    and "om_Generation (mp_Meta p) = st_ObservedGeneration (mp_Status p)"
    and "cluster_inv (ctl_cluster st)" and "permutes_keys (env_range e)"
    and "owned_deployments (ctl_cluster st) p = {}" and "owned_configmaps (ctl_cluster st) p = {}"
    and "configForProxy e (ctl_cluster st) p = Inr config"
    and "lister_Get ''configmap'' (cl_configmaps (ctl_cluster st)) (om_Namespace (mp_Meta p))
      (MakeName (om_Name (mp_Meta p) @ ''-config-'') [om_Name (mp_Meta p), config_json config]) = Inr cm"
  shows "deployment_syncHandler e key st = (RetErr (ErrorString (''no configmap for '' @ Quote (proxy_key p))), st)
    \<and> configmap_syncHandler e key st
      = (RetErr (ErrorString (''No deployment found for '' @ [CHR 0x22] @ proxy_key p @ [CHR 0x22])), st)"
proof -
  note none = GetDeploymentsForProxy_none [OF assms(4-6)] GetConfigMapsForProxy_eq(1) [OF assms(4,5,7)]
  show ?thesis
    unfolding deployment_syncHandler_def configmap_syncHandler_def with_observed_proxy_current [OF assms(1-3)]
    using none assms(8,9)
    by (simp add: deployment_sync_eq ensure_deployment_def createDeployment_def deploymentForProxy_def GetConfigMapForProxy_list
        configmap_sync_def sync_no_new_def configMapForProxy_def rendered_configmap_def reuseConfigMap_def)
qed

text \<open>
  C26. The sync that ends a rollout brings the proxy to rest. When the proxy still owns the config map with its current
  configuration, its only deployment mounts that config map and the replica set of the deployment is there, one sync
  of the config map controller hands the config map over and leaves the caches at the stage \<open>UpToDate\<close>.
\<close>

theorem handover_comes_to_rest:
  assumes "SplitMetaNamespaceKey key = Inr (ns, name)" and "get_proxy (ctl_cluster st) ns name = Inr p"
    and "cluster_inv (ctl_cluster st)" and "permutes_keys (env_range e)" and "settled p" and "om_Namespace (mp_Meta p) \<noteq> []"
    and "owned_configmaps (ctl_cluster st) p = {cm}" and "configForProxy e (ctl_cluster st) p = Inr config"
    and "om_Name (cm_Meta cm) = om_Name (cm_Meta (rendered_configmap p (config_json config)))"
    and "GetDeploymentsForProxy e (ctl_cluster st) p = (Some d, [], None)" and "mounts d (om_Name (cm_Meta cm))"
    and "getNewRSForProxy e (ctl_cluster st) p = Inr (Some rs)" and "om_UID (rs_Meta rs) \<noteq> om_UID (mp_Meta p)"
  shows "resting_stage e (ctl_cluster (snd (configmap_syncHandler e key st))) p = Some UpToDate"
proof -
  let ?cl = "ctl_cluster st" and ?refs = "handed_over_refs p rs cm"
  obtain res st1 where u: "update_cm e p (set_refs ?refs cm)
      (\<lambda>err. ErrorString (''failed to update configmaps for '' @ Quote key @ '': '' @ ErrorText err))
      (on_cluster (mutate_cm cm ?refs) st) = (res, st1)" by fastforce
  have "configmap_syncHandler e key st = sync_one_new e key p cm st"
    unfolding configmap_syncHandler_def
    using assms(5) with_observed_proxy_current [OF assms(1,2)] GetConfigMapsForProxy_eq(2) [OF assms(3,4,7)]
    by (simp add: configmap_sync_def settled_def)
  then have "ctl_cluster (snd (configmap_syncHandler e key st)) = ctl_cluster st1"
    using u by (cases res) (simp_all add: sync_one_new_def applyOwnerRefToCM_def assms(12))
  moreover have same: "same_caches (mutate_cm cm ?refs ?cl) (ctl_cluster st1)"
    using u by (auto simp: update_cm_eq recordConfigMapEvent_def same_caches_def Let_def)
  moreover have "resting_stage e (mutate_cm cm ?refs ?cl) p = Some UpToDate"
  proof -
    let ?cl' = "mutate_cm cm ?refs ?cl"
    have ns: "om_Namespace (cm_Meta cm) = om_Namespace (mp_Meta p)" using assms(6,7) by (auto simp: owned_configmaps_def)
    have "owned_configmaps ?cl' p = {}" by (rule owned_after_mutate [OF assms(3,7) handed_over(2) [OF assms(13)]])
    then have "GetConfigMapsForProxy e ?cl' p = Inr []" by (rule GetConfigMapsForProxy_eq(1) [OF cluster_inv_mutate_cm [OF assms(3)] assms(4)])
    moreover have "configForProxy e ?cl' p = Inr config"
      using assms(8) configForProxy_caches [of ?cl' ?cl] by (simp add: mutate_cm_def)
    moreover have "GetDeploymentsForProxy e ?cl' p = (Some d, [], None)"
      using assms(10) by (simp add: GetDeploymentsForProxy_def mutate_cm_def)
    moreover have "lister_Get ''configmap'' (cl_configmaps ?cl') (om_Namespace (mp_Meta p)) (om_Name (cm_Meta cm)) = Inr (set_refs ?refs cm)"
      using handed_over_lookup [OF assms(3,4,7), of "''configmap''" ?refs] assms(6) ns by simp
    ultimately show ?thesis
      using assms(11) by (simp add: resting_stage_def stage_without_new_def few_deployments_def assms(9) [symmetric])
  qed
  ultimately show ?thesis using resting_stage_caches [OF same] by simp
qed

section \<open>Examples\<close>

lemma ready_service: "svc_Meta (desired_service ns n p port) = zero_meta\<lparr>om_Name := n, om_Namespace := ns, om_OwnerReferences := [NewProxyOwnerRef p]\<rparr>"
  by (simp add: desired_service_def)

lemma sharded_meta: "om_Name (mp_Meta sharded_proxy) = ''sharded-example''" "om_Namespace (mp_Meta sharded_proxy) = ''default''"
  "meta_key (mp_Meta sharded_proxy) = ''default/sharded-example''"
  by (simp_all add: sharded_proxy_def meta_key_def)

lemma accepting: "\<not> isl (env_api accepting_env as a)"
  by (simp add: accepting_env_def)

lemma service_keys: "''default/'' @ GetProxyServiceName sharded_proxy \<noteq> ''default/sharded-memcached''"
  by (simp add: GetProxyServiceName_def MakeName_def sharded_meta)

lemma settled_sharded: "settled sharded_proxy"
  by (simp add: settled_def sharded_proxy_def ApplyDefaults_idem)

lemma ready_services:
  "lister_Get r (cl_services ready_cluster) ''default'' ''sharded-memcached'' = lister_Get r (cl_services serving_cluster) ''default'' ''sharded-memcached''"
  "lister_Get r (cl_services ready_cluster) ''default'' (GetProxyServiceName sharded_proxy)
    = Inr (desired_service ''default'' (GetProxyServiceName sharded_proxy) sharded_proxy 11211)"
  using service_keys by (simp_all add: lister_Get_def ix_GetByKey_def ready_cluster_def ready_service meta_key_def)

lemma calm_config:
  obtains config where "\<And>cfg. configForProxy accepting_env (calm_cluster cfg) sharded_proxy = Inr config"
proof -
  have ref: "ss_Namespace memcached_ref = ''default''" "ss_Name memcached_ref = ''sharded-memcached''"
    by (simp_all add: memcached_ref_def)
  have endpoints: "cl_endpoints ready_cluster = cl_endpoints serving_cluster" by (simp add: ready_cluster_def)
  have "poolForService ready_cluster memcached_ref = poolForService serving_cluster memcached_ref"
    unfolding poolForService_def ref ready_services(1) endpoints by (rule refl)
  then have "renderable ready_cluster sharded_proxy"
    using renderable_example(1) by (simp add: renderable_def sharded_proxy_services)
  then obtain config where "configForProxy accepting_env ready_cluster sharded_proxy = Inr config"
    using configForProxy_renderable [OF permutes_keys_accepting(1)] by metis
  moreover have "configForProxy accepting_env (calm_cluster cfg) sharded_proxy = configForProxy accepting_env ready_cluster sharded_proxy" for cfg
    by (rule configForProxy_caches) (simp_all add: calm_cluster_def)
  ultimately show ?thesis using that by simp
qed


lemma calm_lookups:
  "owned_configmaps (calm_cluster cfg) sharded_proxy = {}" "owned_deployments (calm_cluster cfg) sharded_proxy = {running_deployment cfg}"
  "lister_Get r (cl_configmaps (calm_cluster cfg)) ''default'' (om_Name (cm_Meta (rendered_configmap sharded_proxy cfg))) = Inr (handed_configmap cfg)"
  "cluster_inv (calm_cluster cfg)" "objects (cl_deployments (calm_cluster cfg)) = {running_deployment cfg}"
proof -
  have "objects (cl_configmaps (calm_cluster cfg)) = {handed_configmap cfg}"
    by (simp add: calm_cluster_def objects_def new_indexer_def)
  moreover have "\<not> IsControlledBy (cm_Meta (handed_configmap cfg)) (mp_Meta sharded_proxy)"
    using IsControlledBy_IsOwnedBy by (force simp: handed_configmap_def IsOwnedBy_def)
  ultimately show "owned_configmaps (calm_cluster cfg) sharded_proxy = {}" by (auto simp: owned_configmaps_def)
  show d: "objects (cl_deployments (calm_cluster cfg)) = {running_deployment cfg}"
    by (simp add: calm_cluster_def objects_def new_indexer_def)
  have "IsControlledBy (d_Meta (running_deployment cfg)) (mp_Meta sharded_proxy)"
    unfolding running_deployment_def by (rule desired_deployment_shape)
  moreover have "om_Namespace (d_Meta (running_deployment cfg)) = ''default''"
    by (simp add: running_deployment_def desired_deployment_def sharded_meta)
  ultimately show "owned_deployments (calm_cluster cfg) sharded_proxy = {running_deployment cfg}"
    by (auto simp: owned_deployments_def d sharded_meta)
  show "lister_Get r (cl_configmaps (calm_cluster cfg)) ''default'' (om_Name (cm_Meta (rendered_configmap sharded_proxy cfg))) = Inr (handed_configmap cfg)"
    by (simp add: calm_cluster_def lister_Get_single handed_configmap_def meta_key_def rendered_configmap_def set_refs_def sharded_meta)
  show "cluster_inv (calm_cluster cfg)"
    using cluster_inv_serving by (simp add: cluster_inv_def calm_cluster_def ready_cluster_def ix_Add_inv ix_inv_empty)
qed

lemma calm_proxy:
  "get_proxy (calm_cluster cfg) ns name = Inr p \<longleftrightarrow> ns @ ''/'' @ name = ''default/sharded-example'' \<and> p = sharded_proxy"
  by (auto simp: get_proxy_iff calm_cluster_def ready_cluster_def serving_cluster_def new_indexer_def sharded_meta)

lemma calm_example:
  obtains cfg where "\<And>e. drawn accepting_env e \<Longrightarrow> resting_stage e (calm_cluster cfg) sharded_proxy = Some UpToDate"
    and "\<And>e key. drawn accepting_env e \<Longrightarrow> key_rests e (calm_cluster cfg) key"
    and "service_in_place (calm_cluster cfg) ''default'' sharded_proxy"
    and "\<forall>d \<in> objects (cl_deployments (calm_cluster cfg)). config_volumes_ok d"
proof -
  obtain config where config: "\<And>cfg. configForProxy accepting_env (calm_cluster cfg) sharded_proxy = Inr config"
    using calm_config by blast
  let ?cl = "calm_cluster (config_json config)" and ?d = "running_deployment (config_json config)"
  note lookups = calm_lookups [where cfg = "config_json config"]
  have stage: "resting_stage e ?cl sharded_proxy = Some UpToDate" if "drawn accepting_env e" for e
  proof -
    have e: "permutes_keys (env_range e)" using that by (auto simp: drawn_def)
    obtain c where c: "configForProxy e ?cl sharded_proxy = Inr c" "config_json c = config_json config"
      by (rule config_text [OF permutes_keys_accepting(1) e config])
    have "GetDeploymentsForProxy e ?cl sharded_proxy = (Some ?d, [], None)"
      by (rule GetDeploymentsForProxy_one [OF lookups(4) e lookups(2)])
    moreover have "GetConfigMapsForProxy e ?cl sharded_proxy = Inr []"
      by (rule GetConfigMapsForProxy_eq(1) [OF lookups(4) e lookups(1)])
    moreover have "mounts ?d (om_Name (cm_Meta (handed_configmap (config_json config))))"
      by (simp add: running_deployment_def mounts_def desired_deployment_def)
    ultimately show ?thesis
      by (simp add: resting_stage_def stage_without_new_def c sharded_meta lookups(3) few_deployments_def)
  qed
  have service: "service_in_place ?cl ''default'' sharded_proxy"
    using ready_services(2) by (simp add: service_in_place_def calm_cluster_def map_equal_iff desired_service_def)
  have "key_rests e ?cl key" if "drawn accepting_env e" for e key
  proof (cases rule: proxy_of_key [of key ?cl])
    case none
    then show ?thesis by (auto simp: key_rests_def split: sum.split)
  next
    case (cached ns name p)
    then have "ns @ ''/'' @ name = ''default'' @ ''/'' @ ''sharded-example''" "p = sharded_proxy" by (simp_all add: calm_proxy)
    moreover have "SplitMetaNamespaceKey (ns @ ''/'' @ name) = Inr (ns, name)"
      using SplitMetaNamespaceKey_parts [OF cached(1)] by (intro SplitMetaNamespaceKey_pair) simp_all
    ultimately have "ns = ''default''"
      using SplitMetaNamespaceKey_pair [of "''default''" "''sharded-example''"] by simp
    then show ?thesis using cached \<open>p = sharded_proxy\<close> service settled_sharded stage [OF that] by (simp add: key_rests_def)
  qed
  moreover have "\<forall>d \<in> objects (cl_deployments ?cl). config_volumes_ok d"
    unfolding lookups(5) running_deployment_def by (simp add: desired_deployment_shape)
  ultimately show ?thesis using that stage service by blast
qed

theorem operator_at_rest_iff_witness:
  "\<exists>cfg. at_rest accepting_env (operator_controllers default_flags) ''default/sharded-example'' ((boot_system (\<lambda>_ _. 0))\<lparr>sys_cluster := calm_cluster cfg\<rparr>)"
proof -
  obtain cfg where stage: "\<And>e. drawn accepting_env e \<Longrightarrow> resting_stage e (calm_cluster cfg) sharded_proxy = Some UpToDate"
    "service_in_place (calm_cluster cfg) ''default'' sharded_proxy"
    "\<forall>d \<in> objects (cl_deployments (calm_cluster cfg)). config_volumes_ok d"
    using calm_example by metis
  let ?s = "(boot_system (\<lambda>_ _. 0))\<lparr>sys_cluster := calm_cluster cfg\<rparr>"
  have get: "get_proxy (sys_cluster ?s) ''default'' ''sharded-example'' = Inr sharded_proxy" by (simp add: calm_proxy)
  have "cluster_inv (sys_cluster ?s)" "\<forall>d \<in> objects (cl_deployments (sys_cluster ?s)). config_volumes_ok d"
    using calm_lookups(4) stage(3) by simp_all
  from operator_at_rest_iff [OF sharded_start(1) get this(1) permutes_keys_accepting(1) this(2) accepting, of default_flags]
  have "at_rest accepting_env (operator_controllers default_flags) ''default/sharded-example'' ?s"
    using stage(1) [OF drawn_refl] stage(2) settled_sharded by simp
  then show ?thesis by blast
qed

theorem operator_stays_at_rest_witness:
  "\<exists>cfg t. sys_step accepting_env (operator_controllers default_flags) (\<lambda>_. False) ((boot_system (\<lambda>_ _. 0))\<lparr>sys_cluster := calm_cluster cfg\<rparr>) t
    \<and> same_caches (calm_cluster cfg) (sys_cluster t)"
proof -
  obtain cfg where calm: "\<And>e key. drawn accepting_env e \<Longrightarrow> key_rests e (calm_cluster cfg) key"
    "\<forall>d \<in> objects (cl_deployments (calm_cluster cfg)). config_volumes_ok d"
    using calm_example by metis
  let ?s = "(boot_system (\<lambda>_ _. 0))\<lparr>sys_cluster := calm_cluster cfg\<rparr>" and ?c = "proxy_New ''memcached-proxy'' (fl_serviceWorkers default_flags)"
  let ?step = "sys_step accepting_env (operator_controllers default_flags) (\<lambda>_. False)"
    and ?t = "put_view (c_name ?c) (snd (c_Run ?c (c_workers ?c)) (view (c_name ?c) ?s)) ?s"
  have step: "?step ?s ?t" by (rule step_cancel) (simp_all add: operator_controllers_iff boot_system_def)
  then have "?step\<^sup>*\<^sup>* ?s ?t" by (rule r_into_rtranclp [of ?step])
  from operator_stays_at_rest [OF this _ _ accepting] calm calm_lookups(4)
  have "same_caches (calm_cluster cfg) (sys_cluster ?t)" by simp
  with step show ?thesis by blast
qed

theorem proxy_stuck_witness:
  "\<exists>cfg. fst (configmap_syncHandler accepting_env ''default/sharded-example''
        (start ((calm_cluster cfg)\<lparr>cl_deployments := new_indexer\<rparr>))) = RetErr (ErrorString ''No deployment found for \"default/sharded-example\"'')"
proof -
  obtain config where config: "\<And>cfg. configForProxy accepting_env (calm_cluster cfg) sharded_proxy = Inr config"
    using calm_config by blast
  let ?cl = "(calm_cluster (config_json config))\<lparr>cl_deployments := new_indexer\<rparr>"
  note lookups = calm_lookups [where cfg = "config_json config"]
  have "get_proxy (ctl_cluster (start ?cl)) ''default'' ''sharded-example'' = Inr sharded_proxy"
    using calm_proxy [of "config_json config" "''default''" "''sharded-example''" sharded_proxy] by (simp add: get_proxy_def)
  moreover have "cluster_inv (ctl_cluster (start ?cl))" using lookups(4) by (simp add: cluster_inv_def ix_inv_empty)
  moreover have "owned_deployments (ctl_cluster (start ?cl)) sharded_proxy = {}" "owned_configmaps (ctl_cluster (start ?cl)) sharded_proxy = {}"
    using lookups(1) by (simp_all add: owned_deployments_def owned_configmaps_def objects_def new_indexer_def)
  moreover have "configForProxy accepting_env (ctl_cluster (start ?cl)) sharded_proxy = Inr config"
    using config [of "config_json config"] configForProxy_caches [of ?cl "calm_cluster (config_json config)"] by simp
  ultimately have "configmap_syncHandler accepting_env ''default/sharded-example'' (start ?cl)
      = (RetErr (ErrorString (''No deployment found for '' @ [CHR 0x22] @ proxy_key sharded_proxy @ [CHR 0x22])), start ?cl)"
    using proxy_stuck [OF sharded_start(1) _ sharded_start(3) _ permutes_keys_accepting(1), of "start ?cl" config "handed_configmap (config_json config)"]
      lookups(3) by (simp add: sharded_meta rendered_configmap_def)
  then show ?thesis by (intro exI [of _ "config_json config"]) (simp add: proxy_key_def sharded_meta)
qed

lemma rolled_out_replicaset:
  "getNewRSForProxy accepting_env (rolled_out_cluster cfg) sharded_proxy = Inr (Some (rolled_replicaset cfg))"
proof -
  let ?cl = "rolled_out_cluster cfg" and ?d = "running_deployment cfg" and ?rs = "rolled_replicaset cfg"
  have inv: "cluster_inv ?cl"
    using calm_lookups(4) [of cfg] by (simp add: cluster_inv_def rolled_out_cluster_def ix_Add_inv ix_inv_empty)
  have "owned_deployments ?cl sharded_proxy = {?d}"
    using calm_lookups(2) by (simp add: owned_deployments_def rolled_out_cluster_def)
  then have dep: "GetDeploymentsForProxy accepting_env ?cl sharded_proxy = (Some ?d, [], None)"
    by (rule GetDeploymentsForProxy_one [OF inv permutes_keys_accepting(1)])
  have sel: "d_Selector ?d = Some \<lparr>ls_MatchLabels = GetProxyServiceSelector sharded_proxy, ls_MatchExpressions = []\<rparr>"
    by (simp add: running_deployment_def desired_deployment_def)
  have valid: "\<forall>(k, v) \<in> set (GetProxyServiceSelector sharded_proxy). env_validLabelKey accepting_env k \<and> env_validLabelValue accepting_env v"
    by (simp add: accepting_env_def)
  have own: "objects (cl_replicasets ?cl) = {?rs}" "om_Namespace (rs_Meta ?rs) = ''default''"
    "om_Labels (rs_Meta ?rs) = GetProxyServiceSelector sharded_proxy" "EqualIgnoreHash (rs_Template ?rs) (d_Template ?d)"
    by (simp_all add: rolled_out_cluster_def objects_def new_indexer_def rolled_replicaset_def EqualIgnoreHash_iff set_hash_def drop_labels_def)
  have "{rs \<in> objects (cl_replicasets ?cl). (om_Namespace (mp_Meta sharded_proxy) = [] \<or> om_Namespace (rs_Meta rs) = om_Namespace (mp_Meta sharded_proxy))
      \<and> Matches (Requirements (map (\<lambda>(k, v). ReqIn k [v]) (GetProxyServiceSelector sharded_proxy))) (om_Labels (rs_Meta rs))} = {?rs}"
    using own Matches_own_labels [OF distinct_keys_selector [of sharded_proxy]] unfolding own(1) by (auto simp: sharded_meta)
  then obtain xs where "getNewRSForProxy accepting_env ?cl sharded_proxy
      = Inr (List.find (\<lambda>rs. EqualIgnoreHash (rs_Template rs) (d_Template ?d)) xs)" "set xs = {?rs}"
    using getNewRSForProxy_own_selector [OF dep sel valid inv permutes_keys_accepting(1)] by metis
  moreover have "List.find P xs = Some ?rs" if "P ?rs" "set xs = {?rs}" for P xs
    using that by (cases xs) auto
  ultimately show ?thesis using own(4) by simp
qed

theorem handover_comes_to_rest_witness:
  "\<exists>cfg. resting_stage accepting_env (ctl_cluster (snd (configmap_syncHandler accepting_env ''default/sharded-example''
      (start (rolled_out_cluster cfg))))) sharded_proxy = Some UpToDate"
proof -
  obtain config where config: "\<And>cfg. configForProxy accepting_env (calm_cluster cfg) sharded_proxy = Inr config"
    using calm_config by blast
  let ?cfg = "config_json config" and ?cm = "rendered_configmap sharded_proxy (config_json config)"
  let ?cl = "rolled_out_cluster ?cfg" and ?d = "running_deployment ?cfg"
  have inv: "cluster_inv ?cl"
    using calm_lookups(4) [of ?cfg] by (simp add: cluster_inv_def rolled_out_cluster_def ix_Add_inv ix_inv_empty)
  have get: "get_proxy ?cl ''default'' ''sharded-example'' = Inr sharded_proxy"
    using calm_proxy [of ?cfg "''default''" "''sharded-example''" sharded_proxy] by (simp add: get_proxy_def rolled_out_cluster_def)
  have ns: "om_Namespace (mp_Meta sharded_proxy) \<noteq> []" by (simp add: sharded_meta)
  have owned: "owned_configmaps ?cl sharded_proxy = {?cm}"
    by (auto simp: owned_configmaps_def rolled_out_cluster_def objects_def new_indexer_def rendered_configmap_def sharded_meta IsControlledBy_NewProxyOwnerRef)
  have rendered: "configForProxy accepting_env ?cl sharded_proxy = Inr config"
    using config [of ?cfg] configForProxy_caches [of ?cl "calm_cluster ?cfg"] by (simp add: rolled_out_cluster_def)
  have "owned_deployments ?cl sharded_proxy = {?d}"
    using calm_lookups(2) by (simp add: owned_deployments_def rolled_out_cluster_def)
  then have dep: "GetDeploymentsForProxy accepting_env ?cl sharded_proxy = (Some ?d, [], None)"
    by (rule GetDeploymentsForProxy_one [OF inv permutes_keys_accepting(1)])
  have mounted: "mounts ?d (om_Name (cm_Meta ?cm))"
    by (simp add: running_deployment_def mounts_def desired_deployment_def handed_configmap_def)
  have uid: "om_UID (rs_Meta (rolled_replicaset ?cfg)) \<noteq> om_UID (mp_Meta sharded_proxy)"
    by (simp add: rolled_replicaset_def sharded_proxy_def)
  show ?thesis
    using handover_comes_to_rest [OF sharded_start(1), of "start ?cl", simplified,
        OF get inv permutes_keys_accepting(1) settled_sharded ns owned rendered refl dep mounted rolled_out_replicaset uid] by blast
qed

end
