(* ===== verification/ProxyHeap.thy ===== *)
theory ProxyHeap
  imports ApiTypes
begin

text \<open>
  Pointers. The objects a lister returns are the cached objects themselves, and \<open>ApplyDefaults\<close> writes through
  the pointers inside a \<open>MemcachedProxy\<close>. This theory keeps the pointers: a store holds what they point to,
  \<open>h_DeepCopy\<close> (zz\_generated.deepcopy.go) and \<open>h_ApplyDefaults\<close> (types.go) run on it, and \<open>read_proxy\<close> gives
  the plain value a proxy stands for in a store.

  Two results justify the value model of \<open>ApiTypes\<close>: the two methods refine their value versions, including
  the loss of the assignments that \<open>RuleSpec.ApplyDefaults\<close> makes to the loop variable; and the proxy controller's
  sequence of copying, then defaulting the copy leaves every proxy that was in the store unchanged.

  The elements of a \<open>Children\<close> slice are never assigned to after they have been built, so a slice is kept
  as a value; the pointers of type \<open>*ServiceSpec\<close>, \<open>*int32\<close> and \<open>*SecurityContext\<close> are addresses.
\<close>

section \<open>The store\<close>

record store =
  h_next :: nat
  h_services :: "nat \<Rightarrow> ServiceSpec option"
  h_ints :: "nat \<Rightarrow> 32 word option"
  h_contexts :: "nat \<Rightarrow> SecurityContext option"

datatype hrule = HRule (hr_Type: string) (hr_Service: "nat option") (hr_Children: "hrule list option")

record hmcrouter =
  hm_Image :: string
  hm_Resources :: string
  hm_Port :: "nat option"
  hm_SecurityContext :: "nat option"
  hm_StatsRoot :: string

record hproxy =
  hp_APIVersion :: string
  hp_Kind :: string
  hp_Meta :: ObjectMeta
  hp_Rules :: hrule
  hp_McRouter :: hmcrouter
  hp_Status :: MemcachedProxyStatus

record hproxylist =
  hl_APIVersion :: string
  hl_Kind :: string
  hl_ListMeta :: string
  hl_Items :: "hproxy slice"

definition new_service :: "ServiceSpec \<Rightarrow> store \<Rightarrow> nat \<times> store" where
  "new_service s \<sigma> = (h_next \<sigma>, \<sigma>\<lparr>h_next := Suc (h_next \<sigma>), h_services := (h_services \<sigma>)(h_next \<sigma> \<mapsto> s)\<rparr>)"

definition new_int :: "32 word \<Rightarrow> store \<Rightarrow> nat \<times> store" where
  "new_int i \<sigma> = (h_next \<sigma>, \<sigma>\<lparr>h_next := Suc (h_next \<sigma>), h_ints := (h_ints \<sigma>)(h_next \<sigma> \<mapsto> i)\<rparr>)"

definition new_context :: "SecurityContext \<Rightarrow> store \<Rightarrow> nat \<times> store" where
  "new_context c \<sigma> = (h_next \<sigma>, \<sigma>\<lparr>h_next := Suc (h_next \<sigma>), h_contexts := (h_contexts \<sigma>)(h_next \<sigma> \<mapsto> c)\<rparr>)"

section \<open>Deep copies\<close>

definition copy_pointer ::
  "(store \<Rightarrow> nat \<Rightarrow> 'a option) \<Rightarrow> ('a \<Rightarrow> store \<Rightarrow> nat \<times> store) \<Rightarrow> nat option \<Rightarrow> store \<Rightarrow> nat option \<times> store"
where
  \<comment> \<open>nil stays nil, otherwise a new variable gets the value pointed to\<close>
  "copy_pointer get new ptr \<sigma> =
     (case ptr of
        None \<Rightarrow> (None, \<sigma>)
      | Some a \<Rightarrow>
          (case get \<sigma> a of
             None \<Rightarrow> (None, \<sigma>)
           | Some v \<Rightarrow> (let (b, \<sigma>1) = new v \<sigma> in (Some b, \<sigma>1))))"

fun h_RuleSpec_DeepCopyInto :: "hrule \<Rightarrow> store \<Rightarrow> hrule \<times> store"
  and h_copy_rules :: "hrule list \<Rightarrow> store \<Rightarrow> hrule list \<times> store"
where
  "h_RuleSpec_DeepCopyInto (HRule t s cs) \<sigma> =
     (let (s', \<sigma>1) = copy_pointer h_services new_service s \<sigma> in
      case cs of
        None \<Rightarrow> (HRule t s' None, \<sigma>1)
      | Some rs \<Rightarrow> (let (rs', \<sigma>2) = h_copy_rules rs \<sigma>1 in (HRule t s' (Some rs'), \<sigma>2)))"
| "h_copy_rules [] \<sigma> = ([], \<sigma>)"
| "h_copy_rules (r # rs) \<sigma> =
     (let (r', \<sigma>1) = h_RuleSpec_DeepCopyInto r \<sigma>; (rs', \<sigma>2) = h_copy_rules rs \<sigma>1 in (r' # rs', \<sigma>2))"

definition h_McRouterSpec_DeepCopyInto :: "hmcrouter \<Rightarrow> store \<Rightarrow> hmcrouter \<times> store" where
  "h_McRouterSpec_DeepCopyInto s \<sigma> =
     (let (port, \<sigma>1) = copy_pointer h_ints new_int (hm_Port s) \<sigma>;
          (ctx, \<sigma>2) = copy_pointer h_contexts new_context (hm_SecurityContext s) \<sigma>1
      in (s\<lparr>hm_Port := port, hm_SecurityContext := ctx\<rparr>, \<sigma>2))"

definition h_MemcachedProxySpec_DeepCopyInto :: "hrule \<times> hmcrouter \<Rightarrow> store \<Rightarrow> (hrule \<times> hmcrouter) \<times> store" where
  "h_MemcachedProxySpec_DeepCopyInto spec \<sigma> =
     (let (rules, \<sigma>1) = h_RuleSpec_DeepCopyInto (fst spec) \<sigma>;
          (mc, \<sigma>2) = h_McRouterSpec_DeepCopyInto (snd spec) \<sigma>1
      in ((rules, mc), \<sigma>2))"

definition h_MemcachedProxy_DeepCopyInto :: "hproxy \<Rightarrow> store \<Rightarrow> hproxy \<times> store" where
  \<comment> \<open>the metadata and the status hold no pointer that the operator writes through\<close>
  "h_MemcachedProxy_DeepCopyInto p \<sigma> =
     (let (spec, \<sigma>1) = h_MemcachedProxySpec_DeepCopyInto (hp_Rules p, hp_McRouter p) \<sigma>
      in (p\<lparr>hp_Rules := fst spec, hp_McRouter := snd spec\<rparr>, \<sigma>1))"

fun h_copy_items :: "hproxy list \<Rightarrow> store \<Rightarrow> hproxy list \<times> store" where
  "h_copy_items [] \<sigma> = ([], \<sigma>)"
| "h_copy_items (p # ps) \<sigma> =
     (let (p', \<sigma>1) = h_MemcachedProxy_DeepCopyInto p \<sigma>; (ps', \<sigma>2) = h_copy_items ps \<sigma>1 in (p' # ps', \<sigma>2))"

definition h_MemcachedProxyList_DeepCopyInto :: "hproxylist \<Rightarrow> store \<Rightarrow> hproxylist \<times> store" where
  "h_MemcachedProxyList_DeepCopyInto l \<sigma> =
     (case hl_Items l of
        None \<Rightarrow> (l, \<sigma>)
      | Some ps \<Rightarrow> (let (ps', \<sigma>1) = h_copy_items ps \<sigma> in (l\<lparr>hl_Items := Some ps'\<rparr>, \<sigma>1)))"

text \<open>A method \<open>DeepCopy\<close> gives nil for a nil receiver; the receiver of a \<open>DeepCopyInto\<close> is not nil.\<close>

definition nil_or :: "('a \<Rightarrow> store \<Rightarrow> 'a \<times> store) \<Rightarrow> 'a option \<Rightarrow> store \<Rightarrow> 'a option \<times> store" where
  "nil_or DeepCopyInto ptr \<sigma> =
     (case ptr of None \<Rightarrow> (None, \<sigma>) | Some x \<Rightarrow> (let (y, \<sigma>1) = DeepCopyInto x \<sigma> in (Some y, \<sigma>1)))"

definition h_ServiceSpec_DeepCopyInto :: "ServiceSpec \<Rightarrow> store \<Rightarrow> ServiceSpec \<times> store" where
  \<comment> \<open>no field of a \<open>ServiceSpec\<close> or of a status is a pointer: the assignment is the copy\<close>
  "h_ServiceSpec_DeepCopyInto s \<sigma> = (s\<lparr>ss_Port := ss_Port s\<rparr>, \<sigma>)"

definition h_ServiceSpec_DeepCopy :: "ServiceSpec option \<Rightarrow> store \<Rightarrow> ServiceSpec option \<times> store" where
  "h_ServiceSpec_DeepCopy = nil_or h_ServiceSpec_DeepCopyInto"

definition h_MemcachedProxyStatus_DeepCopyInto :: "MemcachedProxyStatus \<Rightarrow> store \<Rightarrow> MemcachedProxyStatus \<times> store" where
  "h_MemcachedProxyStatus_DeepCopyInto s \<sigma> = (s, \<sigma>)"

definition h_MemcachedProxyStatus_DeepCopy :: "MemcachedProxyStatus option \<Rightarrow> store \<Rightarrow> MemcachedProxyStatus option \<times> store" where
  "h_MemcachedProxyStatus_DeepCopy = nil_or h_MemcachedProxyStatus_DeepCopyInto"

definition h_McRouterSpec_DeepCopy :: "hmcrouter option \<Rightarrow> store \<Rightarrow> hmcrouter option \<times> store" where
  "h_McRouterSpec_DeepCopy = nil_or h_McRouterSpec_DeepCopyInto"

definition h_RuleSpec_DeepCopy :: "hrule option \<Rightarrow> store \<Rightarrow> hrule option \<times> store" where
  "h_RuleSpec_DeepCopy = nil_or h_RuleSpec_DeepCopyInto"

definition h_MemcachedProxySpec_DeepCopy :: "(hrule \<times> hmcrouter) option \<Rightarrow> store \<Rightarrow> (hrule \<times> hmcrouter) option \<times> store" where
  "h_MemcachedProxySpec_DeepCopy = nil_or h_MemcachedProxySpec_DeepCopyInto"

definition h_DeepCopy :: "hproxy option \<Rightarrow> store \<Rightarrow> hproxy option \<times> store" where
  "h_DeepCopy = nil_or h_MemcachedProxy_DeepCopyInto"

definition h_DeepCopyObject :: "hproxy option \<Rightarrow> store \<Rightarrow> hproxy option \<times> store" where
  \<comment> \<open>a nil pointer becomes a nil interface\<close>
  "h_DeepCopyObject ptr \<sigma> = (case h_DeepCopy ptr \<sigma> of (Some c, \<sigma>1) \<Rightarrow> (Some c, \<sigma>1) | (None, \<sigma>1) \<Rightarrow> (None, \<sigma>1))"

definition h_MemcachedProxyList_DeepCopy :: "hproxylist option \<Rightarrow> store \<Rightarrow> hproxylist option \<times> store" where
  "h_MemcachedProxyList_DeepCopy = nil_or h_MemcachedProxyList_DeepCopyInto"

definition h_MemcachedProxyList_DeepCopyObject :: "hproxylist option \<Rightarrow> store \<Rightarrow> hproxylist option \<times> store" where
  "h_MemcachedProxyList_DeepCopyObject ptr \<sigma> =
     (case h_MemcachedProxyList_DeepCopy ptr \<sigma> of (Some c, \<sigma>1) \<Rightarrow> (Some c, \<sigma>1) | (None, \<sigma>1) \<Rightarrow> (None, \<sigma>1))"

section \<open>Defaulting\<close>

definition h_ServiceSpec_ApplyDefaults :: "string \<Rightarrow> nat \<Rightarrow> store \<Rightarrow> store" where
  "h_ServiceSpec_ApplyDefaults ns a \<sigma> =
     (case h_services \<sigma> a of
        None \<Rightarrow> \<sigma>
      | Some s \<Rightarrow> \<sigma>\<lparr>h_services := (h_services \<sigma>)(a \<mapsto> ServiceSpec_ApplyDefaults ns s)\<rparr>)"

fun h_RuleSpec_ApplyDefaults :: "string \<Rightarrow> hrule \<Rightarrow> store \<Rightarrow> hrule \<times> store"
  and h_default_copies :: "string \<Rightarrow> hrule list \<Rightarrow> store \<Rightarrow> store"
where
  "h_RuleSpec_ApplyDefaults ns (HRule t s cs) \<sigma> =
     (let t' = (if t = [] then ShardedRuleType else t);
          \<sigma>1 = (case s of None \<Rightarrow> \<sigma> | Some a \<Rightarrow> h_ServiceSpec_ApplyDefaults ns a \<sigma>)
      in (HRule t' s cs, h_default_copies ns (elems cs) \<sigma>1))"
  \<comment> \<open>the loop calls the method on its variable, a copy of the element: the changed copy is dropped\<close>
| "h_default_copies ns [] \<sigma> = \<sigma>"
| "h_default_copies ns (r # rs) \<sigma> = h_default_copies ns rs (snd (h_RuleSpec_ApplyDefaults ns r \<sigma>))"

definition h_McRouterSpec_ApplyDefaults :: "hmcrouter \<Rightarrow> store \<Rightarrow> hmcrouter \<times> store" where
  "h_McRouterSpec_ApplyDefaults s \<sigma> =
     (let s1 = (if hm_Image s = [] then s\<lparr>hm_Image := DefaultImage\<rparr> else s);
          (s2, \<sigma>2) = (if hm_Port s1 = None
             then (let (a, \<sigma>1) = new_int 11211 \<sigma> in (s1\<lparr>hm_Port := Some a\<rparr>, \<sigma>1)) else (s1, \<sigma>));
          s3 = (if hm_StatsRoot s2 = [] then s2\<lparr>hm_StatsRoot := DefaultStatsRoot\<rparr> else s2)
      in if hm_SecurityContext s3 = None
         then (let (a, \<sigma>3) = new_context DefaultSecurityContext \<sigma>2 in (s3\<lparr>hm_SecurityContext := Some a\<rparr>, \<sigma>3))
         else (s3, \<sigma>2))"

definition h_ApplyDefaults :: "hproxy \<Rightarrow> store \<Rightarrow> hproxy \<times> store" where
  "h_ApplyDefaults p \<sigma> =
     (let (mc, \<sigma>1) = h_McRouterSpec_ApplyDefaults (hp_McRouter p) \<sigma>;
          (rules, \<sigma>2) = h_RuleSpec_ApplyDefaults (om_Namespace (hp_Meta p)) (hp_Rules p) \<sigma>1
      in (p\<lparr>hp_McRouter := mc, hp_Rules := rules\<rparr>, \<sigma>2))"

section \<open>The value of a proxy in a store\<close>

primrec read_rule :: "store \<Rightarrow> hrule \<Rightarrow> RuleSpec" where
  "read_rule \<sigma> (HRule t s cs) =
     RuleSpec t (case s of None \<Rightarrow> None | Some a \<Rightarrow> h_services \<sigma> a) (map_option (map (read_rule \<sigma>)) cs)"

definition read_mcrouter :: "store \<Rightarrow> hmcrouter \<Rightarrow> McRouterSpec" where
  "read_mcrouter \<sigma> s = \<lparr>mr_Image = hm_Image s, mr_Resources = hm_Resources s,
     mr_Port = (case hm_Port s of None \<Rightarrow> None | Some a \<Rightarrow> h_ints \<sigma> a),
     mr_SecurityContext = (case hm_SecurityContext s of None \<Rightarrow> None | Some a \<Rightarrow> h_contexts \<sigma> a),
     mr_StatsRoot = hm_StatsRoot s\<rparr>"

definition read_proxy :: "store \<Rightarrow> hproxy \<Rightarrow> MemcachedProxy" where
  "read_proxy \<sigma> p = \<lparr>mp_APIVersion = hp_APIVersion p, mp_Kind = hp_Kind p, mp_Meta = hp_Meta p,
     mp_Spec = \<lparr>spec_Rules = read_rule \<sigma> (hp_Rules p), spec_McRouter = read_mcrouter \<sigma> (hp_McRouter p)\<rparr>,
     mp_Status = hp_Status p\<rparr>"

primrec rule_addrs :: "hrule \<Rightarrow> nat list" where
  "rule_addrs (HRule t s cs) =
     (case s of None \<Rightarrow> [] | Some a \<Rightarrow> [a]) @ concat (elems (map_option (map rule_addrs) cs))"

definition mcrouter_valid :: "store \<Rightarrow> hmcrouter \<Rightarrow> bool" where
  "mcrouter_valid \<sigma> s \<longleftrightarrow> pred_option (\<lambda>a. h_ints \<sigma> a \<noteq> None) (hm_Port s)
     \<and> pred_option (\<lambda>a. h_contexts \<sigma> a \<noteq> None) (hm_SecurityContext s)"

definition store_inv :: "store \<Rightarrow> bool" where
  \<comment> \<open>addresses that have not been handed out hold nothing\<close>
  "store_inv \<sigma> \<longleftrightarrow> (\<forall>a \<ge> h_next \<sigma>. h_services \<sigma> a = None \<and> h_ints \<sigma> a = None \<and> h_contexts \<sigma> a = None)"

definition valid_proxy :: "store \<Rightarrow> hproxy \<Rightarrow> bool" where
  \<comment> \<open>no pointer of the proxy dangles\<close>
  "valid_proxy \<sigma> p \<longleftrightarrow> list_all (\<lambda>a. h_services \<sigma> a \<noteq> None) (rule_addrs (hp_Rules p))
     \<and> mcrouter_valid \<sigma> (hp_McRouter p)"

definition keeps :: "store \<Rightarrow> store \<Rightarrow> bool" where
  \<comment> \<open>what was in the first store is unchanged in the second\<close>
  "keeps \<sigma> \<sigma>' \<longleftrightarrow> h_next \<sigma> \<le> h_next \<sigma>' \<and> (\<forall>a < h_next \<sigma>. h_services \<sigma>' a = h_services \<sigma> a
     \<and> h_ints \<sigma>' a = h_ints \<sigma> a \<and> h_contexts \<sigma>' a = h_contexts \<sigma> a)"

definition copied :: "store \<Rightarrow> hrule \<Rightarrow> store \<Rightarrow> hrule \<Rightarrow> bool" where
  \<comment> \<open>the second rule is a fresh, valid copy of the first\<close>
  "copied \<sigma> r \<sigma>' r' \<longleftrightarrow> read_rule \<sigma>' r' = read_rule \<sigma> r
     \<and> (\<forall>a \<in> set (rule_addrs r'). h_next \<sigma> \<le> a \<and> a < h_next \<sigma>' \<and> h_services \<sigma>' a \<noteq> None)"

definition example_store :: store where
  "example_store = \<lparr>h_next = 1, h_services = [0 \<mapsto> \<lparr>ss_Name = ''memcached'', ss_Namespace = [],
       ss_Port = \<lparr>is_Type = 0, is_IntVal = 11211, is_StrVal = []\<rparr>\<rparr>],
     h_ints = Map.empty, h_contexts = Map.empty\<rparr>"

definition example_hproxy :: hproxy where
  \<comment> \<open>a replicated rule over one child that references the service at address 0\<close>
  "example_hproxy = \<lparr>hp_APIVersion = ''ianlewis.org/v1alpha1'', hp_Kind = ''MemcachedProxy'',
     hp_Meta = zero_meta\<lparr>om_Namespace := ''default''\<rparr>,
     hp_Rules = HRule ''replicated'' None (Some [HRule [] (Some 0) None]),
     hp_McRouter = \<lparr>hm_Image = [], hm_Resources = [], hm_Port = None, hm_SecurityContext = None, hm_StatsRoot = []\<rparr>,
     hp_Status = \<lparr>st_ObservedGeneration = 0\<rparr>\<rparr>"

section \<open>Lemmas on the store\<close>

lemma hrule_induct [case_names HRule]:
  assumes "\<And>t s cs. (\<And>c. c \<in> set (elems cs) \<Longrightarrow> P c) \<Longrightarrow> P (HRule t s cs)"
  shows "P r"
proof (induction r)
  case (HRule t s cs)
  show ?case by (rule assms) (use HRule in \<open>auto simp: elems_def split: option.splits\<close>)
qed

lemma keeps_refl [simp]: "keeps \<sigma> \<sigma>"
  by (simp add: keeps_def)

lemma keeps_trans: "keeps \<sigma> \<sigma>1 \<Longrightarrow> keeps \<sigma>1 \<sigma>2 \<Longrightarrow> keeps \<sigma> \<sigma>2"
  by (auto simp: keeps_def)

lemma new_keeps:
  "new_service v \<sigma> = (b, \<sigma>') \<Longrightarrow> keeps \<sigma> \<sigma>'"
  "new_int i \<sigma> = (b, \<sigma>') \<Longrightarrow> keeps \<sigma> \<sigma>'"
  "new_context c \<sigma> = (b, \<sigma>') \<Longrightarrow> keeps \<sigma> \<sigma>'"
  by (auto simp: new_service_def new_int_def new_context_def keeps_def)

lemma new_inv:
  "new_service v \<sigma> = (b, \<sigma>') \<Longrightarrow> store_inv \<sigma> \<Longrightarrow> store_inv \<sigma>'"
  "new_int i \<sigma> = (b, \<sigma>') \<Longrightarrow> store_inv \<sigma> \<Longrightarrow> store_inv \<sigma>'"
  "new_context c \<sigma> = (b, \<sigma>') \<Longrightarrow> store_inv \<sigma> \<Longrightarrow> store_inv \<sigma>'"
  by (auto simp: new_service_def new_int_def new_context_def store_inv_def)

lemma new_reads:
  "new_service v \<sigma> = (b, \<sigma>') \<Longrightarrow> h_services \<sigma>' b = Some v \<and> b = h_next \<sigma> \<and> b < h_next \<sigma>'"
  "new_int i \<sigma> = (b, \<sigma>') \<Longrightarrow> h_ints \<sigma>' b = Some i \<and> b = h_next \<sigma> \<and> b < h_next \<sigma>'"
  "new_context c \<sigma> = (b, \<sigma>') \<Longrightarrow> h_contexts \<sigma>' b = Some c \<and> b = h_next \<sigma> \<and> b < h_next \<sigma>'"
  by (auto simp: new_service_def new_int_def new_context_def)

lemma store_inv_bound:
  assumes "store_inv \<sigma>"
  shows "h_services \<sigma> a \<noteq> None \<Longrightarrow> a < h_next \<sigma>" "h_ints \<sigma> a \<noteq> None \<Longrightarrow> a < h_next \<sigma>"
    "h_contexts \<sigma> a \<noteq> None \<Longrightarrow> a < h_next \<sigma>"
  using assms by (auto simp: store_inv_def not_le [symmetric])

text \<open>What a proxy stands for depends on what its own pointers point to only.\<close>

lemma read_rule_cong:
  assumes "\<And>a. a \<in> set (rule_addrs r) \<Longrightarrow> h_services \<sigma>' a = h_services \<sigma> a"
  shows "read_rule \<sigma>' r = read_rule \<sigma> r"
  using assms
proof (induction r rule: hrule_induct)
  case (HRule t s cs)
  have "map_option (map (read_rule \<sigma>')) cs = map_option (map (read_rule \<sigma>)) cs"
    by (rule option_map_map_cong) (use HRule in auto)
  then show ?case using HRule.prems by (auto split: option.split)
qed

lemma read_proxy_keeps:
  assumes "keeps \<sigma> \<sigma>'" and "store_inv \<sigma>" and "valid_proxy \<sigma> p"
  shows "read_proxy \<sigma>' p = read_proxy \<sigma> p"
proof -
  have rules: "read_rule \<sigma>' (hp_Rules p) = read_rule \<sigma> (hp_Rules p)"
    by (rule read_rule_cong)
      (use assms store_inv_bound(1) in \<open>auto simp: keeps_def valid_proxy_def list_all_iff\<close>)
  have "read_mcrouter \<sigma>' (hp_McRouter p) = read_mcrouter \<sigma> (hp_McRouter p)"
    using assms store_inv_bound(2,3) [OF assms(2)]
    by (auto simp: read_mcrouter_def keeps_def valid_proxy_def mcrouter_valid_def split: option.split)
  then show ?thesis by (simp add: read_proxy_def rules)
qed

section \<open>Deep copies are fresh and equal\<close>

lemma copy_service:
  assumes "copy_pointer h_services new_service s \<sigma> = (s', \<sigma>')" and "store_inv \<sigma>"
    and "pred_option (\<lambda>a. h_services \<sigma> a \<noteq> None) s"
  shows "store_inv \<sigma>'" "keeps \<sigma> \<sigma>'"
    "(case s' of None \<Rightarrow> None | Some a \<Rightarrow> h_services \<sigma>' a) = (case s of None \<Rightarrow> None | Some a \<Rightarrow> h_services \<sigma> a)"
    "pred_option (\<lambda>b. h_next \<sigma> \<le> b \<and> b < h_next \<sigma>' \<and> h_services \<sigma>' b \<noteq> None) s'"
  using assms new_keeps(1) new_inv(1) new_reads(1)
  by (auto simp: copy_pointer_def split: option.splits prod.splits)

lemma copied_keeps:
  assumes "copied \<sigma> r \<sigma>1 r'" and "keeps \<sigma>1 \<sigma>2"
  shows "copied \<sigma> r \<sigma>2 r'"
proof -
  have "read_rule \<sigma>2 r' = read_rule \<sigma>1 r'"
    by (rule read_rule_cong) (use assms in \<open>auto simp: copied_def keeps_def\<close>)
  then show ?thesis using assms by (fastforce simp: copied_def keeps_def)
qed

lemma copied_earlier:
  assumes "copied \<sigma>1 r \<sigma>2 r'" and "keeps \<sigma> \<sigma>1" and "store_inv \<sigma>"
    and "\<forall>a \<in> set (rule_addrs r). h_services \<sigma> a \<noteq> None"
  shows "copied \<sigma> r \<sigma>2 r'"
proof -
  have "read_rule \<sigma>1 r = read_rule \<sigma> r"
    by (rule read_rule_cong) (use assms store_inv_bound(1) [OF assms(3)] in \<open>auto simp: keeps_def\<close>)
  then show ?thesis using assms(1,2) by (fastforce simp: copied_def keeps_def)
qed

lemma addrs_keeps:
  assumes "keeps \<sigma> \<sigma>'" and "store_inv \<sigma>"
    and "\<forall>r \<in> R. \<forall>a \<in> set (rule_addrs r). h_services \<sigma> a \<noteq> None"
  shows "\<forall>r \<in> R. \<forall>a \<in> set (rule_addrs r). h_services \<sigma>' a \<noteq> None"
  using assms store_inv_bound(1) [OF assms(2)] by (fastforce simp: keeps_def)

lemma copied_HRule:
  assumes "list_all2 (\<lambda>r r'. copied \<sigma> r \<sigma>' r') rs rs'"
    and "(case s' of None \<Rightarrow> None | Some a \<Rightarrow> h_services \<sigma>' a) = (case s of None \<Rightarrow> None | Some a \<Rightarrow> h_services \<sigma> a)"
    and "pred_option (\<lambda>b. h_next \<sigma> \<le> b \<and> b < h_next \<sigma>' \<and> h_services \<sigma>' b \<noteq> None) s'"
  shows "copied \<sigma> (HRule t s (Some rs)) \<sigma>' (HRule t s' (Some rs'))"
proof -
  have "map (read_rule \<sigma>') rs' = map (read_rule \<sigma>) rs"
    using assms(1) by (induction rule: list_all2_induct) (auto simp: copied_def)
  moreover have "\<forall>r' \<in> set rs'. \<forall>a \<in> set (rule_addrs r'). h_next \<sigma> \<le> a \<and> a < h_next \<sigma>' \<and> h_services \<sigma>' a \<noteq> None"
    using assms(1) by (induction rule: list_all2_induct) (auto simp: copied_def)
  ultimately show ?thesis using assms(2,3) by (auto simp: copied_def split: option.splits)
qed

lemma rule_DeepCopy:
  shows "h_RuleSpec_DeepCopyInto r \<sigma> = (r', \<sigma>') \<Longrightarrow> store_inv \<sigma> \<Longrightarrow>
      \<forall>a \<in> set (rule_addrs r). h_services \<sigma> a \<noteq> None \<Longrightarrow>
      store_inv \<sigma>' \<and> keeps \<sigma> \<sigma>' \<and> copied \<sigma> r \<sigma>' r'"
    and "h_copy_rules rs \<sigma> = (rs', \<sigma>') \<Longrightarrow> store_inv \<sigma> \<Longrightarrow>
      \<forall>r \<in> set rs. \<forall>a \<in> set (rule_addrs r). h_services \<sigma> a \<noteq> None \<Longrightarrow>
      store_inv \<sigma>' \<and> keeps \<sigma> \<sigma>' \<and> list_all2 (\<lambda>r r'. copied \<sigma> r \<sigma>' r') rs rs'"
proof (induction r \<sigma> and rs \<sigma> arbitrary: r' \<sigma>' and rs' \<sigma>' rule: h_RuleSpec_DeepCopyInto_h_copy_rules.induct)
  case (1 t s cs \<sigma>)
  obtain s' \<sigma>1 where s': "copy_pointer h_services new_service s \<sigma> = (s', \<sigma>1)" by fastforce
  have "pred_option (\<lambda>a. h_services \<sigma> a \<noteq> None) s" using "1.prems"(3) by (cases s) auto
  note svc = copy_service [OF s' "1.prems"(2) this]
  show ?case
  proof (cases cs)
    case None
    then show ?thesis
      using "1.prems"(1) s' svc by (auto simp: copied_def split: option.splits)
  next
    case (Some rs)
    obtain rs' where rs': "h_copy_rules rs \<sigma>1 = (rs', \<sigma>')" "r' = HRule t s' (Some rs')"
      using "1.prems"(1) s' Some by (auto split: prod.splits)
    have valid: "\<forall>r \<in> set rs. \<forall>a \<in> set (rule_addrs r). h_services \<sigma> a \<noteq> None"
      using "1.prems"(3) Some by auto
    have kids: "store_inv \<sigma>'" "keeps \<sigma>1 \<sigma>'" "list_all2 (\<lambda>r r'. copied \<sigma>1 r \<sigma>' r') rs rs'"
      using "1.IH" [OF s' [symmetric] refl Some rs'(1) svc(1)] addrs_keeps [OF svc(2) "1.prems"(2) valid]
      by auto
    have kids': "list_all2 (\<lambda>r r'. copied \<sigma> r \<sigma>' r') rs rs'"
      by (rule list.rel_mono_strong [OF kids(3)])
        (use copied_earlier [OF _ svc(2) "1.prems"(2)] valid in auto)
    have "(case s' of None \<Rightarrow> None | Some a \<Rightarrow> h_services \<sigma>' a) = (case s of None \<Rightarrow> None | Some a \<Rightarrow> h_services \<sigma> a)"
      and "pred_option (\<lambda>b. h_next \<sigma> \<le> b \<and> b < h_next \<sigma>' \<and> h_services \<sigma>' b \<noteq> None) s'"
      using svc(3,4) kids(2) by (auto simp: keeps_def split: option.splits)
    from copied_HRule [OF kids' this] have "copied \<sigma> (HRule t s cs) \<sigma>' r'"
      by (simp add: Some rs'(2))
    then show ?thesis using kids(1) keeps_trans [OF svc(2) kids(2)] by blast
  qed
next
  case (3 r rs \<sigma>)
  obtain r1 \<sigma>1 where r1: "h_RuleSpec_DeepCopyInto r \<sigma> = (r1, \<sigma>1)" by fastforce
  then obtain rs1 where rs1: "h_copy_rules rs \<sigma>1 = (rs1, \<sigma>')" "rs' = r1 # rs1"
    using "3.prems"(1) by (auto split: prod.splits)
  have one: "store_inv \<sigma>1" "keeps \<sigma> \<sigma>1" "copied \<sigma> r \<sigma>1 r1"
    using "3.IH"(1) [OF r1 "3.prems"(2)] "3.prems"(3) by auto
  have rest: "store_inv \<sigma>'" "keeps \<sigma>1 \<sigma>'" "list_all2 (\<lambda>r r'. copied \<sigma>1 r \<sigma>' r') rs rs1"
    using "3.IH"(2) [OF r1 [symmetric] refl rs1(1) one(1)] addrs_keeps [OF one(2) "3.prems"(2,3)] by auto
  have "list_all2 (\<lambda>r r'. copied \<sigma> r \<sigma>' r') rs rs1"
    by (rule list.rel_mono_strong [OF rest(3)])
      (use copied_earlier [OF _ one(2) "3.prems"(2)] "3.prems"(3) in auto)
  then show ?case
    using rest(1) keeps_trans [OF one(2) rest(2)] copied_keeps [OF one(3) rest(2)] rs1(2) by auto
qed simp

lemma copy_int:
  assumes "copy_pointer h_ints new_int s \<sigma> = (s', \<sigma>')" and "store_inv \<sigma>"
    and "pred_option (\<lambda>a. h_ints \<sigma> a \<noteq> None) s"
  shows "store_inv \<sigma>'" "keeps \<sigma> \<sigma>'"
    "(case s' of None \<Rightarrow> None | Some a \<Rightarrow> h_ints \<sigma>' a) = (case s of None \<Rightarrow> None | Some a \<Rightarrow> h_ints \<sigma> a)"
    "pred_option (\<lambda>b. h_next \<sigma> \<le> b \<and> b < h_next \<sigma>' \<and> h_ints \<sigma>' b \<noteq> None) s'"
  using assms new_keeps(2) new_inv(2) new_reads(2)
  by (auto simp: copy_pointer_def split: option.splits prod.splits)

lemma copy_context:
  assumes "copy_pointer h_contexts new_context s \<sigma> = (s', \<sigma>')" and "store_inv \<sigma>"
    and "pred_option (\<lambda>a. h_contexts \<sigma> a \<noteq> None) s"
  shows "store_inv \<sigma>'" "keeps \<sigma> \<sigma>'"
    "(case s' of None \<Rightarrow> None | Some a \<Rightarrow> h_contexts \<sigma>' a) = (case s of None \<Rightarrow> None | Some a \<Rightarrow> h_contexts \<sigma> a)"
    "pred_option (\<lambda>b. h_next \<sigma> \<le> b \<and> b < h_next \<sigma>' \<and> h_contexts \<sigma>' b \<noteq> None) s'"
  using assms new_keeps(3) new_inv(3) new_reads(3)
  by (auto simp: copy_pointer_def split: option.splits prod.splits)

lemma mcrouter_DeepCopy:
  assumes "h_McRouterSpec_DeepCopyInto s \<sigma> = (s', \<sigma>')" and "store_inv \<sigma>" and "mcrouter_valid \<sigma> s"
  shows "store_inv \<sigma>'" "keeps \<sigma> \<sigma>'" "read_mcrouter \<sigma>' s' = read_mcrouter \<sigma> s" "mcrouter_valid \<sigma>' s'"
proof -
  obtain port \<sigma>1 ctx where port: "copy_pointer h_ints new_int (hm_Port s) \<sigma> = (port, \<sigma>1)"
    and ctx: "copy_pointer h_contexts new_context (hm_SecurityContext s) \<sigma>1 = (ctx, \<sigma>')"
    and s': "s' = s\<lparr>hm_Port := port, hm_SecurityContext := ctx\<rparr>"
    using assms(1) by (auto simp: h_McRouterSpec_DeepCopyInto_def split: prod.splits)
  have valid: "pred_option (\<lambda>a. h_ints \<sigma> a \<noteq> None) (hm_Port s)"
    "pred_option (\<lambda>a. h_contexts \<sigma> a \<noteq> None) (hm_SecurityContext s)"
    using assms(3) by (simp_all add: mcrouter_valid_def)
  note p = copy_int [OF port assms(2) valid(1)]
  have c0: "pred_option (\<lambda>a. h_contexts \<sigma>1 a \<noteq> None \<and> h_contexts \<sigma>1 a = h_contexts \<sigma> a) (hm_SecurityContext s)"
    using valid(2) p(2) store_inv_bound(3) [OF assms(2)] by (cases "hm_SecurityContext s") (auto simp: keeps_def)
  have "pred_option (\<lambda>a. h_contexts \<sigma>1 a \<noteq> None) (hm_SecurityContext s)"
    by (rule option.pred_mono_strong [OF c0]) blast
  note c = copy_context [OF ctx p(1) this]
  have p': "pred_option (\<lambda>b. h_ints \<sigma>' b = h_ints \<sigma>1 b \<and> h_ints \<sigma>' b \<noteq> None) port"
    using p(4) c(2) by (cases port) (auto simp: keeps_def)
  show "store_inv \<sigma>'" by (rule c(1))
  show "keeps \<sigma> \<sigma>'" by (rule keeps_trans [OF p(2) c(2)])
  show "read_mcrouter \<sigma>' s' = read_mcrouter \<sigma> s"
    using p(3) p' c(3) c0 by (auto simp: read_mcrouter_def s' split: option.splits)
  show "mcrouter_valid \<sigma>' s'"
    using p' c(4) by (cases port; cases ctx) (auto simp: mcrouter_valid_def s')
qed

section \<open>Defaulting on the store\<close>

lemma h_ServiceSpec_ApplyDefaults_eq:
  "h_services (h_ServiceSpec_ApplyDefaults ns a \<sigma>) =
     (\<lambda>b. if b = a then map_option (ServiceSpec_ApplyDefaults ns) (h_services \<sigma> b) else h_services \<sigma> b)"
  by (auto simp: h_ServiceSpec_ApplyDefaults_def fun_eq_iff split: option.split)

lemma h_ServiceSpec_ApplyDefaults_rest [simp]:
  "h_next (h_ServiceSpec_ApplyDefaults ns a \<sigma>) = h_next \<sigma>"
  "h_ints (h_ServiceSpec_ApplyDefaults ns a \<sigma>) = h_ints \<sigma>"
  "h_contexts (h_ServiceSpec_ApplyDefaults ns a \<sigma>) = h_contexts \<sigma>"
  by (auto simp: h_ServiceSpec_ApplyDefaults_def split: option.split)

lemma map_option_defaults_idem [simp]:
  "map_option (ServiceSpec_ApplyDefaults ns) (map_option (ServiceSpec_ApplyDefaults ns) x)
     = map_option (ServiceSpec_ApplyDefaults ns) x"
  by (cases x) simp_all

lemma rule_defaults_store:
  shows "h_services (snd (h_RuleSpec_ApplyDefaults ns r \<sigma>)) =
      (\<lambda>b. if b \<in> set (rule_addrs r) then map_option (ServiceSpec_ApplyDefaults ns) (h_services \<sigma> b) else h_services \<sigma> b)
      \<and> h_next (snd (h_RuleSpec_ApplyDefaults ns r \<sigma>)) = h_next \<sigma>
      \<and> h_ints (snd (h_RuleSpec_ApplyDefaults ns r \<sigma>)) = h_ints \<sigma>
      \<and> h_contexts (snd (h_RuleSpec_ApplyDefaults ns r \<sigma>)) = h_contexts \<sigma>"
    and "h_services (h_default_copies ns rs \<sigma>) =
      (\<lambda>b. if b \<in> set (concat (map rule_addrs rs)) then map_option (ServiceSpec_ApplyDefaults ns) (h_services \<sigma> b) else h_services \<sigma> b)
      \<and> h_next (h_default_copies ns rs \<sigma>) = h_next \<sigma>
      \<and> h_ints (h_default_copies ns rs \<sigma>) = h_ints \<sigma>
      \<and> h_contexts (h_default_copies ns rs \<sigma>) = h_contexts \<sigma>"
proof (induction ns r \<sigma> and ns rs \<sigma> rule: h_RuleSpec_ApplyDefaults_h_default_copies.induct)
  case (1 ns t s cs \<sigma>)
  then show ?case
    by (cases s) (auto simp: Let_def fun_eq_iff h_ServiceSpec_ApplyDefaults_eq)
qed (auto simp: fun_eq_iff)

lemma read_rule_defaulted:
  assumes "\<And>a. a \<in> set (rule_addrs r) \<Longrightarrow> h_services \<sigma>' a = map_option (ServiceSpec_ApplyDefaults ns) (h_services \<sigma> a)"
  shows "read_rule \<sigma>' r = ApplyDefaultsToCopy ns (read_rule \<sigma> r)"
  using assms
proof (induction r rule: hrule_induct)
  case (HRule t s cs)
  have "map_option (map (read_rule \<sigma>')) cs = map_option (map (ApplyDefaultsToCopy ns \<circ> read_rule \<sigma>)) cs"
    by (rule option_map_map_cong) (use HRule in auto)
  then show ?case using HRule.prems by (cases s) (auto simp: option.map_comp comp_def)
qed

lemma read_rule_ApplyDefaults:
  assumes "h_RuleSpec_ApplyDefaults ns r \<sigma> = (r', \<sigma>')"
  shows "read_rule \<sigma>' r' = RuleSpec_ApplyDefaults ns (read_rule \<sigma> r)"
proof -
  obtain t s cs where r: "r = HRule t s cs" by (cases r)
  have r': "r' = HRule (if t = [] then ShardedRuleType else t) s cs"
    using assms by (simp add: r Let_def split: if_splits)
  have "read_rule \<sigma>' r = ApplyDefaultsToCopy ns (read_rule \<sigma> r)"
    by (rule read_rule_defaulted) (use rule_defaults_store(1) [of ns r \<sigma>] assms in auto)
  then show ?thesis by (simp add: r r')
qed

lemma mcrouter_ApplyDefaults:
  assumes "h_McRouterSpec_ApplyDefaults s \<sigma> = (s', \<sigma>')" and "store_inv \<sigma>" and "mcrouter_valid \<sigma> s"
  shows "keeps \<sigma> \<sigma>'" "h_services \<sigma>' = h_services \<sigma>"
    "read_mcrouter \<sigma>' s' = McRouterSpec_ApplyDefaults (read_mcrouter \<sigma> s)"
proof -
  have bound: "hm_Port s = Some a \<Longrightarrow> a < h_next \<sigma> \<and> h_ints \<sigma> a \<noteq> None"
    "hm_SecurityContext s = Some a \<Longrightarrow> a < h_next \<sigma> \<and> h_contexts \<sigma> a \<noteq> None" for a
    using assms(3) store_inv_bound(2,3) [OF assms(2)] by (auto simp: mcrouter_valid_def)
  show "keeps \<sigma> \<sigma>'" "h_services \<sigma>' = h_services \<sigma>"
    using assms(1)
    by (auto simp: h_McRouterSpec_ApplyDefaults_def Let_def new_int_def new_context_def keeps_def split: if_splits)
  show "read_mcrouter \<sigma>' s' = McRouterSpec_ApplyDefaults (read_mcrouter \<sigma> s)"
    using assms(1) bound
    by (cases "hm_Port s"; cases "hm_SecurityContext s")
      (auto simp: h_McRouterSpec_ApplyDefaults_def McRouterSpec_ApplyDefaults_def read_mcrouter_def Let_def
        new_int_def new_context_def split: if_splits)
qed

lemma proxy_DeepCopy:
  assumes "h_MemcachedProxy_DeepCopyInto p \<sigma> = (c, \<sigma>')" and "store_inv \<sigma>" and "valid_proxy \<sigma> p"
  shows "store_inv \<sigma>'" "keeps \<sigma> \<sigma>'" "read_proxy \<sigma>' c = read_proxy \<sigma> p" "mcrouter_valid \<sigma>' (hp_McRouter c)"
    "\<forall>a \<in> set (rule_addrs (hp_Rules c)). h_next \<sigma> \<le> a \<and> h_services \<sigma>' a \<noteq> None" "hp_Meta c = hp_Meta p"
proof -
  obtain rules \<sigma>1 mc where rules: "h_RuleSpec_DeepCopyInto (hp_Rules p) \<sigma> = (rules, \<sigma>1)"
    and mc: "h_McRouterSpec_DeepCopyInto (hp_McRouter p) \<sigma>1 = (mc, \<sigma>')"
    and c: "c = p\<lparr>hp_Rules := rules, hp_McRouter := mc\<rparr>"
    using assms(1) by (auto simp: h_MemcachedProxy_DeepCopyInto_def h_MemcachedProxySpec_DeepCopyInto_def split: prod.splits)
  have r: "store_inv \<sigma>1" "keeps \<sigma> \<sigma>1" "copied \<sigma> (hp_Rules p) \<sigma>1 rules"
    using rule_DeepCopy(1) [OF rules assms(2)] assms(3) by (auto simp: valid_proxy_def list_all_iff)
  have same: "read_mcrouter \<sigma>1 (hp_McRouter p) = read_mcrouter \<sigma> (hp_McRouter p)" "mcrouter_valid \<sigma>1 (hp_McRouter p)"
    using assms(2,3) r(2) store_inv_bound(2,3) [OF assms(2)]
    by (cases "hm_Port (hp_McRouter p)"; cases "hm_SecurityContext (hp_McRouter p)";
        auto simp: read_mcrouter_def keeps_def valid_proxy_def mcrouter_valid_def)+
  note m = mcrouter_DeepCopy [OF mc r(1) same(2)]
  have "copied \<sigma> (hp_Rules p) \<sigma>' rules" by (rule copied_keeps [OF r(3) m(2)])
  then show "read_proxy \<sigma>' c = read_proxy \<sigma> p"
    "\<forall>a \<in> set (rule_addrs (hp_Rules c)). h_next \<sigma> \<le> a \<and> h_services \<sigma>' a \<noteq> None"
    using m(3) same(1) by (auto simp: c copied_def read_proxy_def)
  show "store_inv \<sigma>'" "keeps \<sigma> \<sigma>'" "mcrouter_valid \<sigma>' (hp_McRouter c)" "hp_Meta c = hp_Meta p"
    using m(1,4) keeps_trans [OF r(2) m(2)] by (simp_all add: c)
qed

lemma valid_proxy_copy:
  assumes "h_MemcachedProxy_DeepCopyInto p \<sigma> = (c, \<sigma>')" and "store_inv \<sigma>" and "valid_proxy \<sigma> p" and "valid_proxy \<sigma> q"
  shows "valid_proxy \<sigma>' c" "valid_proxy \<sigma>' q"
proof -
  note copy = proxy_DeepCopy [OF assms(1-3)]
  show "valid_proxy \<sigma>' c" using copy(4,5) by (simp add: valid_proxy_def list_all_iff)
  have "h_services \<sigma> a \<noteq> None \<Longrightarrow> h_services \<sigma>' a \<noteq> None" "h_ints \<sigma> a \<noteq> None \<Longrightarrow> h_ints \<sigma>' a \<noteq> None"
    "h_contexts \<sigma> a \<noteq> None \<Longrightarrow> h_contexts \<sigma>' a \<noteq> None" for a
    using store_inv_bound [OF assms(2), of a] copy(2) by (auto simp: keeps_def)
  then show "valid_proxy \<sigma>' q"
    using assms(4) by (auto simp: valid_proxy_def list_all_iff mcrouter_valid_def option.pred_set)
qed

text \<open>A copied list reads like the original, and the original and everything else in the store keep their values.\<close>

lemma items_DeepCopy:
  assumes "h_copy_items ps \<sigma> = (cs, \<sigma>')" and "store_inv \<sigma>" and "list_all (valid_proxy \<sigma>) ps"
  shows "store_inv \<sigma>' \<and> keeps \<sigma> \<sigma>' \<and> map (read_proxy \<sigma>') cs = map (read_proxy \<sigma>) ps"
  using assms
proof (induction ps arbitrary: \<sigma> cs)
  case (Cons p ps)
  obtain c \<sigma>1 where c: "h_MemcachedProxy_DeepCopyInto p \<sigma> = (c, \<sigma>1)" by fastforce
  obtain cs1 where cs1: "h_copy_items ps \<sigma>1 = (cs1, \<sigma>')" "cs = c # cs1"
    using Cons.prems(1) c by (auto split: prod.splits)
  have p: "valid_proxy \<sigma> p" using Cons.prems(3) by simp
  note copy = proxy_DeepCopy [OF c Cons.prems(2) p]
  have valid: "list_all (valid_proxy \<sigma>1) ps"
    using Cons.prems(3) valid_proxy_copy(2) [OF c Cons.prems(2) p] by (auto simp: list_all_iff)
  from Cons.IH [OF cs1(1) copy(1) valid]
  have ih: "store_inv \<sigma>'" "keeps \<sigma>1 \<sigma>'" "map (read_proxy \<sigma>') cs1 = map (read_proxy \<sigma>1) ps" by auto
  have "read_proxy \<sigma>1 q = read_proxy \<sigma> q" if "q \<in> set ps" for q
    using that Cons.prems(3) by (intro read_proxy_keeps [OF copy(2) Cons.prems(2)]) (auto simp: list_all_iff)
  moreover have "read_proxy \<sigma>' c = read_proxy \<sigma>1 c"
    by (rule read_proxy_keeps [OF ih(2) copy(1) valid_proxy_copy(1) [OF c Cons.prems(2) p p]])
  ultimately show ?case using ih copy(3) keeps_trans [OF copy(2) ih(2)] by (simp add: cs1(2))
qed simp

section \<open>Properties\<close>

text \<open>
  C12. Copying a cached proxy and applying the defaults to the copy, as the proxy controller does, gives the
  value that the defaulting function of the value model gives, and does not change any proxy that was
  in the store before: the shared cache is not written to.
\<close>

theorem defaulting_a_copy_keeps_the_cache:
  assumes "store_inv \<sigma>" and "valid_proxy \<sigma> p" and "valid_proxy \<sigma> other"
    and "h_DeepCopy (Some p) \<sigma> = (Some c, \<sigma>1)" and "h_ApplyDefaults c \<sigma>1 = (c', \<sigma>2)"
  shows "read_proxy \<sigma>2 c' = ApplyDefaults (read_proxy \<sigma> p) \<and> read_proxy \<sigma>2 other = read_proxy \<sigma> other"
proof -
  have "h_MemcachedProxy_DeepCopyInto p \<sigma> = (c, \<sigma>1)"
    using assms(4) by (simp add: h_DeepCopy_def nil_or_def split: prod.splits)
  note copy = proxy_DeepCopy [OF this assms(1,2)]
  obtain mc \<sigma>m rules where mc: "h_McRouterSpec_ApplyDefaults (hp_McRouter c) \<sigma>1 = (mc, \<sigma>m)"
    and rules: "h_RuleSpec_ApplyDefaults (om_Namespace (hp_Meta c)) (hp_Rules c) \<sigma>m = (rules, \<sigma>2)"
    and c': "c' = c\<lparr>hp_McRouter := mc, hp_Rules := rules\<rparr>"
    using assms(5) by (auto simp: h_ApplyDefaults_def split: prod.splits)
  note m = mcrouter_ApplyDefaults [OF mc copy(1,4)]
  have store: "h_next \<sigma>2 = h_next \<sigma>m" "h_ints \<sigma>2 = h_ints \<sigma>m" "h_contexts \<sigma>2 = h_contexts \<sigma>m"
    "\<And>b. b \<notin> set (rule_addrs (hp_Rules c)) \<Longrightarrow> h_services \<sigma>2 b = h_services \<sigma>m b"
    using rule_defaults_store(1) [of "om_Namespace (hp_Meta c)" "hp_Rules c" \<sigma>m] rules by simp_all
  have "a \<notin> set (rule_addrs (hp_Rules c))" if "a < h_next \<sigma>" for a
    using copy(5) that by (meson leD)
  then have "keeps \<sigma> \<sigma>2"
    using keeps_trans [OF copy(2) m(1)] store by (simp add: keeps_def)
  then have "read_proxy \<sigma>2 other = read_proxy \<sigma> other" by (rule read_proxy_keeps [OF _ assms(1,3)])
  moreover have "read_mcrouter \<sigma>2 mc = read_mcrouter \<sigma>m mc"
    unfolding read_mcrouter_def store(2,3) by (rule refl)
  then have "read_mcrouter \<sigma>2 mc = McRouterSpec_ApplyDefaults (read_mcrouter \<sigma>1 (hp_McRouter c))"
    using m(3) by simp
  moreover have "read_rule \<sigma>m (hp_Rules c) = read_rule \<sigma>1 (hp_Rules c)"
    by (rule read_rule_cong) (simp add: m(2))
  then have "read_rule \<sigma>2 rules = RuleSpec_ApplyDefaults (om_Namespace (hp_Meta c)) (read_rule \<sigma>1 (hp_Rules c))"
    using read_rule_ApplyDefaults [OF rules] by simp
  ultimately show ?thesis
    unfolding copy(3) [symmetric]
    by (simp add: c' read_proxy_def ApplyDefaults_def MemcachedProxySpec_ApplyDefaults_def Let_def)
qed

theorem defaulting_a_copy_keeps_the_cache_witness:
  "store_inv example_store \<and> valid_proxy example_store example_hproxy
   \<and> (case h_DeepCopy (Some example_hproxy) example_store of (None, \<sigma>1) \<Rightarrow> False | (Some c, \<sigma>1) \<Rightarrow> case h_ApplyDefaults c \<sigma>1 of (c', \<sigma>2) \<Rightarrow>
        read_proxy \<sigma>2 c' = ApplyDefaults (read_proxy example_store example_hproxy)
        \<and> read_proxy \<sigma>2 example_hproxy = read_proxy example_store example_hproxy)"
proof -
  have "store_inv example_store" "valid_proxy example_store example_hproxy"
    by (simp_all add: store_inv_def valid_proxy_def mcrouter_valid_def example_store_def example_hproxy_def)
  then show ?thesis
    using defaulting_a_copy_keeps_the_cache [of example_store example_hproxy example_hproxy]
    by (auto simp: h_DeepCopy_def nil_or_def split: prod.splits option.splits)
qed

end
