(* ===== verification/ObjectTracker.thy ===== *)
theory ObjectTracker
  imports ProxyClient
begin

text \<open>
  The store behind client-go's fake clients: the object tracker and the actions of vendor/k8s.io/client-go/testing (fixture.go and
  actions.go), for the objects of the fake clientset of this repository. The theory ends with what the tracker is: a finite map from
  namespaces and names to objects.

  The scheme knows two types of this repository (theory \<open>Scheme\<close>), so an object is a proxy or a list of proxies. A watcher is
  the list of the events sent to it: it is read fast enough for the buffer of its channel. Parsing the text of a selector is the
  parameter \<open>parsers\<close>; a text that is not a selector makes the fake client panic, which is \<open>None\<close>.
\<close>

section \<open>Resources and actions\<close>

record GroupVersionResource =
  gvr_Group :: string
  gvr_Version :: string
  gvr_Resource :: string

definition memcachedproxiesResource :: GroupVersionResource where
  "memcachedproxiesResource = \<lparr>gvr_Group = ''ianlewis.org'', gvr_Version = ''v1alpha1'', gvr_Resource = ''memcachedproxies''\<rparr>"

definition memcachedproxiesKind :: GroupVersionKind where
  "memcachedproxiesKind = \<lparr>gvk_Group = ''ianlewis.org'', gvk_Version = ''v1alpha1'', gvk_Kind = ''MemcachedProxy''\<rparr>"

datatype runtime_object = ProxyObject MemcachedProxy | ListObject MemcachedProxyList

record parsers =
  ps_labels :: "string \<Rightarrow> selector option"
  ps_fields :: "string \<Rightarrow> string option"

datatype restrictions = Restrictions (rs_labels: selector) (rs_fields: string)

datatype fake_action =
    GetAction GroupVersionResource string string
  | ListAction GroupVersionResource GroupVersionKind string restrictions
  | CreateAction GroupVersionResource string MemcachedProxy
  | UpdateAction GroupVersionResource string MemcachedProxy
  | DeleteAction GroupVersionResource string string
  | DeleteCollectionAction GroupVersionResource string restrictions
  | WatchAction GroupVersionResource string restrictions string
  | PatchAction GroupVersionResource string string string string

fun GetVerb :: "fake_action \<Rightarrow> string" where
  "GetVerb (GetAction _ _ _) = ''get''"
| "GetVerb (ListAction _ _ _ _) = ''list''"
| "GetVerb (CreateAction _ _ _) = ''create''"
| "GetVerb (UpdateAction _ _ _) = ''update''"
| "GetVerb (DeleteAction _ _ _) = ''delete''"
| "GetVerb (DeleteCollectionAction _ _ _) = ''delete-collection''"
| "GetVerb (WatchAction _ _ _ _) = ''watch''"
| "GetVerb (PatchAction _ _ _ _ _) = ''patch''"

fun GetResource :: "fake_action \<Rightarrow> GroupVersionResource" where
  "GetResource (GetAction gvr _ _) = gvr"
| "GetResource (ListAction gvr _ _ _) = gvr"
| "GetResource (CreateAction gvr _ _) = gvr"
| "GetResource (UpdateAction gvr _ _) = gvr"
| "GetResource (DeleteAction gvr _ _) = gvr"
| "GetResource (DeleteCollectionAction gvr _ _) = gvr"
| "GetResource (WatchAction gvr _ _ _) = gvr"
| "GetResource (PatchAction gvr _ _ _ _) = gvr"

fun GetNamespace :: "fake_action \<Rightarrow> string" where
  "GetNamespace (GetAction _ ns _) = ns"
| "GetNamespace (ListAction _ _ ns _) = ns"
| "GetNamespace (CreateAction _ ns _) = ns"
| "GetNamespace (UpdateAction _ ns _) = ns"
| "GetNamespace (DeleteAction _ ns _) = ns"
| "GetNamespace (DeleteCollectionAction _ ns _) = ns"
| "GetNamespace (WatchAction _ ns _ _) = ns"
| "GetNamespace (PatchAction _ ns _ _ _) = ns"

fun GetSubresource :: "fake_action \<Rightarrow> string" where
  "GetSubresource (PatchAction _ _ _ _ sub) = sub"
| "GetSubresource _ = []"

definition action_Matches :: "fake_action \<Rightarrow> string \<Rightarrow> string \<Rightarrow> bool" where
  "action_Matches a verb resource \<longleftrightarrow>
     ToLower verb = ToLower (GetVerb a) \<and> ToLower resource = ToLower (gvr_Resource (GetResource a))"

definition ExtractFromListOptions :: "parsers \<Rightarrow> ListOptions \<Rightarrow> (selector \<times> string \<times> string) option" where
  "ExtractFromListOptions ps opts =
     (case ps_labels ps (lo_LabelSelector opts) of
        None \<Rightarrow> None
      | Some labelSelector \<Rightarrow>
          (case ps_fields ps (lo_FieldSelector opts) of
             None \<Rightarrow> None
           | Some fieldSelector \<Rightarrow> Some (labelSelector, fieldSelector, lo_ResourceVersion opts)))"

section \<open>The object tracker\<close>

datatype watch_event = EvAdded MemcachedProxy | EvModified MemcachedProxy | EvDeleted MemcachedProxy

record tracker =
  tr_scheme :: scheme
  tr_objects :: "(GroupVersionResource \<times> MemcachedProxy list) list"
  tr_watchers :: "(GroupVersionResource \<times> string \<times> watch_event list) list"

definition NewObjectTracker :: "scheme \<Rightarrow> tracker" where
  "NewObjectTracker s = \<lparr>tr_scheme = s, tr_objects = [], tr_watchers = []\<rparr>"

definition tr_objs :: "tracker \<Rightarrow> GroupVersionResource \<Rightarrow> MemcachedProxy list" where
  "tr_objs t gvr = (case map_of (tr_objects t) gvr of None \<Rightarrow> [] | Some objs \<Rightarrow> objs)"

definition tr_put :: "GroupVersionResource \<Rightarrow> MemcachedProxy list \<Rightarrow> tracker \<Rightarrow> tracker" where
  "tr_put gvr objs t = t\<lparr>tr_objects := map_put gvr objs (tr_objects t)\<rparr>"

definition notify :: "GroupVersionResource \<Rightarrow> string \<Rightarrow> watch_event \<Rightarrow> tracker \<Rightarrow> tracker" where
  \<comment> \<open>\<open>for _, w := range t.getWatches(gvr, ns)\<close>: the watchers of the namespace, then those of all namespaces\<close>
  "notify gvr ns ev t =
     t\<lparr>tr_watchers := map (\<lambda>(g, n, evs).
         (g, n, if g = gvr then evs @ (if n = ns then [ev] else []) @ (if n = [] then [ev] else []) else evs)) (tr_watchers t)\<rparr>"

definition filterByNamespaceAndName :: "MemcachedProxy list \<Rightarrow> string \<Rightarrow> string \<Rightarrow> MemcachedProxy list" where
  "filterByNamespaceAndName objs ns name =
     filter (\<lambda>p. \<not> (ns \<noteq> [] \<and> om_Namespace (mp_Meta p) \<noteq> ns) \<and> \<not> (name \<noteq> [] \<and> om_Name (mp_Meta p) \<noteq> name)) objs"

definition GroupResourceString :: "GroupVersionResource \<Rightarrow> string" where
  "GroupResourceString gvr = (if gvr_Group gvr = [] then gvr_Resource gvr else gvr_Resource gvr @ ''.'' @ gvr_Group gvr)"

definition NewAlreadyExists :: "string \<Rightarrow> string \<Rightarrow> go_error" where
  "NewAlreadyExists resource name =
     StatusError StatusReasonAlreadyExists (resource @ '' '' @ Quote name @ '' already exists'')"

definition errNotFound :: "GroupVersionResource \<Rightarrow> string \<Rightarrow> go_error" where
  "errNotFound gvr name =
     StatusError StatusReasonNotFound (GroupResourceString gvr @ '' '' @ Quote name @ '' not found'')"

definition tr_Get :: "GroupVersionResource \<Rightarrow> string \<Rightarrow> string \<Rightarrow> tracker \<Rightarrow> go_error + MemcachedProxy" where
  "tr_Get gvr ns name t =
     (case map_of (tr_objects t) gvr of
        None \<Rightarrow> Inl (errNotFound gvr name)
      | Some objs \<Rightarrow>
          (case filterByNamespaceAndName objs ns name of
             [] \<Rightarrow> Inl (errNotFound gvr name)
           | [obj] \<Rightarrow> Inr obj
           | _ \<Rightarrow> Inl (ErrorString (''more than one object matched gvr '' @ gvr_Group gvr @ ''/'' @ gvr_Version gvr
                @ '', Resource='' @ gvr_Resource gvr @ '', ns: '' @ Quote ns @ '' name: '' @ Quote name))))"

definition list_kind :: "GroupVersionKind \<Rightarrow> GroupVersionKind" where
  "list_kind gvk =
     (let l = gvk\<lparr>gvk_Kind := gvk_Kind gvk @ ''List''\<rparr>
      in if gvk_Version l = [] then l\<lparr>gvk_Version := ''__internal''\<rparr> else l)"

definition tr_List :: "GroupVersionResource \<Rightarrow> GroupVersionKind \<Rightarrow> string \<Rightarrow> tracker \<Rightarrow> go_error + MemcachedProxyList" where
  \<comment> \<open>the one type of this scheme that has a field \<open>Items\<close> is the list of proxies\<close>
  "tr_List gvr gvk ns t =
     (case scheme_New (tr_scheme t) (list_kind gvk) of
        None \<Rightarrow> Inl (ErrorString (''no kind '' @ Quote (gvk_Kind (list_kind gvk)) @ '' is registered''))
      | Some ty \<Rightarrow>
          if ty \<noteq> api_type ''MemcachedProxyList'' then Inl (ErrorString (Quote (gvk_Kind (list_kind gvk)) @ '' is not a list type''))
          else (case map_of (tr_objects t) gvr of
                  None \<Rightarrow> Inr zero_list
                | Some objs \<Rightarrow> Inr (zero_list\<lparr>ml_Items := Some (filterByNamespaceAndName objs ns [])\<rparr>)))"

definition tr_Watch :: "GroupVersionResource \<Rightarrow> string \<Rightarrow> tracker \<Rightarrow> nat \<times> tracker" where
  \<comment> \<open>the watcher is its position in the list\<close>
  "tr_Watch gvr ns t = (length (tr_watchers t), t\<lparr>tr_watchers := tr_watchers t @ [(gvr, ns, [])]\<rparr>)"

definition same_object :: "MemcachedProxy \<Rightarrow> MemcachedProxy \<Rightarrow> bool" where
  "same_object p q \<longleftrightarrow> om_Namespace (mp_Meta p) = om_Namespace (mp_Meta q) \<and> om_Name (mp_Meta p) = om_Name (mp_Meta q)"

fun replace_first :: "('a \<Rightarrow> bool) \<Rightarrow> 'a \<Rightarrow> 'a list \<Rightarrow> 'a list" where
  "replace_first P y [] = []"
| "replace_first P y (x # xs) = (if P x then y # xs else x # replace_first P y xs)"

fun remove_first :: "('a \<Rightarrow> bool) \<Rightarrow> 'a list \<Rightarrow> 'a list" where
  "remove_first P [] = []"
| "remove_first P (x # xs) = (if P x then xs else x # remove_first P xs)"

definition in_namespace :: "string \<Rightarrow> MemcachedProxy \<Rightarrow> MemcachedProxy" where
  \<comment> \<open>propagates the namespace to an object that has none\<close>
  "in_namespace ns p =
     (if om_Namespace (mp_Meta p) = [] then p\<lparr>mp_Meta := (mp_Meta p)\<lparr>om_Namespace := ns\<rparr>\<rparr> else p)"

definition tr_add :: "GroupVersionResource \<Rightarrow> MemcachedProxy \<Rightarrow> string \<Rightarrow> bool \<Rightarrow> tracker \<Rightarrow> go_error option \<times> tracker" where
  "tr_add gvr obj0 ns replaceExisting t =
     (let obj = in_namespace ns obj0; name = om_Name (mp_Meta obj); objs = tr_objs t gvr in
      if ns \<noteq> om_Namespace (mp_Meta obj) then
        (Some (StatusError StatusReasonBadRequest
           (''request namespace does not match object namespace, request: '' @ Quote ns @ '' object: ''
             @ Quote (om_Namespace (mp_Meta obj)))), t)
      else if list_ex (\<lambda>old. same_object old obj) objs then
        (if replaceExisting
         then (None, tr_put gvr (replace_first (\<lambda>old. same_object old obj) obj objs) (notify gvr ns (EvModified obj) t))
         else (Some (NewAlreadyExists (GroupResourceString gvr) name), t))
      else if replaceExisting then (Some (errNotFound gvr name), t)
      else (None, notify gvr ns (EvAdded obj) (tr_put gvr (objs @ [obj]) t)))"

definition tr_Create :: "GroupVersionResource \<Rightarrow> MemcachedProxy \<Rightarrow> string \<Rightarrow> tracker \<Rightarrow> go_error option \<times> tracker" where
  "tr_Create gvr obj ns = tr_add gvr obj ns False"

definition tr_Update :: "GroupVersionResource \<Rightarrow> MemcachedProxy \<Rightarrow> string \<Rightarrow> tracker \<Rightarrow> go_error option \<times> tracker" where
  "tr_Update gvr obj ns = tr_add gvr obj ns True"

definition tr_Delete :: "GroupVersionResource \<Rightarrow> string \<Rightarrow> string \<Rightarrow> tracker \<Rightarrow> go_error option \<times> tracker" where
  "tr_Delete gvr ns name t =
     (let P = (\<lambda>p. om_Namespace (mp_Meta p) = ns \<and> om_Name (mp_Meta p) = name); objs = tr_objs t gvr in
      case find P objs of
        None \<Rightarrow> (Some (errNotFound gvr name), t)
      | Some obj \<Rightarrow> (None, notify gvr ns (EvDeleted obj) (tr_put gvr (remove_first P objs) t)))"

text \<open>Adding objects when the clientset is made: the resource is guessed from the kind.\<close>

definition UnsafeGuessKindToResource :: "GroupVersionKind \<Rightarrow> GroupVersionResource" where
  "UnsafeGuessKindToResource kind =
     (let singularName = ToLower (gvk_Kind kind); gvr = (\<lambda>r. \<lparr>gvr_Group = gvk_Group kind, gvr_Version = gvk_Version kind, gvr_Resource = r\<rparr>) in
      if gvk_Kind kind = [] then \<lparr>gvr_Group = [], gvr_Version = [], gvr_Resource = []\<rparr>
      else if take 9 (rev singularName) = rev ''endpoints'' then gvr singularName
      else if last singularName = CHR ''s'' then gvr (singularName @ ''es'')
      else if last singularName = CHR ''y'' then gvr (butlast singularName @ ''ies'')
      else gvr (singularName @ ''s''))"

fun add_kinds :: "GroupVersionKind list \<Rightarrow> MemcachedProxy \<Rightarrow> tracker \<Rightarrow> go_error option \<times> tracker" where
  "add_kinds [] p t = (None, t)"
| "add_kinds (gvk # gvks) p t =
     (let gvr0 = UnsafeGuessKindToResource gvk;
          gvr = (if gvr_Version gvr0 = ''__internal'' then gvr0\<lparr>gvr_Version := []\<rparr> else gvr0)
      in case tr_add gvr p (om_Namespace (mp_Meta p)) False t of
           (Some err, t1) \<Rightarrow> (Some err, t1)
         | (None, t1) \<Rightarrow> add_kinds gvks p t1)"

definition add_proxy :: "MemcachedProxy \<Rightarrow> tracker \<Rightarrow> go_error option \<times> tracker" where
  "add_proxy p t =
     (case ObjectKinds (tr_scheme t) (api_type ''MemcachedProxy'') of
        None \<Rightarrow> (Some (ErrorString ''no kind is registered for the type v1alpha1.MemcachedProxy''), t)
      | Some [] \<Rightarrow> (Some (ErrorString ''no registered kinds''), t)
      | Some gvks \<Rightarrow> add_kinds gvks p t)"

fun add_each :: "MemcachedProxy list \<Rightarrow> tracker \<Rightarrow> go_error option \<times> tracker" where
  \<comment> \<open>\<open>addList\<close>\<close>
  "add_each [] t = (None, t)"
| "add_each (p # ps) t = (case add_proxy p t of (Some err, t1) \<Rightarrow> (Some err, t1) | (None, t1) \<Rightarrow> add_each ps t1)"

fun tr_Add :: "runtime_object \<Rightarrow> tracker \<Rightarrow> go_error option \<times> tracker" where
  "tr_Add (ProxyObject p) t = add_proxy p t"
| "tr_Add (ListObject l) t = add_each (elems (ml_Items l)) t"

section \<open>The tracker as a map\<close>

text \<open>
  \<open>tr_map\<close> is the content of a tracker for one resource. It is a map as long as no two objects have the same namespace and name, which
  is the invariant.
\<close>

definition obj_key :: "MemcachedProxy \<Rightarrow> string \<times> string" where
  "obj_key p = (om_Namespace (mp_Meta p), om_Name (mp_Meta p))"

definition tr_inv :: "tracker \<Rightarrow> bool" where
  "tr_inv t \<longleftrightarrow> (\<forall>gvr. distinct (map obj_key (tr_objs t gvr)))"

definition tr_map :: "tracker \<Rightarrow> GroupVersionResource \<Rightarrow> (string \<times> string) \<rightharpoonup> MemcachedProxy" where
  "tr_map t gvr = map_of (map (\<lambda>p. (obj_key p, p)) (tr_objs t gvr))"

lemma tr_objs_put [simp]: "tr_objs (tr_put gvr objs t) g = (if g = gvr then objs else tr_objs t g)"
  by (simp add: tr_objs_def tr_put_def)

lemma tr_objs_notify [simp]: "tr_objs (notify gvr ns ev t) g = tr_objs t g"
  by (simp add: tr_objs_def notify_def)

lemma tr_scheme_simps [simp]:
  "tr_scheme (tr_put gvr objs t) = tr_scheme t" "tr_scheme (notify gvr ns ev t) = tr_scheme t"
  by (simp_all add: tr_put_def notify_def)

lemma same_object_key: "same_object p q \<longleftrightarrow> obj_key p = obj_key q"
  by (simp add: same_object_def obj_key_def)

lemma map_of_keys_None: "map_of (map (\<lambda>p. (f p, p)) ps) k = None \<longleftrightarrow> k \<notin> f ` set ps"
  by (auto simp: map_of_eq_None_iff image_image)

lemma map_of_keys_Some:
  "distinct (map f ps) \<Longrightarrow> map_of (map (\<lambda>p. (f p, p)) ps) k = Some p \<longleftrightarrow> p \<in> set ps \<and> f p = k"
  by (subst map_of_eq_Some_iff) (auto simp: comp_def)

lemma tr_map_None: "tr_map t gvr k = None \<longleftrightarrow> k \<notin> obj_key ` set (tr_objs t gvr)"
  by (simp add: tr_map_def map_of_keys_None)

lemma tr_map_Some: "tr_inv t \<Longrightarrow> tr_map t gvr k = Some p \<longleftrightarrow> p \<in> set (tr_objs t gvr) \<and> obj_key p = k"
  by (simp add: tr_map_def tr_inv_def map_of_keys_Some)

text \<open>Replacing and removing the object of a key.\<close>

lemma replace_first_keys:
  "map obj_key (replace_first (\<lambda>old. obj_key old = obj_key p) p ps) = map obj_key ps"
  by (induction "\<lambda>old. obj_key old = obj_key p" p ps rule: replace_first.induct) auto

lemma replace_first_map:
  assumes "obj_key p \<in> obj_key ` set ps"
  shows "map_of (map (\<lambda>q. (obj_key q, q)) (replace_first (\<lambda>old. obj_key old = obj_key p) p ps))
    = (map_of (map (\<lambda>q. (obj_key q, q)) ps))(obj_key p \<mapsto> p)"
  using assms
proof (induction ps)
  case (Cons q ps)
  show ?case
  proof (cases "obj_key q = obj_key p")
    case False
    then have "obj_key p \<in> obj_key ` set ps" using Cons.prems by auto
    note IH = fun_cong [OF Cons.IH [OF this]]
    show ?thesis
    proof
      fix k
      show "map_of (map (\<lambda>q. (obj_key q, q)) (replace_first (\<lambda>old. obj_key old = obj_key p) p (q # ps))) k
        = ((map_of (map (\<lambda>q. (obj_key q, q)) (q # ps)))(obj_key p \<mapsto> p)) k"
        using IH [of k] False by (cases "k = obj_key q") simp_all
    qed
  qed (simp add: fun_eq_iff)
qed simp

lemma remove_first_distinct: "distinct (map obj_key ps) \<Longrightarrow> distinct (map obj_key (remove_first P ps)) \<and> set (remove_first P ps) \<subseteq> set ps"
  by (induction P ps rule: remove_first.induct) auto

lemma remove_first_map:
  "distinct (map obj_key ps) \<Longrightarrow> map_of (map (\<lambda>q. (obj_key q, q)) (remove_first (\<lambda>q. obj_key q = k) ps))
     = (map_of (map (\<lambda>q. (obj_key q, q)) ps))(k := None)"
proof (induction ps)
  case (Cons p ps)
  show ?case
  proof (cases "obj_key p = k")
    case True
    then have "map_of (map (\<lambda>q. (obj_key q, q)) ps) k = None" using Cons.prems by (simp add: map_of_keys_None)
    then show ?thesis using True by (auto simp: fun_eq_iff)
  qed (use Cons in \<open>auto simp: fun_eq_iff\<close>)
qed simp

lemma filter_unique_key:
  "distinct (map f ps) \<Longrightarrow> p \<in> set ps \<Longrightarrow> f p = k \<Longrightarrow> filter (\<lambda>q. f q = k) ps = [p]"
proof (induction ps)
  case (Cons q ps)
  show ?case
  proof (cases "q = p")
    case True
    then have "filter (\<lambda>r. f r = k) ps = []" using Cons.prems by (auto simp: filter_empty_conv image_iff)
    then show ?thesis using True Cons.prems by simp
  next
    case False
    then have "p \<in> set ps" using Cons.prems(2) by simp
    moreover from this have "f q \<noteq> k" using Cons.prems by force
    ultimately show ?thesis using Cons by simp
  qed
qed simp

text \<open>The operations, on the map.\<close>

lemma key_iff: "om_Namespace (mp_Meta p) = ns \<and> om_Name (mp_Meta p) = name \<longleftrightarrow> obj_key p = (ns, name)"
  by (simp add: obj_key_def)

lemma tr_Get_map:
  assumes "tr_inv t" and "ns \<noteq> []" and "name \<noteq> []"
  shows "tr_Get gvr ns name t = (case tr_map t gvr (ns, name) of None \<Rightarrow> Inl (errNotFound gvr name) | Some p \<Rightarrow> Inr p)"
proof -
  let ?objs = "tr_objs t gvr"
  have filter: "filterByNamespaceAndName ?objs ns name = filter (\<lambda>p. obj_key p = (ns, name)) ?objs"
    using assms(2,3) by (auto simp: filterByNamespaceAndName_def key_iff [symmetric] intro!: filter_cong)
  have get: "tr_Get gvr ns name t = (case filter (\<lambda>p. obj_key p = (ns, name)) ?objs of
      [] \<Rightarrow> Inl (errNotFound gvr name) | [obj] \<Rightarrow> Inr obj | _ \<Rightarrow> tr_Get gvr ns name t)"
    using filter by (auto simp: tr_Get_def tr_objs_def split: option.splits list.splits)
  show ?thesis
  proof (cases "tr_map t gvr (ns, name)")
    case None
    then have "filter (\<lambda>p. obj_key p = (ns, name)) ?objs = []" by (force simp: tr_map_None filter_empty_conv)
    then show ?thesis using get None by simp
  next
    case (Some p)
    then have p: "p \<in> set ?objs" "obj_key p = (ns, name)" using tr_map_Some [OF assms(1)] by blast+
    have "distinct (map obj_key ?objs)" using assms(1) by (simp add: tr_inv_def)
    then have "filter (\<lambda>q. obj_key q = (ns, name)) ?objs = [p]" by (rule filter_unique_key) (use p in auto)
    then show ?thesis using get Some by simp
  qed
qed

lemma tr_add_map:
  assumes "tr_inv t" and "om_Namespace (mp_Meta (in_namespace ns p)) = ns"
  defines "q \<equiv> in_namespace ns p"
  shows "fst (tr_add gvr p ns replaceExisting t) =
      (if tr_map t gvr (obj_key q) \<noteq> None \<and> \<not> replaceExisting then
         Some (NewAlreadyExists (GroupResourceString gvr) (om_Name (mp_Meta q)))
       else if tr_map t gvr (obj_key q) = None \<and> replaceExisting then Some (errNotFound gvr (om_Name (mp_Meta q)))
       else None)"
    and "fst (tr_add gvr p ns replaceExisting t) \<noteq> None \<Longrightarrow> snd (tr_add gvr p ns replaceExisting t) = t"
    and "tr_inv (snd (tr_add gvr p ns replaceExisting t))"
    and "fst (tr_add gvr p ns replaceExisting t) = None \<Longrightarrow>
      tr_map (snd (tr_add gvr p ns replaceExisting t)) g = (if g = gvr then (tr_map t gvr)(obj_key q \<mapsto> q) else tr_map t g)"
proof -
  let ?objs = "tr_objs t gvr"
  have ex: "list_ex (\<lambda>old. same_object old q) ?objs \<longleftrightarrow> tr_map t gvr (obj_key q) \<noteq> None"
    by (auto simp: list_ex_iff same_object_key tr_map_None image_iff) (metis)+
  have add: "tr_add gvr p ns replaceExisting t =
      (if tr_map t gvr (obj_key q) \<noteq> None then
        (if replaceExisting
         then (None, tr_put gvr (replace_first (\<lambda>old. obj_key old = obj_key q) q ?objs) (notify gvr ns (EvModified q) t))
         else (Some (NewAlreadyExists (GroupResourceString gvr) (om_Name (mp_Meta q))), t))
      else if replaceExisting then (Some (errNotFound gvr (om_Name (mp_Meta q))), t)
      else (None, notify gvr ns (EvAdded q) (tr_put gvr (?objs @ [q]) t)))"
    using assms(2) ex unfolding tr_add_def q_def [symmetric] Let_def by (simp add: same_object_key)
  show "fst (tr_add gvr p ns replaceExisting t) =
      (if tr_map t gvr (obj_key q) \<noteq> None \<and> \<not> replaceExisting then
         Some (NewAlreadyExists (GroupResourceString gvr) (om_Name (mp_Meta q)))
       else if tr_map t gvr (obj_key q) = None \<and> replaceExisting then Some (errNotFound gvr (om_Name (mp_Meta q)))
       else None)"
    unfolding add by simp
  show "fst (tr_add gvr p ns replaceExisting t) \<noteq> None \<Longrightarrow> snd (tr_add gvr p ns replaceExisting t) = t"
    unfolding add by (simp split: if_splits)
  show "tr_inv (snd (tr_add gvr p ns replaceExisting t))"
    using assms(1) tr_map_None [of t gvr "obj_key q"] unfolding add by (auto simp: tr_inv_def replace_first_keys)
  show "fst (tr_add gvr p ns replaceExisting t) = None \<Longrightarrow>
      tr_map (snd (tr_add gvr p ns replaceExisting t)) g = (if g = gvr then (tr_map t gvr)(obj_key q \<mapsto> q) else tr_map t g)"
    using tr_map_None [of t gvr "obj_key q"] unfolding add
    by (auto simp: tr_map_def replace_first_map map_add_def fun_eq_iff split: if_splits option.splits)
qed

lemma tr_Delete_map:
  assumes "tr_inv t"
  shows "fst (tr_Delete gvr ns name t) = (if tr_map t gvr (ns, name) = None then Some (errNotFound gvr name) else None)"
    and "tr_inv (snd (tr_Delete gvr ns name t))"
    and "tr_map (snd (tr_Delete gvr ns name t)) g = (if g = gvr then (tr_map t gvr)((ns, name) := None) else tr_map t g)"
proof -
  let ?objs = "tr_objs t gvr"
  have dist: "distinct (map obj_key ?objs)" using assms by (simp add: tr_inv_def)
  have del: "tr_Delete gvr ns name t = (case find (\<lambda>p. obj_key p = (ns, name)) ?objs of
      None \<Rightarrow> (Some (errNotFound gvr name), t)
    | Some obj \<Rightarrow> (None, notify gvr ns (EvDeleted obj) (tr_put gvr (remove_first (\<lambda>p. obj_key p = (ns, name)) ?objs) t)))"
    by (simp add: tr_Delete_def key_iff Let_def)
  have found: "find (\<lambda>p. obj_key p = (ns, name)) ?objs = None \<longleftrightarrow> tr_map t gvr (ns, name) = None"
    by (force simp: find_None_iff tr_map_None)
  show "fst (tr_Delete gvr ns name t) = (if tr_map t gvr (ns, name) = None then Some (errNotFound gvr name) else None)"
    using found unfolding del by (cases "find (\<lambda>p. obj_key p = (ns, name)) ?objs") auto
  show "tr_inv (snd (tr_Delete gvr ns name t))"
    using assms remove_first_distinct unfolding del by (simp add: tr_inv_def split: option.split)
  show "tr_map (snd (tr_Delete gvr ns name t)) g = (if g = gvr then (tr_map t gvr)((ns, name) := None) else tr_map t g)"
    using found remove_first_map [OF dist] unfolding del by (auto simp: tr_map_def split: option.split)
qed

end
