(* ===== verification/FakeClient.thy ===== *)
theory FakeClient
  imports ObjectTracker
begin

text \<open>
  The generated fake clientset, which the tests of the controllers run against: internal/client/clientset/versioned/fake and
  typed/ianlewis.org/v1alpha1/fake (typed/ianlewis/v1alpha1/fake has the same text), with the reaction chain of
  vendor/k8s.io/client-go/testing/fake.go. The tests mean something only if this client behaves like a store of objects; the theorems
  say in what respect it does, and in what it does not.
\<close>

section \<open>The reaction chain\<close>

type_synonym reaction = "fake_action \<Rightarrow> tracker \<Rightarrow> (bool \<times> runtime_object option \<times> go_error option) \<times> tracker"
type_synonym watch_react = "fake_action \<Rightarrow> tracker \<Rightarrow> (bool \<times> nat option \<times> go_error option) \<times> tracker"

record 'r reactor =
  re_Verb :: string
  re_Resource :: string
  re_Reaction :: 'r

record fake =
  fk_actions :: "fake_action list"
  fk_ReactionChain :: "reaction reactor list"
  fk_WatchReactionChain :: "watch_react reactor list"
  fk_tracker :: tracker

definition Handles :: "'r reactor \<Rightarrow> fake_action \<Rightarrow> bool" where
  "Handles r a \<longleftrightarrow> (re_Verb r = ''*'' \<or> re_Verb r = GetVerb a)
     \<and> (re_Resource r = ''*'' \<or> re_Resource r = gvr_Resource (GetResource a))"

fun react ::
  "(fake_action \<Rightarrow> tracker \<Rightarrow> (bool \<times> 'a \<times> 'b) \<times> tracker) reactor list \<Rightarrow> fake_action \<Rightarrow> 'a \<times> 'b \<Rightarrow> tracker
     \<Rightarrow> ('a \<times> 'b) \<times> tracker"
where
  \<comment> \<open>the loop of \<open>Invokes\<close> and of \<open>InvokesWatch\<close>\<close>
  "react [] a dflt t = (dflt, t)"
| "react (r # rs) a dflt t =
     (if \<not> Handles r a then react rs a dflt t
      else (case re_Reaction r a t of
              ((handled, ret, err), t1) \<Rightarrow> if handled then ((ret, err), t1) else react rs a dflt t1))"

definition Invokes :: "fake_action \<Rightarrow> runtime_object \<Rightarrow> fake \<Rightarrow> (runtime_object option \<times> go_error option) \<times> fake" where
  "Invokes a defaultReturnObj st =
     (case react (fk_ReactionChain st) a (Some defaultReturnObj, None) (fk_tracker st) of
        (res, t) \<Rightarrow> (res, st\<lparr>fk_actions := fk_actions st @ [a], fk_tracker := t\<rparr>))"

definition InvokesWatch :: "fake_action \<Rightarrow> fake \<Rightarrow> (nat option \<times> go_error option) \<times> fake" where
  "InvokesWatch a st =
     (case react (fk_WatchReactionChain st) a (None, Some (ErrorString ''unhandled watch'')) (fk_tracker st) of
        (res, t) \<Rightarrow> (res, st\<lparr>fk_actions := fk_actions st @ [a], fk_tracker := t\<rparr>))"

definition stored :: "go_error option \<times> tracker \<Rightarrow> GroupVersionResource \<Rightarrow> string \<Rightarrow> string
    \<Rightarrow> (bool \<times> runtime_object option \<times> go_error option) \<times> tracker" where
  \<comment> \<open>what a create or an update returns: its error, or the object read back\<close>
  "stored res gvr ns name =
     (case res of
        (Some err, t) \<Rightarrow> ((True, None, Some err), t)
      | (None, t) \<Rightarrow>
          (case tr_Get gvr ns name t of
             Inl err \<Rightarrow> ((True, None, Some err), t)
           | Inr obj \<Rightarrow> ((True, Some (ProxyObject obj), None), t)))"

fun ObjectReaction :: reaction where
  "ObjectReaction (ListAction gvr gvk ns _) t =
     (case tr_List gvr gvk ns t of
        Inl err \<Rightarrow> ((True, None, Some err), t)
      | Inr l \<Rightarrow> ((True, Some (ListObject l), None), t))"
| "ObjectReaction (GetAction gvr ns name) t =
     (case tr_Get gvr ns name t of
        Inl err \<Rightarrow> ((True, None, Some err), t)
      | Inr obj \<Rightarrow> ((True, Some (ProxyObject obj), None), t))"
| "ObjectReaction (CreateAction gvr ns obj) t = stored (tr_Create gvr obj ns t) gvr ns (om_Name (mp_Meta obj))"
| "ObjectReaction (UpdateAction gvr ns obj) t = stored (tr_Update gvr obj ns t) gvr ns (om_Name (mp_Meta obj))"
| "ObjectReaction (DeleteAction gvr ns name) t = (case tr_Delete gvr ns name t of (err, t1) \<Rightarrow> ((True, None, err), t1))"
| "ObjectReaction a t = ((False, None, Some (ErrorString (''no reaction implemented for '' @ GetVerb a))), t)"

section \<open>The fake clientset\<close>

definition watch_reaction :: watch_react where
  \<comment> \<open>the function given to \<open>AddWatchReactor\<close>\<close>
  "watch_reaction a t = (case tr_Watch (GetResource a) (GetNamespace a) t of (w, t1) \<Rightarrow> ((True, Some w, None), t1))"

fun add_objects :: "runtime_object list \<Rightarrow> tracker \<Rightarrow> tracker option" where
  \<comment> \<open>the loop of \<open>NewSimpleClientset\<close>; \<open>None\<close>: it panics\<close>
  "add_objects [] t = Some t"
| "add_objects (obj # objs) t = (case tr_Add obj t of (Some err, _) \<Rightarrow> None | (None, t1) \<Rightarrow> add_objects objs t1)"

definition new_fake :: "tracker \<Rightarrow> fake" where
  \<comment> \<open>\<open>fakePtr\<close> with the reactors that \<open>NewSimpleClientset\<close> adds\<close>
  "new_fake t =
     \<lparr>fk_actions = [],
      fk_ReactionChain = [\<lparr>re_Verb = ''*'', re_Resource = ''*'', re_Reaction = ObjectReaction\<rparr>],
      fk_WatchReactionChain = [\<lparr>re_Verb = ''*'', re_Resource = ''*'', re_Reaction = watch_reaction\<rparr>],
      fk_tracker = t\<rparr>"

definition NewSimpleClientset :: "runtime_object list \<Rightarrow> fake option" where
  "NewSimpleClientset objs =
     (case fake_scheme_init of
        None \<Rightarrow> None
      | Some s \<Rightarrow>
          (case add_objects objs (NewObjectTracker s) of
             None \<Rightarrow> None
           | Some t \<Rightarrow> Some (new_fake t)))"

record FakeMemcachedProxies =
  fm_ns :: string

definition fake_MemcachedProxies :: "string \<Rightarrow> FakeMemcachedProxies" where
  "fake_MemcachedProxies ns = \<lparr>fm_ns = ns\<rparr>"

section \<open>The operations\<close>

fun as_proxy :: "runtime_object option \<times> go_error option \<Rightarrow> (MemcachedProxy option \<times> go_error option) option" where
  \<comment> \<open>\<open>if obj == nil { return nil, err }; return obj.(*v1alpha1.MemcachedProxy), err\<close>; \<open>None\<close>: the assertion panics\<close>
  "as_proxy (None, err) = Some (None, err)"
| "as_proxy (Some (ProxyObject p), err) = Some (Some p, err)"
| "as_proxy (Some (ListObject l), err) = None"

definition fake_Get ::
  "FakeMemcachedProxies \<Rightarrow> string \<Rightarrow> string \<Rightarrow> fake \<Rightarrow> (MemcachedProxy option \<times> go_error option) option \<times> fake" where
  "fake_Get c name options st =
     (case Invokes (GetAction memcachedproxiesResource (fm_ns c) name) (ProxyObject zero_proxy) st of
        (res, st1) \<Rightarrow> (as_proxy res, st1))"

definition fake_Create ::
  "FakeMemcachedProxies \<Rightarrow> MemcachedProxy \<Rightarrow> fake \<Rightarrow> (MemcachedProxy option \<times> go_error option) option \<times> fake" where
  "fake_Create c p st =
     (case Invokes (CreateAction memcachedproxiesResource (fm_ns c) p) (ProxyObject zero_proxy) st of
        (res, st1) \<Rightarrow> (as_proxy res, st1))"

definition fake_Update ::
  "FakeMemcachedProxies \<Rightarrow> MemcachedProxy \<Rightarrow> fake \<Rightarrow> (MemcachedProxy option \<times> go_error option) option \<times> fake" where
  "fake_Update c p st =
     (case Invokes (UpdateAction memcachedproxiesResource (fm_ns c) p) (ProxyObject zero_proxy) st of
        (res, st1) \<Rightarrow> (as_proxy res, st1))"

definition fake_Delete :: "FakeMemcachedProxies \<Rightarrow> string \<Rightarrow> string option \<Rightarrow> fake \<Rightarrow> go_error option \<times> fake" where
  "fake_Delete c name options st =
     (case Invokes (DeleteAction memcachedproxiesResource (fm_ns c) name) (ProxyObject zero_proxy) st of
        (res, st1) \<Rightarrow> (snd res, st1))"

definition fake_DeleteCollection ::
  "parsers \<Rightarrow> FakeMemcachedProxies \<Rightarrow> string option \<Rightarrow> ListOptions \<Rightarrow> fake \<Rightarrow> (go_error option \<times> fake) option" where
  "fake_DeleteCollection ps c options listOptions st =
     (case ExtractFromListOptions ps listOptions of
        None \<Rightarrow> None
      | Some (label, field, _) \<Rightarrow>
          (case Invokes (DeleteCollectionAction memcachedproxiesResource (fm_ns c) (Restrictions label field)) (ListObject zero_list) st of
             (res, st1) \<Rightarrow> Some (snd res, st1)))"

definition fake_Patch ::
  "FakeMemcachedProxies \<Rightarrow> string \<Rightarrow> string \<Rightarrow> string \<Rightarrow> string list \<Rightarrow> fake
     \<Rightarrow> (MemcachedProxy option \<times> go_error option) option \<times> fake" where
  "fake_Patch c name pt data subresources st =
     (case Invokes (PatchAction memcachedproxiesResource (fm_ns c) name data (path_Join subresources)) (ProxyObject zero_proxy) st of
        (res, st1) \<Rightarrow> (as_proxy res, st1))"

definition fake_Watch :: "parsers \<Rightarrow> FakeMemcachedProxies \<Rightarrow> ListOptions \<Rightarrow> fake \<Rightarrow> ((nat option \<times> go_error option) \<times> fake) option" where
  "fake_Watch ps c opts st =
     (case ExtractFromListOptions ps opts of
        None \<Rightarrow> None
      | Some (label, field, rv) \<Rightarrow>
          Some (InvokesWatch (WatchAction memcachedproxiesResource (fm_ns c) (Restrictions label field) rv) st))"

fun append_items :: "selector \<Rightarrow> MemcachedProxy list \<Rightarrow> MemcachedProxyList \<Rightarrow> MemcachedProxyList" where
  \<comment> \<open>the loop of \<open>List\<close>\<close>
  "append_items label [] l = l"
| "append_items label (item # items) l =
     append_items label items
       (if Matches label (om_Labels (mp_Meta item)) then l\<lparr>ml_Items := append_slice (ml_Items l) [item]\<rparr> else l)"

definition fake_List ::
  "parsers \<Rightarrow> FakeMemcachedProxies \<Rightarrow> ListOptions \<Rightarrow> fake \<Rightarrow> ((MemcachedProxyList option \<times> go_error option) \<times> fake) option" where
  \<comment> \<open>\<open>None\<close>: a panic, of a selector that cannot be parsed or of the type assertion. The label selector is never nil\<close>
  "fake_List ps c opts st =
     (case ExtractFromListOptions ps opts of
        None \<Rightarrow> None
      | Some (label, field, _) \<Rightarrow>
          (case Invokes (ListAction memcachedproxiesResource memcachedproxiesKind (fm_ns c) (Restrictions label field)) (ListObject zero_list) st of
             ((None, err), st1) \<Rightarrow> Some ((None, err), st1)
           | ((Some (ListObject l), err), st1) \<Rightarrow> Some ((Some (append_items label (elems (ml_Items l)) zero_list), err), st1)
           | ((Some (ProxyObject _), err), st1) \<Rightarrow> None))"

section \<open>What a client of a store may rely on\<close>

text \<open>
  The contract of a store of named objects, as the code that uses a clientset sees it: \<open>content\<close> is a map, and every operation
  answers and changes it as one does with a map. The laws are for namespaces and names that are not empty.
\<close>

definition proper :: "string \<times> string \<Rightarrow> bool" where
  "proper k \<longleftrightarrow> fst k \<noteq> [] \<and> snd k \<noteq> []"

locale proxy_store =
  fixes get :: "string \<times> string \<Rightarrow> 's \<Rightarrow> go_error + MemcachedProxy"
    and create update :: "MemcachedProxy \<Rightarrow> 's \<Rightarrow> (go_error + MemcachedProxy) \<times> 's"
    and delete :: "string \<times> string \<Rightarrow> 's \<Rightarrow> go_error option \<times> 's"
    and sinv :: "'s \<Rightarrow> bool"
    and content :: "'s \<Rightarrow> (string \<times> string) \<rightharpoonup> MemcachedProxy"
  assumes get_content: "sinv s \<Longrightarrow> proper k \<Longrightarrow>
      (case content s k of None \<Rightarrow> (\<exists>err. get k s = Inl err \<and> IsNotFound err) | Some p \<Rightarrow> get k s = Inr p)"
    and create_new: "sinv s \<Longrightarrow> proper (obj_key p) \<Longrightarrow> content s (obj_key p) = None \<Longrightarrow>
      fst (create p s) = Inr p \<and> sinv (snd (create p s)) \<and> content (snd (create p s)) = (content s)(obj_key p \<mapsto> p)"
    and create_old: "sinv s \<Longrightarrow> proper (obj_key p) \<Longrightarrow> content s (obj_key p) \<noteq> None \<Longrightarrow>
      (\<exists>msg. fst (create p s) = Inl (StatusError StatusReasonAlreadyExists msg)) \<and> sinv (snd (create p s))
      \<and> content (snd (create p s)) = content s"
    and update_old: "sinv s \<Longrightarrow> proper (obj_key p) \<Longrightarrow> content s (obj_key p) \<noteq> None \<Longrightarrow>
      fst (update p s) = Inr p \<and> sinv (snd (update p s)) \<and> content (snd (update p s)) = (content s)(obj_key p \<mapsto> p)"
    and update_new: "sinv s \<Longrightarrow> proper (obj_key p) \<Longrightarrow> content s (obj_key p) = None \<Longrightarrow>
      (\<exists>err. fst (update p s) = Inl err \<and> IsNotFound err) \<and> sinv (snd (update p s)) \<and> content (snd (update p s)) = content s"
    and delete_content: "sinv s \<Longrightarrow> proper k \<Longrightarrow>
      (fst (delete k s) = None \<longleftrightarrow> content s k \<noteq> None) \<and> sinv (snd (delete k s)) \<and> content (snd (delete k s)) = (content s)(k := None)"
begin

lemma get_after_create:
  "sinv s \<Longrightarrow> proper (obj_key p) \<Longrightarrow> content s (obj_key p) = None \<Longrightarrow> get (obj_key p) (snd (create p s)) = Inr p"
  using create_new [of s p] get_content [of "snd (create p s)" "obj_key p"] by simp

lemma get_after_update:
  assumes "sinv s" and "proper (obj_key p)" and "fst (update p s) = Inr q"
  shows "q = p" "get (obj_key p) (snd (update p s)) = Inr p"
proof -
  have known: "content s (obj_key p) \<noteq> None"
    using update_new [OF assms(1,2)] assms(3) by auto
  then show "q = p" using update_old [OF assms(1,2)] assms(3) by simp
  show "get (obj_key p) (snd (update p s)) = Inr p"
    using update_old [OF assms(1,2) known] get_content [of "snd (update p s)" "obj_key p"] assms(2) by simp
qed

lemma get_other_after_update:
  assumes "sinv s" and "proper (obj_key p)" and "proper k" and "k \<noteq> obj_key p" and "get k s = Inr q"
  shows "get k (snd (update p s)) = Inr q"
proof -
  have "content s k = Some q" using get_content [OF assms(1,3)] assms(5) by (cases "content s k") auto
  then have "sinv (snd (update p s)) \<and> content (snd (update p s)) k = Some q"
    using update_old [OF assms(1,2)] update_new [OF assms(1,2)] assms(4) by (cases "content s (obj_key p) = None") auto
  then show ?thesis using get_content [of "snd (update p s)" k] assms(3) by simp
qed

lemma get_after_delete: "sinv s \<Longrightarrow> proper k \<Longrightarrow> \<exists>err. get k (snd (delete k s)) = Inl err \<and> IsNotFound err"
  using delete_content [of s k] get_content [of "snd (delete k s)" k] by simp

end

section \<open>The fake client as a store\<close>

fun as_result :: "(MemcachedProxy option \<times> go_error option) option \<Rightarrow> go_error + MemcachedProxy" where
  "as_result (Some (_, Some err)) = Inl err"
| "as_result (Some (Some p, None)) = Inr p"
| "as_result _ = Inl (ErrorString ''panic'')"

definition store_get :: "string \<times> string \<Rightarrow> fake \<Rightarrow> go_error + MemcachedProxy" where
  "store_get k st = as_result (fst (fake_Get (fake_MemcachedProxies (fst k)) (snd k) [] st))"

definition store_create :: "string \<Rightarrow> MemcachedProxy \<Rightarrow> fake \<Rightarrow> (go_error + MemcachedProxy) \<times> fake" where
  \<comment> \<open>through the client of a namespace, which need not be the one the proxy names\<close>
  "store_create ns p st = map_prod as_result id (fake_Create (fake_MemcachedProxies ns) p st)"

definition store_update :: "string \<Rightarrow> MemcachedProxy \<Rightarrow> fake \<Rightarrow> (go_error + MemcachedProxy) \<times> fake" where
  "store_update ns p st = map_prod as_result id (fake_Update (fake_MemcachedProxies ns) p st)"

definition own_create :: "MemcachedProxy \<Rightarrow> fake \<Rightarrow> (go_error + MemcachedProxy) \<times> fake" where
  "own_create p = store_create (om_Namespace (mp_Meta p)) p"

definition own_update :: "MemcachedProxy \<Rightarrow> fake \<Rightarrow> (go_error + MemcachedProxy) \<times> fake" where
  "own_update p = store_update (om_Namespace (mp_Meta p)) p"

definition store_delete :: "string \<times> string \<Rightarrow> fake \<Rightarrow> go_error option \<times> fake" where
  "store_delete k st = fake_Delete (fake_MemcachedProxies (fst k)) (snd k) None st"

definition fake_inv :: "fake \<Rightarrow> bool" where
  "fake_inv st \<longleftrightarrow> fk_ReactionChain st = [\<lparr>re_Verb = ''*'', re_Resource = ''*'', re_Reaction = ObjectReaction\<rparr>]
     \<and> tr_inv (fk_tracker st)"

definition store_content :: "fake \<Rightarrow> (string \<times> string) \<rightharpoonup> MemcachedProxy" where
  "store_content st = tr_map (fk_tracker st) memcachedproxiesResource"

definition not_found :: "string \<times> string \<Rightarrow> go_error" where
  "not_found k = errNotFound memcachedproxiesResource (snd k)"

definition already_exists :: "string \<times> string \<Rightarrow> go_error" where
  "already_exists k = NewAlreadyExists (GroupResourceString memcachedproxiesResource) (snd k)"

definition wrong_namespace :: "string \<Rightarrow> string \<Rightarrow> go_error" where
  "wrong_namespace ns ns' = StatusError StatusReasonBadRequest
     (''request namespace does not match object namespace, request: '' @ Quote ns @ '' object: '' @ Quote ns')"

lemma IsNotFound_not_found [simp]: "IsNotFound (not_found k)"
  by (simp add: not_found_def errNotFound_def)

lemma Invokes_standard:
  assumes "fake_inv st"
  shows "Invokes a dflt st =
    (let (res, t) = ObjectReaction a (fk_tracker st)
     in (if fst res then snd res else (Some dflt, None), st\<lparr>fk_actions := fk_actions st @ [a], fk_tracker := t\<rparr>))"
  using assms by (simp add: Invokes_def fake_inv_def Handles_def split: prod.split)

lemma store_inv_step: "fake_inv st \<Longrightarrow> tr_inv t \<Longrightarrow> fake_inv (st\<lparr>fk_actions := acts, fk_tracker := t\<rparr>)"
  by (simp add: fake_inv_def)

lemma store_get_map:
  assumes "fake_inv st" and "proper k"
  shows "store_get k st = (case store_content st k of None \<Rightarrow> Inl (not_found k) | Some p \<Rightarrow> Inr p)"
    and "snd (fake_Get (fake_MemcachedProxies (fst k)) (snd k) options st) = st\<lparr>fk_actions := fk_actions st @
      [GetAction memcachedproxiesResource (fst k) (snd k)]\<rparr>"
proof -
  have inv: "tr_inv (fk_tracker st)" using assms(1) by (simp add: fake_inv_def)
  have get: "tr_Get memcachedproxiesResource (fst k) (snd k) (fk_tracker st)
      = (case store_content st k of None \<Rightarrow> Inl (not_found k) | Some p \<Rightarrow> Inr p)"
    using tr_Get_map [OF inv] assms(2) by (simp add: proper_def store_content_def not_found_def split: option.split)
  show "store_get k st = (case store_content st k of None \<Rightarrow> Inl (not_found k) | Some p \<Rightarrow> Inr p)"
    by (simp add: store_get_def fake_Get_def fake_MemcachedProxies_def Invokes_standard [OF assms(1)] get split: option.split)
  show "snd (fake_Get (fake_MemcachedProxies (fst k)) (snd k) options st) = st\<lparr>fk_actions := fk_actions st @
      [GetAction memcachedproxiesResource (fst k) (snd k)]\<rparr>"
    by (simp add: fake_Get_def fake_MemcachedProxies_def Invokes_standard [OF assms(1)] get split: option.split)
qed

lemma store_add_map:
  fixes replaceExisting :: bool
  assumes "fake_inv st" and "proper (ns, om_Name (mp_Meta p))"
  defines "k \<equiv> (ns, om_Name (mp_Meta p))" and "q \<equiv> in_namespace ns p"
    and "res \<equiv> (if replaceExisting then store_update ns p st else store_create ns p st)"
  shows "fst res = (if om_Namespace (mp_Meta q) \<noteq> ns then Inl (wrong_namespace ns (om_Namespace (mp_Meta q)))
      else if store_content st k \<noteq> None \<and> \<not> replaceExisting then Inl (already_exists k)
      else if store_content st k = None \<and> replaceExisting then Inl (not_found k) else Inr q)"
    and "fake_inv (snd res)"
    and "store_content (snd res) = (if isl (fst res) then store_content st else (store_content st)(k \<mapsto> q))"
proof -
  let ?gvr = memcachedproxiesResource and ?t = "fk_tracker st"
  let ?add = "tr_add ?gvr p ns replaceExisting ?t"
  let ?a = "(if replaceExisting then UpdateAction else CreateAction) ?gvr ns p"
  have inv: "tr_inv ?t" using assms(1) by (simp add: fake_inv_def)
  have name: "om_Name (mp_Meta q) = om_Name (mp_Meta p)" by (simp add: q_def in_namespace_def)
  have react: "ObjectReaction ?a ?t = stored ?add ?gvr ns (om_Name (mp_Meta p))"
    by (simp add: tr_Create_def tr_Update_def)
  have res: "res = map_prod as_result id (map_prod as_proxy id (Invokes ?a (ProxyObject zero_proxy) st))"
    by (simp add: res_def store_update_def store_create_def fake_Update_def fake_Create_def fake_MemcachedProxies_def
        split: prod.split)
  have refused: "fst res = Inl err" "fake_inv (snd res)" "store_content (snd res) = store_content st" if "?add = (Some err, ?t)" for err
    using that assms(1) unfolding res Invokes_standard [OF assms(1)] react
    by (auto simp: stored_def store_content_def fake_inv_def)
  have "fst res = (if om_Namespace (mp_Meta q) \<noteq> ns then Inl (wrong_namespace ns (om_Namespace (mp_Meta q)))
      else if store_content st k \<noteq> None \<and> \<not> replaceExisting then Inl (already_exists k)
      else if store_content st k = None \<and> replaceExisting then Inl (not_found k) else Inr q)
    \<and> fake_inv (snd res) \<and> store_content (snd res) = (if isl (fst res) then store_content st else (store_content st)(k \<mapsto> q))"
  proof (cases "om_Namespace (mp_Meta q) = ns")
    case False
    then have "?add = (Some (wrong_namespace ns (om_Namespace (mp_Meta q))), ?t)"
      by (simp add: tr_add_def Let_def q_def wrong_namespace_def)
    from refused [OF this] False show ?thesis by simp
  next
    case True
    then have ns: "om_Namespace (mp_Meta (in_namespace ns p)) = ns" by (simp add: q_def)
    note add = tr_add_map [OF inv ns, of ?gvr replaceExisting, folded q_def]
    have key: "obj_key q = k" by (simp add: k_def obj_key_def True name)
    show ?thesis
    proof (cases "fst ?add")
      case (Some err)
      then have "?add = (Some err, ?t)" using add(2) by (simp add: prod_eq_iff)
      moreover have "(tr_map ?t ?gvr k \<noteq> None \<and> \<not> replaceExisting \<and> err = already_exists k)
          \<or> (tr_map ?t ?gvr k = None \<and> replaceExisting \<and> err = not_found k)"
        using add(1) Some by (auto simp: key k_def name already_exists_def not_found_def split: if_splits)
      ultimately show ?thesis using refused [of err] True by (auto simp: store_content_def)
    next
      case None
      then obtain t where t: "?add = (None, t)" by (cases ?add) auto
      have ok: "tr_map ?t ?gvr k \<noteq> None \<longleftrightarrow> replaceExisting" using add(1) None by (auto simp: key split: if_splits)
      have tinv: "tr_inv t" and content: "tr_map t ?gvr = (tr_map ?t ?gvr)(k \<mapsto> q)"
        using add(3,4) None t by (simp_all add: key)
      have "tr_Get ?gvr ns (om_Name (mp_Meta p)) t = Inr q"
        using tr_Get_map [OF tinv, of ns "om_Name (mp_Meta p)" ?gvr] assms(2) content by (simp add: proper_def k_def)
      then show ?thesis
        using assms(1) tinv content ok True unfolding res Invokes_standard [OF assms(1)] react
        by (auto simp: stored_def t store_content_def fake_inv_def)
    qed
  qed
  then show "fst res = (if om_Namespace (mp_Meta q) \<noteq> ns then Inl (wrong_namespace ns (om_Namespace (mp_Meta q)))
      else if store_content st k \<noteq> None \<and> \<not> replaceExisting then Inl (already_exists k)
      else if store_content st k = None \<and> replaceExisting then Inl (not_found k) else Inr q)"
    and "fake_inv (snd res)"
    and "store_content (snd res) = (if isl (fst res) then store_content st else (store_content st)(k \<mapsto> q))" by blast+
qed

lemmas store_create_map = store_add_map [where replaceExisting = False, simplified]
lemmas store_update_map = store_add_map [where replaceExisting = True, simplified]

lemma own_namespace [simp]: "in_namespace (om_Namespace (mp_Meta p)) p = p"
  by (simp add: in_namespace_def)

lemma own_create_map:
  assumes "fake_inv st" and "proper (obj_key p)"
  shows "fst (own_create p st) = (if store_content st (obj_key p) \<noteq> None then Inl (already_exists (obj_key p)) else Inr p)"
    "fake_inv (snd (own_create p st))"
    "store_content (snd (own_create p st)) = (if store_content st (obj_key p) \<noteq> None then store_content st else (store_content st)(obj_key p \<mapsto> p))"
  using store_create_map [OF assms(1), of "om_Namespace (mp_Meta p)" p] assms(2) by (simp_all add: own_create_def obj_key_def)

lemma own_update_map:
  assumes "fake_inv st" and "proper (obj_key p)"
  shows "fst (own_update p st) = (if store_content st (obj_key p) = None then Inl (not_found (obj_key p)) else Inr p)"
    "fake_inv (snd (own_update p st))"
    "store_content (snd (own_update p st)) = (if store_content st (obj_key p) = None then store_content st else (store_content st)(obj_key p \<mapsto> p))"
  using store_update_map [OF assms(1), of "om_Namespace (mp_Meta p)" p] assms(2) by (simp_all add: own_update_def obj_key_def)

lemma store_delete_map:
  assumes "fake_inv st"
  shows "fst (store_delete k st) = (if store_content st k = None then Some (not_found k) else None)"
    "fake_inv (snd (store_delete k st))" "store_content (snd (store_delete k st)) = (store_content st)(k := None)"
proof -
  have inv: "tr_inv (fk_tracker st)" using assms by (simp add: fake_inv_def)
  have del: "store_delete k st = (fst (tr_Delete memcachedproxiesResource (fst k) (snd k) (fk_tracker st)),
      st\<lparr>fk_actions := fk_actions st @ [DeleteAction memcachedproxiesResource (fst k) (snd k)],
         fk_tracker := snd (tr_Delete memcachedproxiesResource (fst k) (snd k) (fk_tracker st))\<rparr>)"
    by (simp add: store_delete_def fake_Delete_def fake_MemcachedProxies_def Invokes_standard [OF assms] split: prod.split)
  show "fst (store_delete k st) = (if store_content st k = None then Some (not_found k) else None)"
    "fake_inv (snd (store_delete k st))" "store_content (snd (store_delete k st)) = (store_content st)(k := None)"
    using tr_Delete_map [OF inv, of memcachedproxiesResource "fst k" "snd k"] assms
    by (simp_all add: del store_content_def fake_inv_def not_found_def fun_eq_iff)
qed

interpretation fake_store: proxy_store store_get own_create own_update store_delete fake_inv store_content
proof
  fix st k p
  show "fake_inv st \<Longrightarrow> proper k \<Longrightarrow>
      (case store_content st k of None \<Rightarrow> \<exists>err. store_get k st = Inl err \<and> IsNotFound err | Some p \<Rightarrow> store_get k st = Inr p)"
    using store_get_map(1) by (simp split: option.split)
  show "fake_inv st \<Longrightarrow> proper (obj_key p) \<Longrightarrow> store_content st (obj_key p) = None \<Longrightarrow> fst (own_create p st) = Inr p
      \<and> fake_inv (snd (own_create p st)) \<and> store_content (snd (own_create p st)) = (store_content st)(obj_key p \<mapsto> p)"
    using own_create_map [of st p] by simp
  show "fake_inv st \<Longrightarrow> proper (obj_key p) \<Longrightarrow> store_content st (obj_key p) \<noteq> None \<Longrightarrow>
      (\<exists>msg. fst (own_create p st) = Inl (StatusError StatusReasonAlreadyExists msg))
      \<and> fake_inv (snd (own_create p st)) \<and> store_content (snd (own_create p st)) = store_content st"
    using own_create_map [of st p] by (simp add: already_exists_def NewAlreadyExists_def)
  show "fake_inv st \<Longrightarrow> proper (obj_key p) \<Longrightarrow> store_content st (obj_key p) \<noteq> None \<Longrightarrow> fst (own_update p st) = Inr p
      \<and> fake_inv (snd (own_update p st)) \<and> store_content (snd (own_update p st)) = (store_content st)(obj_key p \<mapsto> p)"
    using own_update_map [of st p] by simp
  show "fake_inv st \<Longrightarrow> proper (obj_key p) \<Longrightarrow> store_content st (obj_key p) = None \<Longrightarrow>
      (\<exists>err. fst (own_update p st) = Inl err \<and> IsNotFound err)
      \<and> fake_inv (snd (own_update p st)) \<and> store_content (snd (own_update p st)) = store_content st"
    using own_update_map [of st p] by simp
  show "fake_inv st \<Longrightarrow> proper k \<Longrightarrow> (fst (store_delete k st) = None \<longleftrightarrow> store_content st k \<noteq> None)
      \<and> fake_inv (snd (store_delete k st)) \<and> store_content (snd (store_delete k st)) = (store_content st)(k := None)"
    using store_delete_map [of st k] by simp
qed

section \<open>A map as specification\<close>

text \<open>
  \<open>map_step\<close> is the abstract specification: each operation on a finite map, with its answer. \<open>fake_step\<close> is the operation of the
  fake client, and \<open>run\<close> runs a sequence of either.
\<close>

datatype store_op = OpGet "string \<times> string" | OpCreate string MemcachedProxy | OpUpdate string MemcachedProxy | OpDelete "string \<times> string"

fun op_key :: "store_op \<Rightarrow> string \<times> string" where
  "op_key (OpGet k) = k"
| "op_key (OpCreate ns p) = (ns, om_Name (mp_Meta p))"
| "op_key (OpUpdate ns p) = (ns, om_Name (mp_Meta p))"
| "op_key (OpDelete k) = k"

type_synonym answer = "go_error + MemcachedProxy option"

fun map_step :: "store_op \<Rightarrow> ((string \<times> string) \<rightharpoonup> MemcachedProxy) \<Rightarrow> answer \<times> ((string \<times> string) \<rightharpoonup> MemcachedProxy)" where
  "map_step (OpGet k) m = ((case m k of None \<Rightarrow> Inl (not_found k) | Some p \<Rightarrow> Inr (Some p)), m)"
| "map_step (OpCreate ns p) m =
     (let q = in_namespace ns p; k = (ns, om_Name (mp_Meta p)) in
      if om_Namespace (mp_Meta q) \<noteq> ns then (Inl (wrong_namespace ns (om_Namespace (mp_Meta q))), m)
      else if m k = None then (Inr (Some q), m(k \<mapsto> q)) else (Inl (already_exists k), m))"
| "map_step (OpUpdate ns p) m =
     (let q = in_namespace ns p; k = (ns, om_Name (mp_Meta p)) in
      if om_Namespace (mp_Meta q) \<noteq> ns then (Inl (wrong_namespace ns (om_Namespace (mp_Meta q))), m)
      else if m k = None then (Inl (not_found k), m) else (Inr (Some q), m(k \<mapsto> q)))"
| "map_step (OpDelete k) m = ((if m k = None then Inl (not_found k) else Inr None), m(k := None))"

fun fake_step :: "store_op \<Rightarrow> fake \<Rightarrow> answer \<times> fake" where
  "fake_step (OpGet k) st = (map_sum id Some (store_get k st), snd (fake_Get (fake_MemcachedProxies (fst k)) (snd k) [] st))"
| "fake_step (OpCreate ns p) st = map_prod (map_sum id Some) id (store_create ns p st)"
| "fake_step (OpUpdate ns p) st = map_prod (map_sum id Some) id (store_update ns p st)"
| "fake_step (OpDelete k) st = map_prod (\<lambda>err. case err of None \<Rightarrow> Inr None | Some e \<Rightarrow> Inl e) id (store_delete k st)"

fun run :: "(store_op \<Rightarrow> 's \<Rightarrow> answer \<times> 's) \<Rightarrow> store_op list \<Rightarrow> 's \<Rightarrow> answer list \<times> 's" where
  "run step [] s = ([], s)"
| "run step (x # xs) s = (let (r, s1) = step x s; (rs, s2) = run step xs s1 in (r # rs, s2))"

lemma fake_step_map:
  assumes "fake_inv st" and "proper (op_key x)"
  shows "fake_inv (snd (fake_step x st))"
    "map_step x (store_content st) = (fst (fake_step x st), store_content (snd (fake_step x st)))"
proof -
  have "fake_inv (snd (fake_step x st))
    \<and> map_step x (store_content st) = (fst (fake_step x st), store_content (snd (fake_step x st)))"
  proof (cases x)
    case (OpGet k)
    then show ?thesis
      using store_get_map [OF assms(1), of k] assms by (simp add: fake_inv_def store_content_def split: option.split)
  next
    case (OpCreate ns p)
    then show ?thesis
      using store_create_map [OF assms(1), of ns p] assms(2) by (cases "store_content st (ns, om_Name (mp_Meta p))") (auto simp: Let_def)
  next
    case (OpUpdate ns p)
    then show ?thesis
      using store_update_map [OF assms(1), of ns p] assms(2) by (cases "store_content st (ns, om_Name (mp_Meta p))") (auto simp: Let_def)
  next
    case (OpDelete k)
    then show ?thesis using store_delete_map [OF assms(1), of k] by (cases "store_content st k") auto
  qed
  then show "fake_inv (snd (fake_step x st))"
    "map_step x (store_content st) = (fst (fake_step x st), store_content (snd (fake_step x st)))" by blast+
qed

lemma run_fake_map:
  "fake_inv st \<Longrightarrow> \<forall>x \<in> set ops. proper (op_key x) \<Longrightarrow> run fake_step ops st = (rs, st') \<Longrightarrow>
     fake_inv st' \<and> run map_step ops (store_content st) = (rs, store_content st')"
proof (induction ops arbitrary: st rs)
  case (Cons x xs)
  obtain rs1 where rs1: "run fake_step xs (snd (fake_step x st)) = (rs1, st')" "rs = fst (fake_step x st) # rs1"
    using Cons.prems(3) by (auto simp: Let_def split_beta prod_eq_iff)
  have "proper (op_key x)" using Cons.prems(2) by simp
  note step = fake_step_map [OF Cons.prems(1) this]
  show ?case using Cons.IH [OF step(1) _ rs1(1)] Cons.prems(2) step(2) rs1(2) by simp
qed simp

section \<open>New clientsets\<close>

lemma guessed_resource: "UnsafeGuessKindToResource (WithKind ''MemcachedProxy'') = memcachedproxiesResource"
  by code_simp

lemma fake_scheme: "fake_scheme_init = scheme_init"
  by (simp add: fake_scheme_init_def scheme_init_def fake_AddToScheme_def AddToScheme_def split: option.split)

lemma add_proxy_tr_add:
  assumes "ObjectKinds (tr_scheme t) (api_type ''MemcachedProxy'') = Some [WithKind ''MemcachedProxy'']"
  shows "add_proxy p t = tr_add memcachedproxiesResource p (om_Namespace (mp_Meta p)) False t"
proof -
  have "gvr_Version memcachedproxiesResource \<noteq> ''__internal''" by (simp add: memcachedproxiesResource_def)
  then show ?thesis using assms by (simp add: add_proxy_def guessed_resource Let_def split: prod.split option.split)
qed

lemma tr_add_scheme [simp]: "tr_scheme (snd (tr_add gvr p ns b t)) = tr_scheme t"
  by (simp add: tr_add_def Let_def)

lemma add_objects_fresh:
  assumes "ObjectKinds (tr_scheme t) (api_type ''MemcachedProxy'') = Some [WithKind ''MemcachedProxy'']"
    and "distinct (map obj_key (tr_objs t memcachedproxiesResource @ ps))"
  shows "\<exists>t'. add_objects (map ProxyObject ps) t = Some t' \<and> tr_objs t' memcachedproxiesResource = tr_objs t memcachedproxiesResource @ ps
    \<and> (\<forall>g. g \<noteq> memcachedproxiesResource \<longrightarrow> tr_objs t' g = tr_objs t g) \<and> tr_scheme t' = tr_scheme t"
  using assms
proof (induction ps arbitrary: t)
  case (Cons p ps)
  let ?gvr = memcachedproxiesResource
  let ?t1 = "notify ?gvr (om_Namespace (mp_Meta p)) (EvAdded p) (tr_put ?gvr (tr_objs t ?gvr @ [p]) t)"
  have "in_namespace (om_Namespace (mp_Meta p)) p = p" by (simp add: in_namespace_def)
  moreover have "\<not> list_ex (\<lambda>old. same_object old p) (tr_objs t ?gvr)"
  proof -
    have "obj_key p \<notin> obj_key ` set (tr_objs t ?gvr)" using Cons.prems(2) by simp
    then show ?thesis unfolding list_ex_iff same_object_key by (metis imageI)
  qed
  ultimately have "add_proxy p t = (None, ?t1)"
    unfolding add_proxy_tr_add [OF Cons.prems(1)] by (simp add: tr_add_def)
  then show ?case using Cons.IH [of ?t1] Cons.prems by simp
qed simp

lemma NewSimpleClientset_tracker:
  assumes "distinct (map obj_key ps)"
  obtains t s where "NewSimpleClientset (map ProxyObject ps) = Some (new_fake t)" and "tr_inv t"
    and "tr_objs t memcachedproxiesResource = ps" and "tr_scheme t = s"
    and "scheme_New s (WithKind ''MemcachedProxyList'') = Some (api_type ''MemcachedProxyList'')"
proof -
  obtain s where s: "fake_scheme_init = Some s" "ObjectKinds s (api_type ''MemcachedProxy'') = Some [WithKind ''MemcachedProxy'']"
    "scheme_New s (WithKind ''MemcachedProxyList'') = Some (api_type ''MemcachedProxyList'')"
    using scheme_init_ok unfolding fake_scheme by blast
  have empty: "tr_objs (NewObjectTracker s) g = []" for g by (simp add: tr_objs_def NewObjectTracker_def)
  have scheme: "tr_scheme (NewObjectTracker s) = s" by (simp add: NewObjectTracker_def)
  then obtain t where t: "add_objects (map ProxyObject ps) (NewObjectTracker s) = Some t" "tr_objs t memcachedproxiesResource = ps"
      "\<forall>g. g \<noteq> memcachedproxiesResource \<longrightarrow> tr_objs t g = []" "tr_scheme t = s"
    using add_objects_fresh [of "NewObjectTracker s" ps] s(2) assms by (auto simp: empty)
  have "distinct (map obj_key (tr_objs t g))" for g using t(2,3) assms by (cases "g = memcachedproxiesResource") auto
  then have "tr_inv t" by (simp add: tr_inv_def)
  moreover have "NewSimpleClientset (map ProxyObject ps) = Some (new_fake t)"
    unfolding NewSimpleClientset_def s(1) option.case t(1) ..
  ultimately show ?thesis using that t(2,4) s(3) by blast
qed

lemma NewSimpleClientset_content:
  assumes "distinct (map obj_key ps)"
  shows "\<exists>st. NewSimpleClientset (map ProxyObject ps) = Some st \<and> fake_inv st \<and> fk_actions st = []
    \<and> store_content st = map_of (map (\<lambda>p. (obj_key p, p)) ps)"
  using assms by (rule NewSimpleClientset_tracker) (simp add: new_fake_def fake_inv_def store_content_def tr_map_def)

section \<open>Lists\<close>

lemma append_items_eq:
  "append_items label items l = l\<lparr>ml_Items := append_slice (ml_Items l) (filter (\<lambda>p. Matches label (om_Labels (mp_Meta p))) items)\<rparr>"
proof (induction items arbitrary: l)
  case (Cons p ps)
  have "append_slice (append_slice xs [p]) ys = append_slice xs (p # ys)" for xs :: "MemcachedProxy slice" and ys
    by (simp add: append_slice_def)
  then show ?case using Cons.IH by simp
qed (simp add: append_slice_def)

section \<open>Properties\<close>

text \<open>
  C14. The fake clientset refines a finite map: start it with any proxies that have different keys, and run any sequence of gets,
  creates, updates and deletes through the clients of namespaces, with namespaces and names that are not empty; every answer,
  errors included, is the one that a map from namespaces and names to proxies gives, and the content afterwards is the content of that
  map. A proxy that names no namespace gets that of the client, and one that names another is refused.
\<close>

theorem fake_clientset_refines_map:
  assumes "distinct (map obj_key ps)" and "\<forall>x \<in> set ops. proper (op_key x)"
  shows "\<exists>st. NewSimpleClientset (map ProxyObject ps) = Some st
    \<and> (case run fake_step ops st of (rs, st') \<Rightarrow>
         run map_step ops (map_of (map (\<lambda>p. (obj_key p, p)) ps)) = (rs, store_content st') \<and> fake_inv st')"
proof -
  obtain st where st: "NewSimpleClientset (map ProxyObject ps) = Some st" "fake_inv st"
      "store_content st = map_of (map (\<lambda>p. (obj_key p, p)) ps)"
    using NewSimpleClientset_content [OF assms(1)] by blast
  obtain rs st' where run: "run fake_step ops st = (rs, st')" by (cases "run fake_step ops st")
  show ?thesis using run_fake_map [OF st(2) assms(2) run] st(1,3) run by auto
qed

text \<open>
  What a successful update stored is what a get of the same object returns, and a get of another object
  returns what it returned before.
\<close>

theorem fake_update_then_get:
  assumes "fake_inv st" and "proper (obj_key p)" and "fst (own_update p st) = Inr q"
  shows "store_get (obj_key p) (snd (own_update p st)) = Inr p
    \<and> (\<forall>k r. proper k \<longrightarrow> k \<noteq> obj_key p \<longrightarrow> store_get k st = Inr r \<longrightarrow> store_get k (snd (own_update p st)) = Inr r)"
  using fake_store.get_after_update(2) [OF assms] fake_store.get_other_after_update [OF assms(1,2)] by blast

text \<open>
  \<open>Patch\<close> and \<open>DeleteCollection\<close> of the fake client succeed and do nothing: the tracker has no reaction for them, so the patch
  of any object, known or not, answers with an empty proxy and no error, and no proxy changes. The comments say
  that the patch is applied and the collection deleted.
\<close>

theorem fake_patch_ignored:
  assumes "fake_inv st"
  shows "fst (fake_Patch c name pt data subs st) = Some (Some zero_proxy, None)
    \<and> fk_tracker (snd (fake_Patch c name pt data subs st)) = fk_tracker st
    \<and> (\<forall>ps options lopts err st'. fake_DeleteCollection ps c options lopts st = Some (err, st') \<longrightarrow>
         err = None \<and> fk_tracker st' = fk_tracker st)"
  using assms
  by (auto simp: fake_Patch_def fake_DeleteCollection_def Invokes_standard Let_def split: option.splits prod.splits)

text \<open>
  A list of the fake client has exactly the proxies of the namespace, or of all namespaces when it is empty, that match the label
  selector; the field selector is not looked at.
\<close>

theorem fake_List_matching:
  assumes "NewSimpleClientset (map ProxyObject ps) = Some st" and "distinct (map obj_key ps)" and "ps \<noteq> []"
    and "ps_labels prs (lo_LabelSelector opts) = Some label" and "ps_fields prs (lo_FieldSelector opts) = Some field"
  shows "\<exists>l st'. fake_List prs (fake_MemcachedProxies ns) opts st = Some ((Some l, None), st')
    \<and> elems (ml_Items l) = filter (\<lambda>p. (ns = [] \<or> om_Namespace (mp_Meta p) = ns) \<and> Matches label (om_Labels (mp_Meta p))) ps"
proof -
  obtain t s where t: "NewSimpleClientset (map ProxyObject ps) = Some (new_fake t)" "tr_inv t"
    "tr_objs t memcachedproxiesResource = ps" "tr_scheme t = s"
    "scheme_New s (WithKind ''MemcachedProxyList'') = Some (api_type ''MemcachedProxyList'')"
    using NewSimpleClientset_tracker [OF assms(2)] by blast
  have st: "fk_tracker st = t" "fake_inv st"
    using t(1,2) assms(1) by (auto simp: new_fake_def fake_inv_def)
  have "map_of (tr_objects t) memcachedproxiesResource = Some ps"
    using t(3) assms(3) by (auto simp: tr_objs_def split: option.splits)
  moreover have "list_kind memcachedproxiesKind = WithKind ''MemcachedProxyList''" by code_simp
  ultimately have "tr_List memcachedproxiesResource memcachedproxiesKind ns t
      = Inr (zero_list\<lparr>ml_Items := Some (filterByNamespaceAndName ps ns [])\<rparr>)"
    using t(4,5) by (simp add: tr_List_def)
  then show ?thesis
    using assms(4,5) st
    by (auto simp: fake_List_def ExtractFromListOptions_def Invokes_standard fake_MemcachedProxies_def append_items_eq zero_list_def
        filterByNamespaceAndName_def intro!: filter_cong)
qed

section \<open>Witnesses\<close>

definition default_key :: "string \<times> string" where
  "default_key = (''default'', ''example'')"

lemma default_key: "obj_key example_proxy = default_key" "proper default_key"
  by (simp_all add: example_proxy_def default_key_def obj_key_def proper_def)

definition every_parser :: parsers where
  \<comment> \<open>parsers that know only the empty text\<close>
  "every_parser = \<lparr>ps_labels = (\<lambda>t. if t = [] then Some Everything else None), ps_fields = (\<lambda>t. if t = [] then Some [] else None)\<rparr>"

lemma example_store:
  obtains st where "NewSimpleClientset [ProxyObject example_proxy] = Some st" and "fake_inv st"
  using NewSimpleClientset_content [of "[example_proxy]"] by auto

theorem fake_clientset_refines_map_witness:
  "\<exists>st st'. NewSimpleClientset [ProxyObject example_proxy] = Some st
     \<and> run fake_step [OpGet default_key, OpDelete default_key, OpUpdate ''default'' example_proxy, OpCreate ''other'' example_proxy,
         OpCreate ''default'' example_proxy, OpCreate ''default'' example_proxy] st
       = ([Inr (Some example_proxy), Inr None, Inl (not_found default_key), Inl (wrong_namespace ''other'' ''default''),
           Inr (Some example_proxy), Inl (already_exists default_key)], st')"
proof -
  let ?ops = "[OpGet default_key, OpDelete default_key, OpUpdate ''default'' example_proxy, OpCreate ''other'' example_proxy,
    OpCreate ''default'' example_proxy, OpCreate ''default'' example_proxy]"
  have meta: "om_Namespace (mp_Meta example_proxy) = ''default''" "om_Name (mp_Meta example_proxy) = ''example''"
    "in_namespace ns example_proxy = example_proxy" for ns
    by (simp_all add: example_proxy_def in_namespace_def)
  have key: "default_key = (''default'', ''example'')" by (simp add: default_key_def)
  obtain st rs st' where "NewSimpleClientset [ProxyObject example_proxy] = Some st" "run fake_step ?ops st = (rs, st')"
    "run map_step ?ops [obj_key example_proxy \<mapsto> example_proxy] = (rs, store_content st')"
    using fake_clientset_refines_map [of "[example_proxy]" ?ops] by (fastforce simp: meta key proper_def split: prod.splits)
  moreover have "fst (run map_step ?ops [obj_key example_proxy \<mapsto> example_proxy]) = [Inr (Some example_proxy), Inr None,
      Inl (not_found default_key), Inl (wrong_namespace ''other'' ''default''), Inr (Some example_proxy), Inl (already_exists default_key)]"
    by (simp add: obj_key_def meta key Let_def)
  ultimately show ?thesis by (metis fst_conv)
qed

theorem fake_patch_ignored_witness:
  "\<exists>st. NewSimpleClientset [ProxyObject example_proxy] = Some st
     \<and> fst (fake_Patch (fake_MemcachedProxies ''default'') ''no-such-proxy'' ''merge'' ''{}'' [] st) = Some (Some zero_proxy, None)"
proof -
  obtain st where "NewSimpleClientset [ProxyObject example_proxy] = Some st" "fake_inv st" by (rule example_store)
  then show ?thesis using fake_patch_ignored by blast
qed

theorem fake_List_matching_witness:
  "\<exists>st l st'. NewSimpleClientset [ProxyObject example_proxy] = Some st
     \<and> fake_List every_parser (fake_MemcachedProxies ''default'') no_options st = Some ((Some l, None), st')
     \<and> elems (ml_Items l) = [example_proxy]"
proof -
  obtain st where st: "NewSimpleClientset [ProxyObject example_proxy] = Some st" by (rule example_store)
  have "ps_labels every_parser (lo_LabelSelector no_options) = Some Everything"
    "ps_fields every_parser (lo_FieldSelector no_options) = Some []" by code_simp+
  from fake_List_matching [of "[example_proxy]", OF _ _ _ this, of st "''default''"] st
  show ?thesis by (auto simp: example_proxy_def)
qed

end
