(* ===== verification/Fixtures.thy ===== *)
theory Fixtures
  imports FakeClient OperatorMain
begin

text \<open>
  The test support of internal/test: the objects the unit tests are about, the fixture that fills fake clients and informers
  with them, and the check that a client received the expected calls. The properties are about the unit tests of three controllers,
  with the one name and the one rule they use replaced by all of them. The goroutine that runs the informers beside the sync is
  part of a test: its calls reach the client whose record the test compares, in any interleaving with those of the sync, and a test passes
  exactly when none of them is early enough to be recorded.

  The random parts, unique identifiers and the number in the name of a config map, are parameters. \<open>TypeMeta\<close> is modelled for
  proxies and config maps only. The core clientset is generated and vendored: its constructor is the parameter \<open>newClient\<close>, with
  \<open>None\<close> for a panic, and the calls the controllers send to it are those of theory \<open>Cluster\<close>.
\<close>

section \<open>Objects\<close>

definition NamespaceDefault :: string where "NamespaceDefault = ''default''"

definition proxy_ref :: "MemcachedProxy \<Rightarrow> OwnerReference" where
  \<comment> \<open>\<open>*metav1.NewControllerRef(p, v1alpha1.SchemeGroupVersion.WithKind("MemcachedProxy"))\<close>\<close>
  "proxy_ref p = NewControllerRef (mp_Meta p) (WithKind ''MemcachedProxy'')"

definition NewMemcachedProxy :: "string \<Rightarrow> string \<Rightarrow> RuleSpec \<Rightarrow> MemcachedProxy" where
  \<comment> \<open>\<open>uid\<close> is \<open>uuid.NewUUID()\<close>\<close>
  "NewMemcachedProxy uid name rules =
     (let p = zero_proxy\<lparr>mp_APIVersion := SchemeGroupVersionString,
                mp_Meta := zero_meta\<lparr>om_UID := uid, om_Name := name, om_Namespace := NamespaceDefault, om_Generation := 1\<rparr>,
                mp_Spec := (mp_Spec zero_proxy)\<lparr>spec_Rules := rules\<rparr>\<rparr>;
          p1 = p\<lparr>mp_Status := (mp_Status p)\<lparr>st_ObservedGeneration := om_Generation (mp_Meta p)\<rparr>\<rparr>
      in ApplyDefaults p1)"

definition fixture_service :: "string \<Rightarrow> ServiceSpec" where
  "fixture_service service = \<lparr>ss_Name = service, ss_Namespace = [], ss_Port = \<lparr>is_Type = 0, is_IntVal = 11211, is_StrVal = []\<rparr>\<rparr>"

definition NewShardedProxy :: "string \<Rightarrow> string \<Rightarrow> string \<Rightarrow> MemcachedProxy" where
  "NewShardedProxy uid name service = NewMemcachedProxy uid name (RuleSpec ShardedRuleType (Some (fixture_service service)) None)"


definition NewMemcachedProxyService :: "string \<Rightarrow> MemcachedProxy \<Rightarrow> Service" where
  "NewMemcachedProxyService uid p =
     \<lparr>svc_Meta = zero_meta\<lparr>om_UID := uid, om_Name := om_Name (mp_Meta p) @ ''-memcached'', om_Namespace := NamespaceDefault,
        om_OwnerReferences := [proxy_ref p]\<rparr>,
      svc_Selector = GetProxyServiceSelector p,
      svc_Type = ''ClusterIP'',
      svc_Ports = [\<lparr>sp_Name = ''mcrouter'', sp_Protocol = ''TCP'', sp_Port = 11211,
        sp_TargetPort = \<lparr>is_Type = 0, is_IntVal = 11211, is_StrVal = []\<rparr>\<rparr>],
      svc_Rest = []\<rparr>"


definition NewProxyConfigMap :: "nat \<Rightarrow> MemcachedProxy \<Rightarrow> ConfigMap" where
  \<comment> \<open>\<open>n\<close> is \<open>r1.Intn(10000)\<close>\<close>
  "NewProxyConfigMap n p =
     \<lparr>cm_APIVersion = ''v1'', cm_Kind = ''ConfigMap'',
      cm_Meta = zero_meta\<lparr>om_Name := om_Name (mp_Meta p) @ ''-config-'' @ Itoa (int n),
        om_Namespace := om_Namespace (mp_Meta p), om_OwnerReferences := [proxy_ref p]\<rparr>,
      cm_Data = [], cm_Rest = []\<rparr>"

definition NewMemcachedProxyDeployment :: "string \<Rightarrow> MemcachedProxy \<Rightarrow> ConfigMap \<Rightarrow> Deployment option" where
  \<comment> \<open>\<open>None\<close>: the port is nil and dereferencing it panics\<close>
  "NewMemcachedProxyDeployment uid p cm =
     (case mr_Port (spec_McRouter (mp_Spec p)) of
        None \<Rightarrow> None
      | Some port \<Rightarrow> Some
          \<lparr>d_Meta = zero_meta\<lparr>om_UID := uid, om_Name := om_Name (mp_Meta p) @ ''-memcached'',
             om_Namespace := om_Namespace (mp_Meta p), om_OwnerReferences := [proxy_ref p]\<rparr>,
           d_Replicas = Some 1,
           d_Selector = None,
           d_Template =
             \<lparr>pt_Meta = zero_meta\<lparr>om_Labels := GetProxyServiceSelector p\<rparr>,
              pt_Containers = [\<lparr>ct_Name = ''mcrouter'', ct_Image = mr_Image (spec_McRouter (mp_Spec p)), ct_Command = [''mcrouter''],
                ct_Args = [''-p'', Sprint_int32 port, ''--config-file=/etc/mcrouter/config.json''],
                ct_Ports = [\<lparr>cp_Name = ''mcrouter'', cp_ContainerPort = port\<rparr>],
                ct_VolumeMounts = [\<lparr>vm_Name = ''config'', vm_MountPath = ''/etc/mcrouter''\<rparr>],
                ct_SecurityContext = None, ct_Rest = []\<rparr>],
              pt_Volumes = [\<lparr>v_Name = ''config'', v_ConfigMap = Some \<lparr>cmv_Name = om_Name (cm_Meta cm), cmv_Rest = []\<rparr>,
                v_EmptyDir = False, v_Rest = []\<rparr>],
              pt_Rest = []\<rparr>,
           d_Rest = []\<rparr>)"

section \<open>Expected calls\<close>

text \<open>
  An action is seen through the methods of \<open>core.Action\<close>. A check is the list of failures it reports on \<open>testing.T\<close>, and whether
  the test goes on afterwards (\<open>FailNow\<close> ends it).
\<close>

record 'o core_action =
  ca_Verb :: string
  ca_Resource :: string
  ca_Subresource :: string
  ca_Namespace :: string
  ca_Object :: 'o

type_synonym check = "string list \<times> bool"

definition passed :: check where "passed = ([], True)"

definition and_then :: "check \<Rightarrow> check \<Rightarrow> check" where
  "and_then c d = (if snd c then (fst c @ fst d, snd d) else c)"

definition assert_that :: "string \<Rightarrow> bool \<Rightarrow> check" where
  \<comment> \<open>a function of \<open>assert\<close>: it reports a failure and the test goes on\<close>
  "assert_that msg ok = (if ok then [] else [msg], True)"

definition core_Matches :: "'o core_action \<Rightarrow> string \<Rightarrow> string \<Rightarrow> bool" where
  \<comment> \<open>\<open>ActionImpl.Matches\<close>\<close>
  "core_Matches a verb resource \<longleftrightarrow> ToLower verb = ToLower (ca_Verb a) \<and> ToLower resource = ToLower (ca_Resource a)"

record 'o ExpectedAction =
  ea_Action :: "'o core_action"
  ea_F :: "('o core_action \<Rightarrow> check) option"

definition Check :: "'o ExpectedAction \<Rightarrow> 'o core_action \<Rightarrow> check" where
  "Check x a =
     (if \<not> core_Matches (ea_Action x) (ca_Verb a) (ca_Resource a) then ([''action must match'', ''failing early''], False)
      else and_then (assert_that ''action subresource must match'' (ca_Subresource a = ca_Subresource (ea_Action x)))
        (and_then (assert_that ''action namespace must match'' (ca_Namespace a = ca_Namespace (ea_Action x)))
          (case ea_F x of None \<Rightarrow> passed | Some F \<Rightarrow> F a)))"

fun check_each :: "'o core_action list \<Rightarrow> 'o ExpectedAction list \<Rightarrow> check" where
  \<comment> \<open>the loop of \<open>expectActions\<close>\<close>
  "check_each [] xs = passed"
| "check_each (a # as) [] = ([''unexpected actions''], True)"
| "check_each (a # as) (x # xs) = and_then (Check x a) (check_each as xs)"

definition expectActions :: "'o core_action list \<Rightarrow> 'o ExpectedAction list \<Rightarrow> check" where
  "expectActions actions expected =
     and_then (check_each actions expected)
       (if length expected > length actions then ([''additional expected actions''], True) else passed)"

section \<open>The fixture\<close>

datatype core_object = DeploymentObject Deployment | ReplicaSetObject ReplicaSet | ConfigMapObject ConfigMap
  | ServiceObject Service | EndpointsObject Endpoints

record 'c ClientFixture =
  cf_Client :: 'c
  cf_CRDClient :: fake
  cf_caches :: cluster
  cf_Informers :: registry

definition every_namespace :: informer_options where
  \<comment> \<open>\<open>metav1.NamespaceAll, 0, cache.Indexers{cache.NamespaceIndex: cache.MetaNamespaceIndexFunc}\<close>\<close>
  "every_namespace = \<lparr>io_namespace = NamespaceAll, io_resync = 0, io_indexers = [''namespace'']\<rparr>"

definition fill :: "('a \<Rightarrow> ObjectMeta) \<Rightarrow> 'a list \<Rightarrow> 'a indexer" where
  \<comment> \<open>\<open>GetIndexer().Add(x)\<close> for each object\<close>
  "fill mt xs = fold (ix_Add mt) xs new_indexer"

definition NewClientFixture ::
  "(core_object list \<Rightarrow> 'c option) \<Rightarrow> MemcachedProxy list \<Rightarrow> Deployment list \<Rightarrow> ReplicaSet list \<Rightarrow> ConfigMap list
     \<Rightarrow> Service list \<Rightarrow> Endpoints list \<Rightarrow> 'c ClientFixture option" where
  "NewClientFixture newClient proxies deployments replicasets configMaps services endpoints =
     (let objs = map DeploymentObject deployments @ map ReplicaSetObject replicasets @ map ConfigMapObject configMaps
            @ map ServiceObject services @ map EndpointsObject endpoints
      in case newClient objs of
           None \<Rightarrow> None
         | Some client \<Rightarrow>
             (case NewSimpleClientset (map ProxyObject proxies) of
                None \<Rightarrow> None
              | Some crdClient \<Rightarrow> Some
                  \<lparr>cf_Client = client, cf_CRDClient = crdClient,
                   cf_caches = empty_cluster\<lparr>
                     cl_proxies := fill mp_Meta proxies, cl_deployments := fill d_Meta deployments,
                     cl_replicasets := fill rs_Meta replicasets, cl_configmaps := fill cm_Meta configMaps,
                     cl_services := fill svc_Meta services, cl_endpoints := fill eps_Meta endpoints\<rparr>,
                   cf_Informers = fold (\<lambda>kind reg. snd (InformerFor kind every_namespace reg))
                     [ProxyInformer, DeploymentInformer, ReplicaSetInformer, ConfigMapInformer, ServiceInformer, EndpointsInformer] []\<rparr>))"

section \<open>The unit tests\<close>

text \<open>
  \<open>runSync\<close> runs the informers of the fixture beside the sync. Each lists and watches its type on the fake client that the sync calls, and
  that client records all of it, in an order that the scheduler decides. \<open>ws\<close> are the calls that informers have made by the time the
  recorded calls are checked, any number of them; \<open>turns\<close> decides how they come between those of the sync. What a list returns is what the
  fixture put into the caches and the client alike, so that the sync finds the same objects whether an informer has run or
  not. \<open>Informers.Run\<close> returns nil, so that the assertion on its result holds.

  \<open>unit_test\<close> is \<open>runSync\<close> on a fixture, followed by \<open>ExpectClientActions\<close>. The functions given to the expected actions are those
  of \<open>TestSyncHandler\<close> of proxyservice and proxydeployment and of \<open>TestSync\<close> of proxyconfigmap. The regular expression of
  the last is a prefix here, which is what it says of a name without special characters.
\<close>

datatype informer_call = ListCall informer | WatchCall informer

datatype test_call = SyncCall action | InformerCall informer_call

definition core_call :: "string \<Rightarrow> string \<Rightarrow> string \<Rightarrow> 'o \<Rightarrow> 'o core_action" where
  "core_call verb resource ns obj =
     \<lparr>ca_Verb = verb, ca_Resource = resource, ca_Subresource = [], ca_Namespace = ns, ca_Object = obj\<rparr>"

fun informer_resource :: "informer \<Rightarrow> string" where
  "informer_resource ProxyInformer = ''memcachedproxies''"
| "informer_resource ServiceInformer = ''services''"
| "informer_resource EndpointsInformer = ''endpoints''"
| "informer_resource ConfigMapInformer = ''configmaps''"
| "informer_resource DeploymentInformer = ''deployments''"
| "informer_resource ReplicaSetInformer = ''replicasets''"

fun core_view :: "test_call \<Rightarrow> test_call core_action" where
  \<comment> \<open>the action that a fake client records for a call\<close>
  "core_view (SyncCall (UpdateProxy ns p)) = core_call ''update'' ''memcachedproxies'' ns (SyncCall (UpdateProxy ns p))"
| "core_view (SyncCall (CreateService ns s)) = core_call ''create'' ''services'' ns (SyncCall (CreateService ns s))"
| "core_view (SyncCall (UpdateService ns s)) = core_call ''update'' ''services'' ns (SyncCall (UpdateService ns s))"
| "core_view (SyncCall (CreateConfigMap ns c)) = core_call ''create'' ''configmaps'' ns (SyncCall (CreateConfigMap ns c))"
| "core_view (SyncCall (UpdateConfigMap ns c)) = core_call ''update'' ''configmaps'' ns (SyncCall (UpdateConfigMap ns c))"
| "core_view (SyncCall (CreateDeployment ns d)) = core_call ''create'' ''deployments'' ns (SyncCall (CreateDeployment ns d))"
| "core_view (SyncCall (UpdateDeployment ns d)) = core_call ''update'' ''deployments'' ns (SyncCall (UpdateDeployment ns d))"
| "core_view (SyncCall (DeleteDeployment ns n)) = core_call ''delete'' ''deployments'' ns (SyncCall (DeleteDeployment ns n))"
| "core_view (InformerCall (ListCall kind)) = core_call ''list'' (informer_resource kind) NamespaceAll (InformerCall (ListCall kind))"
| "core_view (InformerCall (WatchCall kind)) = core_call ''watch'' (informer_resource kind) NamespaceAll (InformerCall (WatchCall kind))"

fun on_core_client :: "test_call \<Rightarrow> bool" where
  \<comment> \<open>proxies are read and written with the other fake client\<close>
  "on_core_client (SyncCall (UpdateProxy ns p)) = False"
| "on_core_client (SyncCall a) = True"
| "on_core_client (InformerCall (ListCall kind)) = (kind \<noteq> ProxyInformer)"
| "on_core_client (InformerCall (WatchCall kind)) = (kind \<noteq> ProxyInformer)"

fun interleave :: "bool list \<Rightarrow> 'a list \<Rightarrow> 'a list \<Rightarrow> 'a list" where
  \<comment> \<open>\<open>True\<close> takes the next of the first list\<close>
  "interleave [] xs ys = xs @ ys"
| "interleave (True # bs) (x # xs) ys = x # interleave bs xs ys"
| "interleave (False # bs) xs (y # ys) = y # interleave bs xs ys"
| "interleave (b # bs) xs ys = interleave bs xs ys"

definition ExpectClientActions :: "('c \<Rightarrow> 'o core_action list) \<Rightarrow> 'c ClientFixture \<Rightarrow> 'o ExpectedAction list \<Rightarrow> check" where
  \<comment> \<open>the first argument is the \<open>Actions\<close> method of the core client\<close>
  "ExpectClientActions Actions f expected = expectActions (Actions (cf_Client f)) expected"

definition fake_view :: "fake_action \<Rightarrow> fake_action core_action" where
  "fake_view a = \<lparr>ca_Verb = GetVerb a, ca_Resource = gvr_Resource (GetResource a), ca_Subresource = GetSubresource a,
     ca_Namespace = GetNamespace a, ca_Object = a\<rparr>"

definition ExpectCRDClientActions :: "'c ClientFixture \<Rightarrow> fake_action ExpectedAction list \<Rightarrow> check" where
  "ExpectCRDClientActions f expected = expectActions (map fake_view (fk_actions (cf_CRDClient f))) expected"

definition runSync :: "handler \<Rightarrow> string \<Rightarrow> 'c ClientFixture \<Rightarrow> informer_call list \<Rightarrow> bool list \<Rightarrow> check \<times> test_call list" where
  \<comment> \<open>the failures it reports and the calls on the core client\<close>
  "runSync syncHandler key f ws turns =
     (let (res, st) = syncHandler key (start (cf_caches f));
          log = interleave turns (map SyncCall (cl_actions (ctl_cluster st))) (map InformerCall ws)
      in (case res of
            Panic \<Rightarrow> ([''panic''], False)
          | _ \<Rightarrow> assert_that ''syncHandler must complete successfully'' (res = RetNil),
          filter on_core_client log))"

definition unit_test ::
  "handler \<Rightarrow> string \<Rightarrow> 'c ClientFixture option \<Rightarrow> informer_call list \<Rightarrow> bool list \<Rightarrow> test_call ExpectedAction list \<Rightarrow> check" where
  "unit_test syncHandler key f ws turns expected =
     (case f of
        None \<Rightarrow> ([''panic''], False)
      | Some f \<Rightarrow>
          (let (c, log) = runSync syncHandler key f ws turns
           in and_then c (expectActions (map core_view log) expected)))"

fun check_service :: "MemcachedProxy \<Rightarrow> test_call core_action \<Rightarrow> check" where
  "check_service p a =
     (case ca_Object a of
        SyncCall (CreateService ns sNew) \<Rightarrow>
          (case (svc_Ports sNew, mr_Port (spec_McRouter (mp_Spec p))) of
             (port # _, Some want) \<Rightarrow>
               and_then (assert_that ''owner reference should be set'' (IsControlledBy (svc_Meta sNew) (mp_Meta p)))
                 (and_then (assert_that ''service port must be set from proxy'' (sp_Port port = want))
                   (assert_that ''target port must be set from proxy'' (is_IntVal (sp_TargetPort port) = want)))
           | _ \<Rightarrow> ([''panic''], False))
      | _ \<Rightarrow> ([''panic''], False))"

definition expect_service :: "MemcachedProxy \<Rightarrow> Service \<Rightarrow> test_call ExpectedAction list" where
  "expect_service p s =
     [\<lparr>ea_Action = core_view (SyncCall (CreateService (om_Namespace (svc_Meta s)) s)), ea_F = Some (check_service p)\<rparr>]"

fun check_deployment :: "MemcachedProxy \<Rightarrow> test_call core_action \<Rightarrow> check" where
  "check_deployment p a =
     (case ca_Object a of
        SyncCall (CreateDeployment ns dNew) \<Rightarrow>
          (case (pt_Containers (d_Template dNew), mr_Port (spec_McRouter (mp_Spec p))) of
             (ct # _, Some want) \<Rightarrow>
               (case ct_Ports ct of
                  [] \<Rightarrow> ([''panic''], False)
                | port # _ \<Rightarrow>
                    and_then (assert_that ''deployment must be owned by memcached proxy'' (IsControlledBy (d_Meta dNew) (mp_Meta p)))
                      (and_then (assert_that ''deployment image must be set from proxy'' (ct_Image ct = mr_Image (spec_McRouter (mp_Spec p))))
                        (assert_that ''container port must be set from proxy'' (cp_ContainerPort port = want))))
           | _ \<Rightarrow> ([''panic''], False))
      | _ \<Rightarrow> ([''panic''], False))"

definition expect_deployment :: "MemcachedProxy \<Rightarrow> Deployment \<Rightarrow> test_call ExpectedAction list" where
  "expect_deployment p d =
     [\<lparr>ea_Action = core_view (SyncCall (CreateDeployment (om_Namespace (d_Meta d)) d)), ea_F = Some (check_deployment p)\<rparr>]"



definition accepts :: "env \<Rightarrow> bool" where
  \<comment> \<open>the fake client lets every call through\<close>
  "accepts e \<longleftrightarrow> (\<forall>calls a. \<not> isl (env_api e calls a))"

section \<open>Lemmas\<close>

lemma fixture_simps [simp]:
  "mp_Meta (NewMemcachedProxy uid name rules)
     = zero_meta\<lparr>om_UID := uid, om_Name := name, om_Namespace := ''default'', om_Generation := 1\<rparr>"
  "st_ObservedGeneration (mp_Status (NewMemcachedProxy uid name rules)) = 1"
  "mr_Port (spec_McRouter (mp_Spec (NewMemcachedProxy uid name rules))) = Some 11211"
  "spec_Rules (mp_Spec (NewMemcachedProxy uid name rules)) = RuleSpec_ApplyDefaults ''default'' rules"
  by (simp_all add: NewMemcachedProxy_def NamespaceDefault_def Let_def ApplyDefaults_Rules ApplyDefaults_McRouter)
    (simp add: zero_proxy_def McRouterSpec_ApplyDefaults_def Let_def)

lemma and_then_passed: "and_then c d = passed \<longleftrightarrow> c = passed \<and> d = passed"
  by (cases c; cases d) (auto simp: and_then_def passed_def)

lemma assert_that_passed [simp]: "assert_that msg ok = passed \<longleftrightarrow> ok"
  by (simp add: assert_that_def passed_def)

lemma failed [simp]: "(m # ms, b) \<noteq> passed" "passed \<noteq> (m # ms, b)"
  by (simp_all add: passed_def)

lemma check_each_passed:
  "check_each actions expected = passed \<longleftrightarrow>
     length actions \<le> length expected \<and> list_all2 (\<lambda>a x. Check x a = passed) actions (take (length actions) expected)"
  by (induction actions expected rule: check_each.induct) (auto simp: and_then_passed)

lemma ix_inv_fill: "ix_inv mt (fill mt xs)"
proof -
  have "ix_inv mt ix \<Longrightarrow> ix_inv mt (fold (ix_Add mt) xs ix)" for ix by (induction xs arbitrary: ix) (simp_all add: ix_Add_inv)
  then show ?thesis by (simp add: fill_def ix_inv_empty)
qed

lemma fill_items:
  "distinct (map (meta_key \<circ> mt) xs) \<Longrightarrow> map_of (ix_items (fill mt xs)) = map_of (map (\<lambda>x. (meta_key (mt x), x)) xs)"
proof (induction xs rule: rev_induct)
  case (snoc x xs)
  have "map_of (map (\<lambda>x. (meta_key (mt x), x)) xs) (meta_key (mt x)) = None"
    using snoc.prems by (auto simp: map_of_keys_None)
  moreover have "fill mt (xs @ [x]) = ix_Add mt x (fill mt xs)" by (simp add: fill_def)
  moreover have "map_of (ix_items (fill mt xs)) = map_of (map (\<lambda>x. (meta_key (mt x), x)) xs)" using snoc by simp
  ultimately show ?case by (auto simp: fun_eq_iff map_add_def split: option.split)
qed (simp add: fill_def new_indexer_def)

lemma shared_informers:
  "map_of (fold (\<lambda>kind reg. snd (InformerFor kind every_namespace reg))
     [ProxyInformer, DeploymentInformer, ReplicaSetInformer, ConfigMapInformer, ServiceInformer, EndpointsInformer] []) kind
   = Some every_namespace"
  by (cases kind) (simp_all add: InformerFor_def)

lemma NewClientFixture_made:
  assumes "newClient (map DeploymentObject ds @ map ReplicaSetObject rss @ map ConfigMapObject cms @ map ServiceObject ss
      @ map EndpointsObject eps) \<noteq> None"
    and "distinct (map obj_key ps)"
  obtains f where "NewClientFixture newClient ps ds rss cms ss eps = Some f"
    and "NewSimpleClientset (map ProxyObject ps) = Some (cf_CRDClient f)"
    and "fake_inv (cf_CRDClient f)" and "store_content (cf_CRDClient f) = map_of (map (\<lambda>p. (obj_key p, p)) ps)"
    and "cf_caches f = empty_cluster\<lparr>
           cl_proxies := fill mp_Meta ps, cl_deployments := fill d_Meta ds, cl_replicasets := fill rs_Meta rss,
           cl_configmaps := fill cm_Meta cms, cl_services := fill svc_Meta ss, cl_endpoints := fill eps_Meta eps\<rparr>"
    and "\<And>kind. map_of (cf_Informers f) kind = Some every_namespace"
proof -
  obtain client where client: "newClient (map DeploymentObject ds @ map ReplicaSetObject rss @ map ConfigMapObject cms
      @ map ServiceObject ss @ map EndpointsObject eps) = Some client"
    using assms(1) by blast
  obtain st where st: "NewSimpleClientset (map ProxyObject ps) = Some st" "fake_inv st"
      "store_content st = map_of (map (\<lambda>p. (obj_key p, p)) ps)"
    using NewSimpleClientset_content [OF assms(2)] by blast
  show ?thesis
    by (rule that, unfold NewClientFixture_def Let_def client st(1) option.case, rule refl)
      (simp_all only: ClientFixture.simps st shared_informers)
qed

lemma cluster_inv_fixture:
  "cluster_inv (empty_cluster\<lparr>cl_proxies := fill mp_Meta ps, cl_deployments := fill d_Meta ds, cl_replicasets := fill rs_Meta rss,
     cl_configmaps := fill cm_Meta cms, cl_services := fill svc_Meta ss, cl_endpoints := fill eps_Meta eps\<rparr>)"
  by (simp add: cluster_inv_def ix_inv_fill)

lemma fill_single [simp]: "fill mt [x] = ix_Add mt x new_indexer" "fill mt [] = new_indexer"
  by (simp_all add: fill_def)

lemma objects_single: "objects (ix_Add mt x new_indexer) = {x}" "objects new_indexer = {}"
  by (simp_all add: objects_def ix_Add_def new_indexer_def updateIndices_def index_keys_def Let_def)

text \<open>A fixture with one proxy, as the unit tests make it.\<close>

lemma one_proxy:
  assumes "newClient (map ConfigMapObject cms @ map ServiceObject ss @ map EndpointsObject eps) \<noteq> None"
    and "CHR ''/'' \<notin> set name" and "p = NewMemcachedProxy uid name rules"
  obtains f where "NewClientFixture newClient [p] [] [] cms ss eps = Some f"
    and "cf_caches f = empty_cluster\<lparr>cl_proxies := ix_Add mp_Meta p new_indexer, cl_deployments := new_indexer,
           cl_replicasets := new_indexer, cl_configmaps := fill cm_Meta cms, cl_services := fill svc_Meta ss,
           cl_endpoints := fill eps_Meta eps\<rparr>"
    and "cluster_inv (cf_caches f)"
    and "SplitMetaNamespaceKey (meta_key (mp_Meta p)) = Inr (''default'', name)"
    and "get_proxy (cf_caches f) ''default'' name = Inr p"
    and "om_Generation (mp_Meta p) = st_ObservedGeneration (mp_Status p)"
proof -
  obtain f where f: "NewClientFixture newClient [p] [] [] cms ss eps = Some f"
    "cf_caches f = empty_cluster\<lparr>cl_proxies := fill mp_Meta [p], cl_deployments := fill d_Meta [], cl_replicasets := fill rs_Meta [],
       cl_configmaps := fill cm_Meta cms, cl_services := fill svc_Meta ss, cl_endpoints := fill eps_Meta eps\<rparr>"
    by (rule NewClientFixture_made [of newClient "[]" "[]" cms ss eps "[p]"]) (use assms(1) in simp_all)
  have key: "meta_key (mp_Meta p) = ''default'' @ ''/'' @ name" by (simp add: assms(3) meta_key_def)
  have "SplitMetaNamespaceKey (meta_key (mp_Meta p)) = Inr (''default'', name)"
    unfolding key by (rule SplitMetaNamespaceKey_pair) (use assms(2) in simp_all)
  moreover have "get_proxy (cf_caches f) ''default'' name = Inr p"
    using lister_Get_single [of mp_Meta p, OF key] by (simp add: get_proxy_def f(2))
  moreover have "om_Generation (mp_Meta p) = st_ObservedGeneration (mp_Status p)" by (simp add: assms(3))
  moreover have "cluster_inv (cf_caches f)" unfolding f(2) by (rule cluster_inv_fixture)
  ultimately show ?thesis by (intro that [of f]) (simp_all add: f)
qed

lemma set_interleave [simp]: "set (interleave bs xs ys) = set xs \<union> set ys"
  by (induction bs xs ys rule: interleave.induct) auto

lemma filter_interleave: "list_all (\<lambda>y. \<not> P y) ys \<Longrightarrow> filter P (interleave bs xs ys) = filter P xs"
  by (induction bs xs ys rule: interleave.induct) (auto simp: list_all_iff)

lemma expectActions_iff: "expectActions actions expected = passed \<longleftrightarrow> list_all2 (\<lambda>a x. Check x a = passed) actions expected"
  by (auto simp: expectActions_def and_then_passed check_each_passed list_all2_lengthD dest: list_all2_lengthD)

lemma ToLower_verbs [simp]: "ToLower ''create'' = ''create''" "ToLower ''list'' = ''list''" "ToLower ''watch'' = ''watch''"
  by code_simp+

lemma Check_informer:
  assumes "ToLower (ca_Verb (ea_Action x)) = ''create''"
  shows "Check x (core_view (InformerCall w)) \<noteq> passed"
proof -
  have "\<not> core_Matches (ea_Action x) (ca_Verb (core_view (InformerCall w))) r" for r
    using assms by (cases w) (simp_all add: core_Matches_def core_call_def)
  then show ?thesis by (simp add: Check_def)
qed

text \<open>
  A test that expects one create, of a sync that sends it, passes unless an informer was faster: an informer's call on the same
  client is never the expected one.
\<close>

lemma unit_test_one:
  assumes "f = Some g" and "syncHandler key (start (cf_caches g)) = (RetNil, st)" and "cl_actions (ctl_cluster st) = [a]"
    and "on_core_client (SyncCall a)" and "Check x (core_view (SyncCall a)) = passed" and "ToLower (ca_Verb (ea_Action x)) = ''create''"
  shows "unit_test syncHandler key f ws turns [x] = passed \<longleftrightarrow> list_all (\<lambda>w. \<not> on_core_client (InformerCall w)) ws"
proof -
  let ?log = "filter on_core_client (interleave turns [SyncCall a] (map InformerCall ws))"
  have "unit_test syncHandler key f ws turns [x] = passed \<longleftrightarrow> list_all2 (\<lambda>a x. Check x a = passed) (map core_view ?log) [x]"
    using assms(1-3) by (simp add: unit_test_def runSync_def and_then_passed expectActions_iff)
  also have "\<dots> \<longleftrightarrow> list_all (\<lambda>w. \<not> on_core_client (InformerCall w)) ws"
  proof
    assume "list_all (\<lambda>w. \<not> on_core_client (InformerCall w)) ws"
    then have "?log = [SyncCall a]" using assms(4) by (subst filter_interleave) (simp_all add: list_all_iff)
    then show "list_all2 (\<lambda>a x. Check x a = passed) (map core_view ?log) [x]" using assms(5) by simp
  next
    assume all: "list_all2 (\<lambda>a x. Check x a = passed) (map core_view ?log) [x]"
    show "list_all (\<lambda>w. \<not> on_core_client (InformerCall w)) ws"
      unfolding list_all_iff
    proof (intro ballI notI)
      fix w
      assume "w \<in> set ws" and "on_core_client (InformerCall w)"
      then have "InformerCall w \<in> set ?log" by simp
      moreover have "\<forall>c \<in> set ?log. Check x (core_view c) = passed" using all by (cases ?log) auto
      ultimately show False using Check_informer [OF assms(6)] by blast
    qed
  qed
  finally show ?thesis .
qed

lemma Check_view:
  "Check \<lparr>ea_Action = a, ea_F = Some F\<rparr> b = passed \<longleftrightarrow> core_Matches a (ca_Verb b) (ca_Resource b)
     \<and> ca_Subresource b = ca_Subresource a \<and> ca_Namespace b = ca_Namespace a \<and> F b = passed"
  by (simp add: Check_def and_then_passed)

section \<open>Properties\<close>

text \<open>
  \<open>expectActions\<close> reports no failure and lets the test go on exactly when the client received as many calls as were expected, each of
  which passes the check of the expectation in its place.
\<close>

theorem expectActions_passes_iff:
  "expectActions actions expected = passed \<longleftrightarrow> list_all2 (\<lambda>a x. Check x a = passed) actions expected"
  by (rule expectActions_iff)

text \<open>
  The proxies of the test fixtures, of any name and with any rules, are what the proxy controller leaves behind: every
  default is set and the current generation is observed. So the other controllers do not put them off, and a sync of the proxy
  controller leaves them alone.
\<close>

theorem fixture_proxy_settled:
  "settled (NewMemcachedProxy uid name rules) \<and> defaulted (NewMemcachedProxy uid name rules)"
proof -
  have "\<exists>p. NewMemcachedProxy uid name rules = ApplyDefaults p \<and> om_Namespace (mp_Meta p) \<noteq> []
      \<and> st_ObservedGeneration (mp_Status p) = om_Generation (mp_Meta p)"
    unfolding NewMemcachedProxy_def Let_def by (rule exI, rule conjI, rule refl) (simp add: NamespaceDefault_def)
  then show ?thesis by (auto simp: settled_def ApplyDefaults_idem ApplyDefaults_defaulted)
qed

text \<open>
  A fixture of any objects, with proxies that have different keys, starts consistent: the fake client and the informer cache hold
  the same proxies, the indices of all caches agree with what they hold, and each of the six informers watches every namespace.
\<close>

theorem fixture_consistent:
  assumes "newClient (map DeploymentObject ds @ map ReplicaSetObject rss @ map ConfigMapObject cms @ map ServiceObject ss
      @ map EndpointsObject eps) \<noteq> None"
    and "distinct (map (meta_key \<circ> mp_Meta) ps)" and "\<forall>p \<in> set ps. proper (obj_key p)"
  shows "\<exists>f. NewClientFixture newClient ps ds rss cms ss eps = Some f \<and> cluster_inv (cf_caches f)
    \<and> (\<forall>ns name p. get_proxy (cf_caches f) ns name = Inr p \<longleftrightarrow> p \<in> set ps \<and> meta_key (mp_Meta p) = ns @ ''/'' @ name)
    \<and> (\<forall>p. p \<in> set ps \<longleftrightarrow> store_get (obj_key p) (cf_CRDClient f) = Inr p \<and> proper (obj_key p))
    \<and> map_of (cf_Informers f) = (\<lambda>_. Some every_namespace)"
proof -
  have keys: "distinct (map obj_key ps)"
  proof -
    have "meta_key (mp_Meta p) = meta_key (mp_Meta q)" if "obj_key p = obj_key q" for p q
      using that by (simp add: obj_key_def meta_key_def)
    then show ?thesis using assms(2) unfolding distinct_map inj_on_def comp_apply by blast
  qed
  obtain f where f: "NewClientFixture newClient ps ds rss cms ss eps = Some f"
    "NewSimpleClientset (map ProxyObject ps) = Some (cf_CRDClient f)" "fake_inv (cf_CRDClient f)"
    "store_content (cf_CRDClient f) = map_of (map (\<lambda>p. (obj_key p, p)) ps)"
    "cf_caches f = empty_cluster\<lparr>
       cl_proxies := fill mp_Meta ps, cl_deployments := fill d_Meta ds, cl_replicasets := fill rs_Meta rss,
       cl_configmaps := fill cm_Meta cms, cl_services := fill svc_Meta ss, cl_endpoints := fill eps_Meta eps\<rparr>"
    "\<And>kind. map_of (cf_Informers f) kind = Some every_namespace"
    by (rule NewClientFixture_made [of newClient ds rss cms ss eps ps, OF assms(1) keys]) (rule that)
  have inv: "cluster_inv (cf_caches f)" unfolding f(5) by (rule cluster_inv_fixture)
  have proxies: "cl_proxies (cf_caches f) = fill mp_Meta ps" unfolding f(5) by simp
  have cached: "get_proxy (cf_caches f) ns name = Inr p \<longleftrightarrow> p \<in> set ps \<and> meta_key (mp_Meta p) = ns @ ''/'' @ name" for ns name p
  proof -
    have "get_proxy (cf_caches f) ns name = Inr p \<longleftrightarrow> map_of (map (\<lambda>p. ((meta_key \<circ> mp_Meta) p, p)) ps) (ns @ ''/'' @ name) = Some p"
      unfolding get_proxy_def lister_Get_def ix_GetByKey_def proxies fill_items [OF assms(2)] by (simp split: option.split)
    then show ?thesis unfolding map_of_keys_Some [OF assms(2)] by simp
  qed
  have stored: "p \<in> set ps \<longleftrightarrow> store_get (obj_key p) (cf_CRDClient f) = Inr p \<and> proper (obj_key p)" for p
    using store_get_map(1) [OF f(3), of "obj_key p"] f(4) map_of_keys_Some [OF keys, of "obj_key p" p] assms(3)
    by (cases "store_content (cf_CRDClient f) (obj_key p)") auto
  have "map_of (cf_Informers f) = (\<lambda>_. Some every_namespace)" using f(6) by (rule ext)
  then show ?thesis using f(1) inv cached stored by blast
qed

text \<open>
  The unit test of the service controller passes, for every proxy a fixture can make, whatever its name, identifier and rules, unless
  an informer is faster: with no service in the cluster, one sync sends one create, of a service controlled by the proxy on the
  proxy's port.
\<close>

theorem service_unit_test_passes_iff:
  assumes "CHR ''/'' \<notin> set name" and "newClient [] \<noteq> None" and "accepts e"
    and "p = NewMemcachedProxy uid name rules"
  shows "unit_test (service_syncHandler e) (meta_key (mp_Meta p)) (NewClientFixture newClient [p] [] [] [] [] []) ws turns
    (expect_service p (NewMemcachedProxyService uid' p)) = passed
    \<longleftrightarrow> list_all (\<lambda>w. \<not> on_core_client (InformerCall w)) ws"
proof -
  obtain f where f: "NewClientFixture newClient [p] [] [] [] [] [] = Some f" "cl_services (cf_caches f) = new_indexer"
    "cl_actions (cf_caches f) = []"
    and key: "SplitMetaNamespaceKey (meta_key (mp_Meta p)) = Inr (''default'', name)"
    "get_proxy (ctl_cluster (start (cf_caches f))) ''default'' name = Inr p"
    "om_Generation (mp_Meta p) = st_ObservedGeneration (mp_Status p)"
    by (rule one_proxy [of newClient "[]" "[]" "[]" name p uid rules]) (use assms in \<open>simp_all add: empty_cluster_def start_def\<close>)
  obtain err where missing: "lister_Get ''service'' (cl_services (ctl_cluster (start (cf_caches f)))) ''default'' (GetProxyServiceName p) = Inl err"
    by (simp add: lister_Get_def ix_GetByKey_def new_indexer_def start_def f(2))
  let ?s = "desired_service ''default'' (GetProxyServiceName p) p 11211"
  obtain r where r: "env_api e [] (CreateService ''default'' ?s) = Inr r"
    using assms(3) by (metis accepts_def isl_def sum.exhaust)
  have port: "mr_Port (spec_McRouter (mp_Spec p)) = Some 11211" by (simp add: assms(4))
  have "service_syncHandler e (meta_key (mp_Meta p)) (start (cf_caches f))
      = service_sync e (start (cf_caches f)) ''default'' p"
    unfolding service_syncHandler_def by (rule with_observed_proxy_current [OF key])
  also have "\<dots> = (RetNil, on_cluster (\<lambda>cl. recordServiceEvent ''create'' p ?s None (snd (api_call e (CreateService ''default'' ?s) cl))) (start (cf_caches f)))"
    unfolding service_sync_missing [OF missing port] by (simp add: Let_def f(3) start_def r)
  finally have sync: "service_syncHandler e (meta_key (mp_Meta p)) (start (cf_caches f)) = (RetNil, on_cluster
      (\<lambda>cl. recordServiceEvent ''create'' p ?s None (snd (api_call e (CreateService ''default'' ?s) cl))) (start (cf_caches f)))" .
  show ?thesis unfolding expect_service_def
  proof (rule unit_test_one)
    show "NewClientFixture newClient [p] [] [] [] [] [] = Some f" by (rule f(1))
    show "service_syncHandler e (meta_key (mp_Meta p)) (start (cf_caches f)) = (RetNil, on_cluster
      (\<lambda>cl. recordServiceEvent ''create'' p ?s None (snd (api_call e (CreateService ''default'' ?s) cl))) (start (cf_caches f)))"
      by (rule sync)
    show "cl_actions (ctl_cluster (on_cluster (\<lambda>cl. recordServiceEvent ''create'' p ?s None
        (snd (api_call e (CreateService ''default'' ?s) cl))) (start (cf_caches f)))) = [CreateService ''default'' ?s]"
      by (simp add: on_cluster_def start_def f(3))
    show "Check \<lparr>ea_Action = core_view (SyncCall (CreateService (om_Namespace (svc_Meta (NewMemcachedProxyService uid' p)))
        (NewMemcachedProxyService uid' p))), ea_F = Some (check_service p)\<rparr> (core_view (SyncCall (CreateService ''default'' ?s))) = passed"
      unfolding Check_view
      by (simp add: core_Matches_def core_call_def and_then_passed port NewMemcachedProxyService_def NamespaceDefault_def desired_service_def
          IsControlledBy_NewProxyOwnerRef)
  qed (simp_all add: core_call_def)
qed

text \<open>
  The unit test of the deployment controller passes, for every proxy a fixture can make and any number in the name of its config
  map, unless an informer is faster: one sync sends one create, of a deployment controlled by the proxy, with the proxy's image and port.
\<close>

theorem deployment_unit_test_passes_iff:
  assumes "CHR ''/'' \<notin> set name" and "newClient [ConfigMapObject cm] \<noteq> None" and "accepts e" and "permutes_keys (env_range e)"
    and "p = NewMemcachedProxy uid name rules" and "cm = NewProxyConfigMap n p"
    and "NewMemcachedProxyDeployment uid' p cm = Some d"
  shows "unit_test (deployment_syncHandler e) (meta_key (mp_Meta p)) (NewClientFixture newClient [p] [] [] [cm] [] []) ws turns
    (expect_deployment p d) = passed
    \<longleftrightarrow> list_all (\<lambda>w. \<not> on_core_client (InformerCall w)) ws"
proof -
  obtain f where f: "NewClientFixture newClient [p] [] [] [cm] [] [] = Some f" "cl_configmaps (cf_caches f) = ix_Add cm_Meta cm new_indexer"
    "cl_deployments (cf_caches f) = new_indexer" "cl_actions (cf_caches f) = []" "cluster_inv (cf_caches f)"
    and key: "SplitMetaNamespaceKey (meta_key (mp_Meta p)) = Inr (''default'', name)"
    "get_proxy (ctl_cluster (start (cf_caches f))) ''default'' name = Inr p"
    "om_Generation (mp_Meta p) = st_ObservedGeneration (mp_Status p)"
    by (rule one_proxy [of newClient "[cm]" "[]" "[]" name p uid rules]) (use assms(1-5) in \<open>simp_all add: empty_cluster_def start_def\<close>)
  have port: "mr_Port (spec_McRouter (mp_Spec p)) = Some 11211" by (simp add: assms(5))
  have cm: "om_Namespace (cm_Meta cm) = om_Namespace (mp_Meta p)" "IsControlledBy (cm_Meta cm) (mp_Meta p)"
    by (simp_all add: assms(6) NewProxyConfigMap_def IsControlledBy_def GetControllerOf_def proxy_ref_def NewControllerRef_def)
  have "owned_deployments (ctl_cluster (start (cf_caches f))) p = {}" "owned_configmaps (ctl_cluster (start (cf_caches f))) p = {cm}"
    using cm by (auto simp: owned_deployments_def owned_configmaps_def start_def f(2,3) objects_single)
  then have found: "GetDeploymentsForProxy e (ctl_cluster (start (cf_caches f))) p = (None, [], None)"
      "GetConfigMapForProxy e (ctl_cluster (start (cf_caches f))) p = Inr (Some cm)"
    using f(5) assms(4) by (simp_all add: GetDeploymentsForProxy_none GetConfigMapForProxy_one start_def)
  let ?d = "desired_deployment p (om_Name (cm_Meta cm)) 11211"
  let ?r = "deployment_syncHandler e (meta_key (mp_Meta p)) (start (cf_caches f))"
  have ns: "om_Namespace (mp_Meta p) = ''default''" by (simp add: assms(5))
  have r: "cl_actions (ctl_cluster (snd ?r)) = [CreateDeployment ''default'' ?d]" "fst ?r = RetNil"
    using deployment_sync_fresh [OF found port, of "meta_key (mp_Meta p)" "''default''"] assms(3)
    unfolding deployment_syncHandler_def with_observed_proxy_current [OF key]
    by (simp_all add: Let_def ns accepts_def start_def f(4))
  have d: "om_Namespace (d_Meta d) = ''default''"
    using assms(7) ns port by (auto simp: NewMemcachedProxyDeployment_def)
  show ?thesis unfolding expect_deployment_def
  proof (rule unit_test_one)
    show "NewClientFixture newClient [p] [] [] [cm] [] [] = Some f" by (rule f(1))
    show "?r = (RetNil, snd ?r)" using r(2) by (metis prod.collapse)
    show "cl_actions (ctl_cluster (snd ?r)) = [CreateDeployment ''default'' ?d]" by (rule r(1))
    show "Check \<lparr>ea_Action = core_view (SyncCall (CreateDeployment (om_Namespace (d_Meta d)) d)), ea_F = Some (check_deployment p)\<rparr>
      (core_view (SyncCall (CreateDeployment ''default'' ?d))) = passed"
      using desired_deployment_shape(1) [of p "om_Name (cm_Meta cm)" 11211] unfolding Check_view
      by (simp add: core_Matches_def core_call_def and_then_passed port d) (simp add: and_then_passed desired_deployment_def mcrouter_container_def Let_def)
  qed (simp_all add: core_call_def)
qed


section \<open>Witnesses\<close>

lemma fixture_service_name:
  "om_Name (svc_Meta (NewMemcachedProxyService uid p)) \<noteq> GetProxyServiceName p"
  by (simp add: NewMemcachedProxyService_def GetProxyServiceName_def MakeName_def Let_def)

definition any_client :: "core_object list \<Rightarrow> unit option" where
  "any_client objs = Some ()"

lemma accepts_accepting: "accepts accepting_env"
  by (simp add: accepts_def accepting_env_def)

theorem fixture_consistent_witness:
  "\<exists>f. NewClientFixture any_client [NewShardedProxy ''uid'' ''hoge'' ''fuga''] [] [] [] [] [] = Some f
     \<and> get_proxy (cf_caches f) ''default'' ''hoge'' = Inr (NewShardedProxy ''uid'' ''hoge'' ''fuga'')
     \<and> store_get (''default'', ''hoge'') (cf_CRDClient f) = Inr (NewShardedProxy ''uid'' ''hoge'' ''fuga'')"
proof -
  let ?p = "NewShardedProxy ''uid'' ''hoge'' ''fuga''"
  have key: "obj_key ?p = (''default'', ''hoge'')" "meta_key (mp_Meta ?p) = ''default'' @ ''/'' @ ''hoge''"
    by (simp_all add: NewShardedProxy_def obj_key_def meta_key_def)
  obtain f where f: "NewClientFixture any_client [?p] [] [] [] [] [] = Some f"
    "\<forall>ns name p. get_proxy (cf_caches f) ns name = Inr p \<longleftrightarrow> p \<in> set [?p] \<and> meta_key (mp_Meta p) = ns @ ''/'' @ name"
    "\<forall>p. p \<in> set [?p] \<longleftrightarrow> store_get (obj_key p) (cf_CRDClient f) = Inr p \<and> proper (obj_key p)"
    using fixture_consistent [of any_client "[]" "[]" "[]" "[]" "[]" "[?p]"] by (auto simp: any_client_def key proper_def)
  have "get_proxy (cf_caches f) ''default'' ''hoge'' = Inr ?p" by (rule f(2) [rule_format, THEN iffD2]) (simp add: key)
  moreover have "store_get (obj_key ?p) (cf_CRDClient f) = Inr ?p" using f(3) [rule_format, THEN iffD1] by simp
  ultimately show ?thesis using f(1) unfolding key by blast
qed

theorem service_unit_test_passes_iff_witness:
  "unit_test (service_syncHandler accepting_env) (meta_key (mp_Meta (NewShardedProxy ''uid'' ''hoge'' ''fuga'')))
     (NewClientFixture any_client [NewShardedProxy ''uid'' ''hoge'' ''fuga''] [] [] [] [] []) [] []
     (expect_service (NewShardedProxy ''uid'' ''hoge'' ''fuga'') (NewMemcachedProxyService ''uid-2'' (NewShardedProxy ''uid'' ''hoge'' ''fuga''))) = passed"
  by (rule service_unit_test_passes_iff [of "''hoge''" any_client _ _ "''uid''", THEN iffD2])
    (simp_all add: any_client_def accepts_accepting NewShardedProxy_def)

theorem deployment_unit_test_passes_iff_witness:
  "\<exists>d. unit_test (deployment_syncHandler accepting_env) (meta_key (mp_Meta (NewShardedProxy ''uid'' ''hoge'' ''fuga'')))
     (NewClientFixture any_client [NewShardedProxy ''uid'' ''hoge'' ''fuga''] [] []
       [NewProxyConfigMap 42 (NewShardedProxy ''uid'' ''hoge'' ''fuga'')] [] []) [] []
     (expect_deployment (NewShardedProxy ''uid'' ''hoge'' ''fuga'') d) = passed"
proof -
  let ?p = "NewShardedProxy ''uid'' ''hoge'' ''fuga''"
  have p: "?p = NewMemcachedProxy ''uid'' ''hoge'' (RuleSpec ShardedRuleType (Some (fixture_service ''fuga'')) None)"
    by (simp add: NewShardedProxy_def)
  obtain d where d: "NewMemcachedProxyDeployment ''uid-2'' ?p (NewProxyConfigMap 42 ?p) = Some d"
    by (simp add: NewMemcachedProxyDeployment_def p)
  show ?thesis
    by (rule exI, rule deployment_unit_test_passes_iff [OF _ _ accepts_accepting _ p refl d, THEN iffD2]) (simp_all add: any_client_def)
qed


end
