(* ===== verification/TestClient.thy ===== *)
theory TestClient
  imports Naming
begin

text \<open>
  The load generator of test/testclient/main.go: readers and writers on a memcached server, a goroutine that counts their results,
  one that prints the counts, one that waits for a signal. It is modelled as a step relation on the state of its goroutines and
  of the channels between them; \<open>tc_calls\<close> logs what was asked of the memcached client, whose answers are arbitrary.

  \<open>done\<close> is an unbuffered channel: a send needs a receiver, and any goroutine that waits for \<open>done\<close> may be the one; the language does
  not say which. A \<open>select\<close> with a default takes it only when no other case is ready. The other three channels are
  buffered, and a send on a full one waits. A critical section is one step, since it does nothing but count while it holds the lock.
\<close>

section \<open>State\<close>

record tc_flags =
  tf_addr :: string
  tf_numWrites :: int
  tf_numReads :: int
  tf_keySpace :: int
  tf_dataSize :: int

definition tc_default_flags :: tc_flags where
  "tc_default_flags = \<lparr>tf_addr = [], tf_numWrites = 5, tf_numReads = 10, tf_keySpace = 100000, tf_dataSize = 1000\<rparr>"

record Stats =
  CacheHits :: "64 word"
  CacheMisses :: "64 word"
  Writes :: "64 word"
  Errors :: "64 word"

definition zero_stats :: Stats where
  "zero_stats = \<lparr>CacheHits = 0, CacheMisses = 0, Writes = 0, Errors = 0\<rparr>"

datatype mc_error = ErrCacheMiss | McError string

datatype mc_call = McGet string "mc_error option" | McSet string "mc_error option"
  \<comment> \<open>the key and the error returned\<close>

text \<open>Where a goroutine is: at its \<open>select\<close>, before a send, or at its end.\<close>

datatype reader = ReadSelect | SendRead bool | SendReadErr mc_error | ReadReturned
datatype writer = WriteStart | WriteSelect | SendWrite "mc_error option" | SendWriteErr mc_error | WriteReturned
datatype signaller = AwaitSignal | SendDone | SignalReturned

record tc_state =
  tc_returned :: bool
  tc_crashed :: bool
  tc_signal :: signaller
  tc_printer :: bool
  tc_counter :: bool
  tc_readers :: "reader list"
  tc_writers :: "writer list"
  tc_reads :: "bool list"
  tc_writes :: "unit list"
  tc_errors :: "mc_error list"
  tc_stats :: Stats
  tc_printed :: "Stats list"
  tc_calls :: "mc_call list"

section \<open>Steps\<close>

definition keyMap :: "int \<Rightarrow> nat \<Rightarrow> string option" where
  \<comment> \<open>the map after the first loop of \<open>main\<close>\<close>
  "keyMap keySpace i = (if int i < keySpace then Some (sha1_hex (Itoa (int i))) else None)"

definition getKey :: "int \<Rightarrow> nat \<Rightarrow> string option" where
  \<comment> \<open>\<open>rand.Intn\<close> panics unless its argument is positive, and then gives any number below it\<close>
  "getKey keySpace intval =
     (if 0 < keySpace \<and> int intval < keySpace
      then Some (case keyMap keySpace intval of None \<Rightarrow> [] | Some k \<Rightarrow> k) else None)"

definition channel_cap :: nat where "channel_cap = 1000"

definition count_read :: "bool \<Rightarrow> Stats \<Rightarrow> Stats" where
  "count_read h s = (if h then s\<lparr>CacheHits := CacheHits s + 1\<rparr> else s\<lparr>CacheMisses := CacheMisses s + 1\<rparr>)"

definition count_write :: "Stats \<Rightarrow> Stats" where
  "count_write s = s\<lparr>Writes := Writes s + 1\<rparr>"

definition count_error :: "Stats \<Rightarrow> Stats" where
  "count_error s = s\<lparr>Errors := Errors s + 1\<rparr>"

definition print_stats :: "Stats \<Rightarrow> Stats" where
  \<comment> \<open>what printing leaves\<close>
  "print_stats s = s\<lparr>CacheHits := 0, CacheMisses := 0, Writes := 0, Errors := 0\<rparr>"

fun after_get :: "mc_error option \<Rightarrow> reader" where
  "after_get None = SendRead True"
| "after_get (Some ErrCacheMiss) = SendRead False"
| "after_get (Some (McError e)) = SendReadErr (McError e)"

fun after_write_sent :: "mc_error option \<Rightarrow> writer" where
  "after_write_sent None = WriteSelect"
| "after_write_sent (Some e) = SendWriteErr e"

definition set_reader :: "nat \<Rightarrow> reader \<Rightarrow> tc_state \<Rightarrow> tc_state" where
  "set_reader i r s = s\<lparr>tc_readers := (tc_readers s)[i := r]\<rparr>"

definition set_writer :: "nat \<Rightarrow> writer \<Rightarrow> tc_state \<Rightarrow> tc_state" where
  "set_writer i w s = s\<lparr>tc_writers := (tc_writers s)[i := w]\<rparr>"

definition reader_at :: "tc_state \<Rightarrow> nat \<Rightarrow> reader \<Rightarrow> bool" where
  "reader_at s i r \<longleftrightarrow> i < length (tc_readers s) \<and> tc_readers s ! i = r"

definition writer_at :: "tc_state \<Rightarrow> nat \<Rightarrow> writer \<Rightarrow> bool" where
  "writer_at s i w \<longleftrightarrow> i < length (tc_writers s) \<and> tc_writers s ! i = w"

definition tc_init :: "tc_flags \<Rightarrow> tc_state" where
  \<comment> \<open>\<open>main\<close> has started everything and waits\<close>
  "tc_init f = \<lparr>tc_returned = False, tc_crashed = False, tc_signal = AwaitSignal, tc_printer = True, tc_counter = True,
     tc_readers = replicate (nat (tf_numReads f)) ReadSelect, tc_writers = replicate (nat (tf_numWrites f)) WriteStart,
     tc_reads = [], tc_writes = [], tc_errors = [], tc_stats = zero_stats, tc_printed = [], tc_calls = []\<rparr>"

definition tc_running :: "tc_state \<Rightarrow> bool" where
  \<comment> \<open>the program ends when \<open>main\<close> returns or a goroutine panics\<close>
  "tc_running s \<longleftrightarrow> \<not> tc_returned s \<and> \<not> tc_crashed s"

inductive tc_step :: "tc_flags \<Rightarrow> tc_state \<Rightarrow> tc_state \<Rightarrow> bool" for f where
  signal: "tc_running s \<Longrightarrow> tc_signal s = AwaitSignal \<Longrightarrow> tc_step f s (s\<lparr>tc_signal := SendDone\<rparr>)"
| done_main: "tc_running s \<Longrightarrow> tc_signal s = SendDone \<Longrightarrow>
     tc_step f s (s\<lparr>tc_signal := SignalReturned, tc_returned := True\<rparr>)"
| done_printer: "tc_running s \<Longrightarrow> tc_signal s = SendDone \<Longrightarrow> tc_printer s \<Longrightarrow>
     tc_step f s (s\<lparr>tc_signal := SignalReturned, tc_printer := False\<rparr>)"
| done_counter: "tc_running s \<Longrightarrow> tc_signal s = SendDone \<Longrightarrow> tc_counter s \<Longrightarrow>
     tc_step f s (s\<lparr>tc_signal := SignalReturned, tc_counter := False\<rparr>)"
| done_reader: "tc_running s \<Longrightarrow> tc_signal s = SendDone \<Longrightarrow> reader_at s i ReadSelect \<Longrightarrow>
     tc_step f s (set_reader i ReadReturned (s\<lparr>tc_signal := SignalReturned\<rparr>))"
| done_writer: "tc_running s \<Longrightarrow> tc_signal s = SendDone \<Longrightarrow> writer_at s i WriteSelect \<Longrightarrow>
     tc_step f s (set_writer i WriteReturned (s\<lparr>tc_signal := SignalReturned\<rparr>))"
| print: "tc_running s \<Longrightarrow> tc_printer s \<Longrightarrow>
     tc_step f s (s\<lparr>tc_printed := tc_printed s @ [tc_stats s], tc_stats := print_stats (tc_stats s)\<rparr>)"
| counted_read: "tc_running s \<Longrightarrow> tc_counter s \<Longrightarrow> tc_reads s = h # rest \<Longrightarrow>
     tc_step f s (s\<lparr>tc_reads := rest, tc_stats := count_read h (tc_stats s)\<rparr>)"
| counted_write: "tc_running s \<Longrightarrow> tc_counter s \<Longrightarrow> tc_writes s = u # rest \<Longrightarrow>
     tc_step f s (s\<lparr>tc_writes := rest, tc_stats := count_write (tc_stats s)\<rparr>)"
| counted_error: "tc_running s \<Longrightarrow> tc_counter s \<Longrightarrow> tc_errors s = e # rest \<Longrightarrow>
     tc_step f s (s\<lparr>tc_errors := rest, tc_stats := count_error (tc_stats s)\<rparr>)"
| read_get: "tc_running s \<Longrightarrow> tc_signal s \<noteq> SendDone \<Longrightarrow> reader_at s i ReadSelect \<Longrightarrow> getKey (tf_keySpace f) n = Some key \<Longrightarrow>
     tc_step f s (set_reader i (after_get err) (s\<lparr>tc_calls := tc_calls s @ [McGet key err]\<rparr>))"
| read_panic: "tc_running s \<Longrightarrow> tc_signal s \<noteq> SendDone \<Longrightarrow> reader_at s i ReadSelect \<Longrightarrow> tf_keySpace f \<le> 0 \<Longrightarrow>
     tc_step f s (s\<lparr>tc_crashed := True\<rparr>)"
| read_send: "tc_running s \<Longrightarrow> reader_at s i (SendRead h) \<Longrightarrow> length (tc_reads s) < channel_cap \<Longrightarrow>
     tc_step f s (set_reader i ReadSelect (s\<lparr>tc_reads := tc_reads s @ [h]\<rparr>))"
| read_send_error: "tc_running s \<Longrightarrow> reader_at s i (SendReadErr e) \<Longrightarrow> length (tc_errors s) < channel_cap \<Longrightarrow>
     tc_step f s (set_reader i ReadSelect (s\<lparr>tc_errors := tc_errors s @ [e]\<rparr>))"
| write_start: "tc_running s \<Longrightarrow> writer_at s i WriteStart \<Longrightarrow>
     tc_step f s (if tf_dataSize f < 0 then s\<lparr>tc_crashed := True\<rparr> else set_writer i WriteSelect s)"
| write_set: "tc_running s \<Longrightarrow> tc_signal s \<noteq> SendDone \<Longrightarrow> writer_at s i WriteSelect \<Longrightarrow> getKey (tf_keySpace f) n = Some key \<Longrightarrow>
     tc_step f s (set_writer i (SendWrite err) (s\<lparr>tc_calls := tc_calls s @ [McSet key err]\<rparr>))"
| write_panic: "tc_running s \<Longrightarrow> tc_signal s \<noteq> SendDone \<Longrightarrow> writer_at s i WriteSelect \<Longrightarrow> tf_keySpace f \<le> 0 \<Longrightarrow>
     tc_step f s (s\<lparr>tc_crashed := True\<rparr>)"
| write_send: "tc_running s \<Longrightarrow> writer_at s i (SendWrite err) \<Longrightarrow> length (tc_writes s) < channel_cap \<Longrightarrow>
     tc_step f s (set_writer i (after_write_sent err) (s\<lparr>tc_writes := tc_writes s @ [()]\<rparr>))"
| write_send_error: "tc_running s \<Longrightarrow> writer_at s i (SendWriteErr e) \<Longrightarrow> length (tc_errors s) < channel_cap \<Longrightarrow>
     tc_step f s (set_writer i WriteSelect (s\<lparr>tc_errors := tc_errors s @ [e]\<rparr>))"

inductive tc_reach :: "tc_flags \<Rightarrow> tc_state \<Rightarrow> bool" for f where
  tc_start: "tc_reach f (tc_init f)"
| tc_next: "tc_reach f s \<Longrightarrow> tc_step f s t \<Longrightarrow> tc_reach f t"

inductive_cases tc_stepE: "tc_step f s t"

section \<open>Accounts\<close>

definition tally :: "('a \<Rightarrow> bool) \<Rightarrow> 'a list \<Rightarrow> 64 word" where
  \<comment> \<open>how many, modulo the size of a counter\<close>
  "tally P xs = of_nat (length (filter P xs))"

definition hit :: "mc_call \<Rightarrow> bool" where "hit c \<longleftrightarrow> (\<exists>k. c = McGet k None)"
definition miss :: "mc_call \<Rightarrow> bool" where "miss c \<longleftrightarrow> (\<exists>k. c = McGet k (Some ErrCacheMiss))"
definition written :: "mc_call \<Rightarrow> bool" where "written c \<longleftrightarrow> (\<exists>k err. c = McSet k err)"
definition failed :: "mc_call \<Rightarrow> bool" where
  "failed c \<longleftrightarrow> (\<exists>k e. c = McGet k (Some (McError e))) \<or> (\<exists>k err. c = McSet k (Some err))"

definition booked :: "(Stats \<Rightarrow> 64 word) \<Rightarrow> tc_state \<Rightarrow> 64 word" where
  \<comment> \<open>what was printed and what is still to be\<close>
  "booked field s = sum_list (map field (tc_printed s)) + field (tc_stats s)"

definition books_balance :: "tc_state \<Rightarrow> bool" where
  \<comment> \<open>calls are counted, in a channel, or about to be sent\<close>
  "books_balance s \<longleftrightarrow>
     tally hit (tc_calls s) = booked CacheHits s + tally id (tc_reads s) + tally ((=) (SendRead True)) (tc_readers s)
     \<and> tally miss (tc_calls s) = booked CacheMisses s + tally Not (tc_reads s) + tally ((=) (SendRead False)) (tc_readers s)
     \<and> tally written (tc_calls s) = booked Writes s + tally (\<lambda>_. True) (tc_writes s)
         + tally (\<lambda>w. \<exists>err. w = SendWrite err) (tc_writers s)
     \<and> tally failed (tc_calls s) = booked Errors s + tally (\<lambda>_. True) (tc_errors s)
         + tally (\<lambda>r. \<exists>e. r = SendReadErr e) (tc_readers s)
         + tally (\<lambda>w. \<exists>e. w = SendWriteErr e \<or> w = SendWrite (Some e)) (tc_writers s)"

definition stopped :: "tc_state \<Rightarrow> nat" where
  \<comment> \<open>how many goroutines have received from \<open>done\<close>, \<open>main\<close> among them\<close>
  "stopped s = (if tc_returned s then 1 else 0) + (if tc_printer s then 0 else 1) + (if tc_counter s then 0 else 1)
     + length (filter ((=) ReadReturned) (tc_readers s)) + length (filter ((=) WriteReturned) (tc_writers s))"


section \<open>Lemmas\<close>

lemma tally_simps [simp]:
  "tally P [] = 0" "tally P (x # xs) = (if P x then 1 else 0) + tally P xs"
  "tally P (xs @ ys) = tally P xs + tally P ys"
  by (simp_all add: tally_def)

lemma tally_replicate: "\<not> P x \<Longrightarrow> tally P (replicate n x) = 0"
  by (induction n) simp_all

lemma filter_update:
  "i < length xs \<Longrightarrow> length (filter P (xs[i := y])) + (if P (xs ! i) then 1 else 0) = length (filter P xs) + (if P y then 1 else 0)"
proof (induction xs arbitrary: i)
  case (Cons x xs)
  show ?case
  proof (cases i)
    case (Suc j)
    then show ?thesis using Cons.IH [of j] Cons.prems by (auto split: if_splits)
  qed simp
qed simp

lemma tally_update:
  assumes "i < length xs"
  shows "tally P (xs[i := y]) = tally P xs - (if P (xs ! i) then 1 else 0) + (if P y then 1 else 0)"
proof -
  have "of_nat (length (filter P (xs[i := y])) + (if P (xs ! i) then 1 else 0))
      = (of_nat (length (filter P xs) + (if P y then 1 else 0)) :: 64 word)"
    using filter_update [OF assms, of P y] by simp
  then show ?thesis by (auto simp: tally_def algebra_simps split: if_splits)
qed

lemma set_simps [simp]:
  "tc_readers (set_reader i r s) = (tc_readers s)[i := r]" "tc_writers (set_writer i w s) = (tc_writers s)[i := w]"
  "tc_writers (set_reader i r s) = tc_writers s" "tc_readers (set_writer i w s) = tc_readers s"
  "tc_calls (set_reader i r s) = tc_calls s" "tc_calls (set_writer i w s) = tc_calls s"
  "tc_reads (set_reader i r s) = tc_reads s" "tc_reads (set_writer i w s) = tc_reads s"
  "tc_writes (set_reader i r s) = tc_writes s" "tc_writes (set_writer i w s) = tc_writes s"
  "tc_errors (set_reader i r s) = tc_errors s" "tc_errors (set_writer i w s) = tc_errors s"
  "booked field (set_reader i r s) = booked field s" "booked field (set_writer i w s) = booked field s"
  "tc_returned (set_reader i r s) = tc_returned s" "tc_returned (set_writer i w s) = tc_returned s"
  "tc_signal (set_reader i r s) = tc_signal s" "tc_signal (set_writer i w s) = tc_signal s"
  "tc_printer (set_reader i r s) = tc_printer s" "tc_printer (set_writer i w s) = tc_printer s"
  "tc_counter (set_reader i r s) = tc_counter s" "tc_counter (set_writer i w s) = tc_counter s"
  by (simp_all add: set_reader_def set_writer_def booked_def)

lemma booked_frame [simp]:
  "booked field (s\<lparr>tc_calls := cs\<rparr>) = booked field s" "booked field (s\<lparr>tc_reads := rs\<rparr>) = booked field s"
  "booked field (s\<lparr>tc_writes := ws\<rparr>) = booked field s" "booked field (s\<lparr>tc_errors := es\<rparr>) = booked field s"
  "booked field (s\<lparr>tc_signal := sg\<rparr>) = booked field s" "booked field (s\<lparr>tc_crashed := b\<rparr>) = booked field s"
  "booked field (s\<lparr>tc_printer := b\<rparr>) = booked field s" "booked field (s\<lparr>tc_counter := b\<rparr>) = booked field s"
  "booked field (s\<lparr>tc_returned := b\<rparr>) = booked field s"
  by (simp_all add: booked_def)

lemma booked_counted:
  "booked field (s\<lparr>tc_stats := st\<rparr>) = booked field s + (field st - field (tc_stats s))"
  "booked field (s\<lparr>tc_printed := tc_printed s @ [st]\<rparr>) = booked field s + field st"
  by (simp_all add: booked_def)

lemma stats_simps [simp]:
  "CacheHits (count_read h s) = CacheHits s + (if h then 1 else 0)" "CacheMisses (count_read h s) = CacheMisses s + (if h then 0 else 1)"
  "Writes (count_read h s) = Writes s" "Errors (count_read h s) = Errors s"
  "CacheHits (count_write s) = CacheHits s" "CacheMisses (count_write s) = CacheMisses s"
  "Writes (count_write s) = Writes s + 1" "Errors (count_write s) = Errors s"
  "CacheHits (count_error s) = CacheHits s" "CacheMisses (count_error s) = CacheMisses s"
  "Writes (count_error s) = Writes s" "Errors (count_error s) = Errors s + 1"
  "CacheHits (print_stats s) = 0" "CacheMisses (print_stats s) = 0" "Writes (print_stats s) = 0" "Errors (print_stats s) = 0"
  by (simp_all add: count_read_def count_write_def count_error_def print_stats_def)

lemma call_kinds [simp]:
  "hit (McGet k err) \<longleftrightarrow> after_get err = SendRead True" "miss (McGet k err) \<longleftrightarrow> after_get err = SendRead False"
  "\<not> written (McGet k err)" "failed (McGet k err) \<longleftrightarrow> (\<exists>e. after_get err = SendReadErr e)"
  "\<not> hit (McSet k err)" "\<not> miss (McSet k err)" "written (McSet k err)" "failed (McSet k err) \<longleftrightarrow> err \<noteq> None"
  by (cases err rule: after_get.cases; auto simp: hit_def miss_def written_def failed_def)+

lemma after_get_reading [simp]: "after_get err \<noteq> ReadReturned" "after_get err \<noteq> ReadSelect"
  by (cases err rule: after_get.cases; simp)+

lemma after_write_sent_simps [simp]:
  "after_write_sent err \<noteq> WriteReturned" "after_write_sent err \<noteq> SendWrite x"
  "after_write_sent err = SendWriteErr e \<longleftrightarrow> err = Some e"
  by (cases err; simp; fail)+

lemma books_balance_step:
  assumes "tc_step f s t" and "books_balance s"
  shows "books_balance t"
  using assms(1)
proof cases
  case (read_get i n key err)
  then show ?thesis
    using assms(2) by (simp add: books_balance_def reader_at_def tally_update eq_commute)
next
  case (write_set i n key err)
  then show ?thesis
    using assms(2) by (simp add: books_balance_def writer_at_def tally_update)
next
  case (write_start i)
  then show ?thesis
    using assms(2) by (auto simp: books_balance_def writer_at_def tally_update)
next
  case (write_send i err)
  then show ?thesis
    using assms(2) by (auto simp: books_balance_def writer_at_def tally_update)
qed (use assms(2) in \<open>simp_all add: books_balance_def reader_at_def writer_at_def tally_update booked_counted add_ac\<close>)


lemma stopped_step:
  assumes "tc_step f s t" and "stopped s = (if tc_signal s = SignalReturned then 1 else 0)"
  shows "stopped t = (if tc_signal t = SignalReturned then 1 else 0)"
proof -
  have reader: "length (filter ((=) ReadReturned) ((tc_readers s)[i := r])) =
      length (filter ((=) ReadReturned) (tc_readers s)) + (if r = ReadReturned then 1 else 0)"
    if "reader_at s i q" "q \<noteq> ReadReturned" for i r q
    using filter_update [of i "tc_readers s" "(=) ReadReturned" r] that by (auto simp: reader_at_def split: if_splits)
  have writer: "length (filter ((=) WriteReturned) ((tc_writers s)[i := w])) =
      length (filter ((=) WriteReturned) (tc_writers s)) + (if w = WriteReturned then 1 else 0)"
    if "writer_at s i q" "q \<noteq> WriteReturned" for i w q
    using filter_update [of i "tc_writers s" "(=) WriteReturned" w] that by (auto simp: writer_at_def split: if_splits)
  from assms(1) show ?thesis
    by cases (use assms(2) in \<open>auto simp: stopped_def tc_running_def reader writer simp del: length_0_conv split: if_splits\<close>)
qed

lemma channels_step:
  assumes "tc_step f s t"
    and "length (tc_reads s) \<le> channel_cap \<and> length (tc_writes s) \<le> channel_cap \<and> length (tc_errors s) \<le> channel_cap"
  shows "length (tc_reads t) \<le> channel_cap \<and> length (tc_writes t) \<le> channel_cap \<and> length (tc_errors t) \<le> channel_cap"
  using assms(1) by cases (use assms(2) in auto)

lemma reach_channels:
  "tc_reach f s \<Longrightarrow> length (tc_reads s) \<le> channel_cap \<and> length (tc_writes s) \<le> channel_cap \<and> length (tc_errors s) \<le> channel_cap"
proof (induction rule: tc_reach.induct)
  case (tc_next s t)
  show ?case by (rule channels_step [OF tc_next.hyps(2) tc_next.IH])
qed (simp add: tc_init_def)

lemma reach_stopped: "tc_reach f s \<Longrightarrow> stopped s = (if tc_signal s = SignalReturned then 1 else 0)"
proof (induction rule: tc_reach.induct)
  case (tc_next s t)
  show ?case by (rule stopped_step [OF tc_next.hyps(2) tc_next.IH])
qed (simp add: tc_init_def stopped_def)

lemma signal_done_stays: "tc_step f s t \<Longrightarrow> tc_signal s = SignalReturned \<Longrightarrow> tc_signal t = SignalReturned \<and> tc_returned t = tc_returned s"
  by (cases rule: tc_step.cases) (auto split: if_splits)

text \<open>Results that have not been counted: in a channel, or with a goroutine that waits to send them.\<close>

definition uncounted :: "tc_state \<Rightarrow> nat" where
  "uncounted s = length (tc_reads s) + length (tc_writes s) + length (tc_errors s)
     + length (filter (\<lambda>r. r \<noteq> ReadSelect \<and> r \<noteq> ReadReturned) (tc_readers s))
     + length (filter (\<lambda>w. w \<noteq> WriteStart \<and> w \<noteq> WriteSelect \<and> w \<noteq> WriteReturned) (tc_writers s))"

lemma uncounted_step:
  assumes "tc_step f s t" and "\<not> tc_counter s"
  shows "length (tc_calls t) + uncounted s \<le> length (tc_calls s) + uncounted t \<and> \<not> tc_counter t
    \<and> length (tc_readers t) = length (tc_readers s) \<and> length (tc_writers t) = length (tc_writers s)"
proof -
  note reader = filter_update [of _ "tc_readers s" "\<lambda>r. r \<noteq> ReadSelect \<and> r \<noteq> ReadReturned"]
  note writer = filter_update [of _ "tc_writers s" "\<lambda>w. w \<noteq> WriteStart \<and> w \<noteq> WriteSelect \<and> w \<noteq> WriteReturned"]
  from assms(1) show ?thesis
  proof cases
    case (done_reader i)
    then show ?thesis using assms(2) reader [of i ReadReturned] by (simp add: uncounted_def reader_at_def)
  next
    case (done_writer i)
    then show ?thesis using assms(2) writer [of i WriteReturned] by (simp add: uncounted_def writer_at_def)
  next
    case (read_get i n key err)
    then show ?thesis using assms(2) reader [of i "after_get err"] by (simp add: uncounted_def reader_at_def)
  next
    case (read_send i h)
    then show ?thesis using assms(2) reader [of i ReadSelect] by (simp add: uncounted_def reader_at_def)
  next
    case (read_send_error i e)
    then show ?thesis using assms(2) reader [of i ReadSelect] by (simp add: uncounted_def reader_at_def)
  next
    case (write_start i)
    then show ?thesis using assms(2) writer [of i WriteSelect] by (simp add: uncounted_def writer_at_def)
  next
    case (write_set i n key err)
    then show ?thesis using assms(2) writer [of i "SendWrite err"] by (simp add: uncounted_def writer_at_def)
  next
    case (write_send i err)
    then show ?thesis using assms(2) writer [of i "after_write_sent err"] by (cases err) (simp_all add: uncounted_def writer_at_def)
  next
    case (write_send_error i e)
    then show ?thesis using assms(2) writer [of i WriteSelect] by (simp add: uncounted_def writer_at_def)
  qed (use assms(2) in \<open>simp_all add: uncounted_def\<close>)
qed

lemma uncounted_steps:
  assumes "(tc_step f)\<^sup>*\<^sup>* s t" and "\<not> tc_counter s"
  shows "length (tc_calls t) + uncounted s \<le> length (tc_calls s) + uncounted t \<and> \<not> tc_counter t
    \<and> length (tc_readers t) = length (tc_readers s) \<and> length (tc_writers t) = length (tc_writers s)"
  using assms(1)
proof (induction rule: rtranclp_induct)
  case (step t u)
  then show ?case using uncounted_step [OF step.hyps(2)] by auto
qed (simp add: assms(2))

lemma reach_steps: "(tc_step f)\<^sup>*\<^sup>* s t \<Longrightarrow> tc_reach f s \<Longrightarrow> tc_reach f t"
  by (induction rule: rtranclp_induct) (auto intro: tc_next)

lemma reach_balance: "tc_reach f s \<Longrightarrow> books_balance s"
proof (induction rule: tc_reach.induct)
  case tc_start
  then show ?case by (simp add: books_balance_def tc_init_def tally_replicate booked_def zero_stats_def)
next
  case (tc_next s t)
  show ?case by (rule books_balance_step [OF tc_next.hyps(2) tc_next.IH])
qed

section \<open>Properties\<close>

text \<open>
  C31. The statistics are right: in every reachable state, and modulo the size of the counters, the calls of the memcached client that were
  hits, misses, writes and failures are those printed, those counted since, and those whose result is still on its way, in a channel or in the
  hands of a goroutine. No result is lost or counted twice. A write that fails counts as a write and as an error.
\<close>

theorem client_counts_calls:
  assumes "tc_reach f s"
  shows "tally hit (tc_calls s) = booked CacheHits s + tally id (tc_reads s) + tally ((=) (SendRead True)) (tc_readers s)
    \<and> tally miss (tc_calls s) = booked CacheMisses s + tally Not (tc_reads s) + tally ((=) (SendRead False)) (tc_readers s)
    \<and> tally written (tc_calls s) = booked Writes s + tally (\<lambda>_. True) (tc_writes s)
      + tally (\<lambda>w. \<exists>err. w = SendWrite err) (tc_writers s)
    \<and> tally failed (tc_calls s) = booked Errors s + tally (\<lambda>_. True) (tc_errors s)
      + tally (\<lambda>r. \<exists>e. r = SendReadErr e) (tc_readers s)
      + tally (\<lambda>w. \<exists>e. w = SendWriteErr e \<or> w = SendWrite (Some e)) (tc_writers s)"
  using reach_balance [OF assms] unfolding books_balance_def .

text \<open>
  C32. A signal need not end the program. The signal is passed on by one send on \<open>done\<close>, so exactly one goroutine of all that wait for it stops,
  \<open>main\<close> or another; if it is another, \<open>main\<close> waits forever, whatever happens, and no later signal is looked at.
\<close>

theorem signal_stops_one_goroutine:
  assumes "tc_reach f s" and "tc_signal s = SignalReturned" and "(tc_step f)\<^sup>*\<^sup>* s t"
  shows "stopped s = 1 \<and> stopped t = 1 \<and> tc_returned t = tc_returned s"
proof -
  have "tc_signal t = SignalReturned \<and> tc_returned t = tc_returned s"
    using assms(3)
  proof (induction rule: rtranclp_induct)
    case (step t u)
    then show ?case using signal_done_stays [OF step.hyps(2)] by simp
  qed (simp add: assms(2))
  then show ?thesis using reach_stopped [OF assms(1)] reach_stopped [OF reach_steps [OF assms(3,1)]] assms(2) by simp
qed

text \<open>
  If it is the counter that stops, the load stops too: from then on there are at most 3000 calls, and one for each reader and writer,
  since the three channels fill up and every goroutine blocks at its next send.
\<close>

theorem load_ends_with_counter:
  assumes "tc_reach f s" and "\<not> tc_counter s" and "(tc_step f)\<^sup>*\<^sup>* s t"
  shows "length (tc_calls t) \<le> length (tc_calls s) + 3 * channel_cap + length (tc_readers s) + length (tc_writers s)"
proof -
  note channels = reach_channels [OF reach_steps [OF assms(3,1)]]
  have "uncounted t \<le> 3 * channel_cap + length (tc_readers t) + length (tc_writers t)"
    unfolding uncounted_def using channels
      length_filter_le [of "\<lambda>r. r \<noteq> ReadSelect \<and> r \<noteq> ReadReturned" "tc_readers t"]
      length_filter_le [of "\<lambda>w. w \<noteq> WriteStart \<and> w \<noteq> WriteSelect \<and> w \<noteq> WriteReturned" "tc_writers t"]
    by linarith
  then show ?thesis using uncounted_steps [OF assms(3,2)] by linarith
qed

text \<open>
  The keys are proper memcached keys: forty hexadecimal digits, whichever number is drawn. No key is drawn exactly when the
  key space is empty, in which case \<open>rand.Intn\<close> panics.
\<close>

theorem client_keys:
  "(case getKey keySpace n of
      Some key \<Rightarrow> 0 < keySpace \<and> length key = 40 \<and> list_all is_hex key
    | None \<Rightarrow> keySpace \<le> int n \<or> keySpace \<le> 0)"
  by (auto simp: getKey_def keyMap_def list_all_iff is_hex_sha1_hex split: option.split)

section \<open>Examples\<close>

text \<open>A signal that the printer takes, and one that the counter takes.\<close>

lemma signal_taken:
  assumes "g \<in> {tc_printer_update (\<lambda>_. False), tc_counter_update (\<lambda>_. False)}"
  shows "tc_reach f (g (tc_init f\<lparr>tc_signal := SignalReturned\<rparr>))"
proof -
  let ?s = "tc_init f\<lparr>tc_signal := SendDone\<rparr>"
  have "tc_step f (tc_init f) ?s" by (rule tc_step.signal) (simp_all add: tc_init_def tc_running_def)
  then have reach: "tc_reach f ?s" by (rule tc_next [OF tc_start])
  have "tc_step f ?s (?s\<lparr>tc_signal := SignalReturned, tc_printer := False\<rparr>)"
    by (rule tc_step.done_printer) (simp_all add: tc_init_def tc_running_def)
  moreover have "tc_step f ?s (?s\<lparr>tc_signal := SignalReturned, tc_counter := False\<rparr>)"
    by (rule tc_step.done_counter) (simp_all add: tc_init_def tc_running_def)
  ultimately show ?thesis using assms tc_next [OF reach] by auto
qed

theorem client_counts_calls_witness:
  "\<exists>s. tc_reach tc_default_flags s \<and> tc_calls s \<noteq> []
     \<and> tally hit (tc_calls s) = booked CacheHits s + tally id (tc_reads s) + tally ((=) (SendRead True)) (tc_readers s)"
proof -
  let ?s = "tc_init tc_default_flags"
  have key: "getKey (tf_keySpace tc_default_flags) 0 = Some (sha1_hex (Itoa 0))"
    by (simp add: getKey_def keyMap_def tc_default_flags_def)
  have "tc_step tc_default_flags ?s (set_reader 0 (after_get None) (?s\<lparr>tc_calls := tc_calls ?s @ [McGet (sha1_hex (Itoa 0)) None]\<rparr>))"
    by (rule tc_step.read_get [OF _ _ _ key]) (simp_all add: tc_init_def tc_running_def reader_at_def tc_default_flags_def)
  then have "tc_reach tc_default_flags (set_reader 0 (after_get None) (?s\<lparr>tc_calls := tc_calls ?s @ [McGet (sha1_hex (Itoa 0)) None]\<rparr>))"
    by (rule tc_next [OF tc_start])
  from client_counts_calls [OF this] this show ?thesis by (metis (no_types, lifting) set_simps(5) snoc_eq_iff_butlast tc_state.select_convs(13)
      tc_state.surjective tc_state.update_convs(13))
qed

theorem signal_stops_one_goroutine_witness:
  "\<exists>s. tc_reach tc_default_flags s \<and> tc_signal s = SignalReturned \<and> stopped s = 1 \<and> \<not> tc_returned s
     \<and> (\<forall>t. (tc_step tc_default_flags)\<^sup>*\<^sup>* s t \<longrightarrow> \<not> tc_returned t)"
proof -
  let ?s = "tc_init tc_default_flags\<lparr>tc_signal := SignalReturned, tc_printer := False\<rparr>"
  have reach: "tc_reach tc_default_flags ?s" using signal_taken [of "tc_printer_update (\<lambda>_. False)"] by simp
  have "\<not> tc_returned ?s" "tc_signal ?s = SignalReturned" by (simp_all add: tc_init_def)
  then show ?thesis using signal_stops_one_goroutine [OF reach] reach by blast
qed

theorem load_ends_with_counter_witness:
  "\<exists>s. tc_reach tc_default_flags s \<and> (\<forall>t. (tc_step tc_default_flags)\<^sup>*\<^sup>* s t \<longrightarrow> length (tc_calls t) \<le> 3015)"
proof -
  let ?s = "tc_init tc_default_flags\<lparr>tc_signal := SignalReturned, tc_counter := False\<rparr>"
  have reach: "tc_reach tc_default_flags ?s" using signal_taken [of "tc_counter_update (\<lambda>_. False)"] by simp
  have "length (tc_calls ?s) + 3 * channel_cap + length (tc_readers ?s) + length (tc_writers ?s) = 3015"
    by (simp add: tc_init_def tc_default_flags_def channel_cap_def)
  moreover have "\<not> tc_counter ?s" by simp
  ultimately show ?thesis using load_ends_with_counter [OF reach] reach by metis
qed

end
