(* ===== verification/Spec2Isabelle.thy ===== *)
theory Spec2Isabelle
  imports OperatorSystem Stability ProxyHeap ProxyInformers ClientWiring Fixtures TestClient
begin

text \<open>
  \<^bold>\<open>memcached-operator\<close> runs mcrouter in front of memcached clusters on Kubernetes. A user creates a \<open>MemcachedProxy\<close>, whose rules say how
  keys are spread over memcached services. Four controllers watch these objects: the \<^emph>\<open>proxy\<close> controller fills in defaults and
  records the generation it has seen; the \<^emph>\<open>service\<close> controller keeps a service in front of the mcrouter pods; the \<^emph>\<open>config
  map\<close> controller renders mcrouter's configuration from the rules and from the endpoints of the services, and manages the life of
  config maps; the \<^emph>\<open>deployment\<close> controller runs the pods with the newest config map. The controllers share informer
  caches and talk to each other through the API server only. This development models all four, what they share, and the
  operator as a whole, and proves what makes them work.

  \<^bold>\<open>The theories\<close>, from the bottom up; file names are relative to \<open>src/internal\<close> unless they start with another directory.

  \<^item> \<open>Prelude\<close>: Go values as HOL values. Errors, slices (nil or a list), finite maps as association lists with
    \<open>map_put\<close> and \<open>map_delete\<close>, \<open>fmt\<close> and \<open>strings\<close> functions, results that can also be a nil dereference.
  \<^item> \<open>KubeTypes\<close>: the Kubernetes types the code reads, owner references, label selectors, cache keys (vendor/k8s.io/apimachinery,
    client-go). Fields that the code copies without looking at them are one string, \<open>..._Rest\<close>.
  \<^item> \<open>ApiTypes\<close>: apis/ianlewis.org/v1alpha1/types.go and register.go, the custom resource and \<open>ApplyDefaults\<close>. \<open>ProxyHeap\<close>: the same
    with pointers in a store, and zz_generated.deepcopy.go; it shows that \<open>ApplyDefaults\<close> refines the version on values and that
    defaulting a copy does not touch the cache.
  \<^item> \<open>Sha1\<close>, \<open>Naming\<close>: controller/names.go, controller/meta.go, util/ownerref, util/hash.
  \<^item> \<open>Workqueue\<close>: client-go's work queue: queue, delayed adds, exponential back-off, and any number of workers on it. The locale
    \<open>work_queue\<close> is its contract.
  \<^item> \<open>Indexer\<close>: client-go's indexed store and the listers, with the locale \<open>namespace_lister\<close> for what a client may rely on, and \<open>ix_mutate\<close> for an
    assignment to a cached object.
  \<^item> \<open>Cluster\<close>: the state the controllers share (six caches, the log of API calls, the recorded events) and the
    environment \<open>env\<close>: the API server's answers, the order in which Go ranges over a map, for each place where it does, the validity of labels.
  \<^item> \<open>Operator\<close>: controller/operator.go, the objects a proxy controls.
  \<^item> \<open>Json\<close>, \<open>McRouterConfig\<close>: controller/proxyconfigmap/config.go, the configuration and its text.
  \<^item> \<open>ControllerLoop\<close>: the functions that the four controllers have in common, \<open>enqueue\<close>, \<open>enqueueOwned\<close>, \<open>Run\<close>, \<open>worker\<close>,
    \<open>processWorkItem\<close>, with \<open>syncHandler\<close> as a parameter. The locales \<open>sync_handler\<close> and \<open>panic_free_handler\<close> are what
    the loop needs of it; every controller interprets one of them.
  \<^item> \<open>ProxyController\<close>, \<open>ServiceController\<close>, \<open>DeploymentController\<close>, \<open>EndpointsHandlers\<close>, \<open>ConfigMapController\<close>: the directories
    controller/proxy, proxyservice, proxydeployment and proxyconfigmap (endpoints.go and controller.go).
  \<^item> \<open>OperatorMain\<close>: main.go, flags, the clients, the registration of the types, the registrations of the controllers and their construction
    by the controller manager, and the one informer for proxies that they share.
  \<^item> \<open>OperatorSystem\<close>: the running operator as a step relation over shared caches, queues and workers, each step with its own orders of map
    iteration (\<open>drawn\<close>), with the locales \<open>controller_set\<close> and \<open>safe_controllers\<close>. \<open>Stability\<close>: the states of the caches in which it rests, with the locale \<open>calm_controllers\<close>.
  \<^item> \<open>GoPath\<close>, \<open>Rest\<close>, \<open>Scheme\<close>: Go's \<open>path\<close> package, client-go's REST client and the scheme of the API machinery, with the
    registration of the types in apis/ianlewis.org/v1alpha1/register.go and clientset/versioned/scheme/register.go.
  \<^item> \<open>ProxyClient\<close>: client/clientset/versioned/clientset.go and typed/ianlewis.org/v1alpha1, the generated client, as the
    HTTP requests it sends. \<open>ClientWiring\<close> puts the proxy controller on it.
  \<^item> \<open>ProxyInformers\<close>: client/listers and client/informers/externalversions, the generated listers, informers and informer factory.
  \<^item> \<open>ObjectTracker\<close>, \<open>FakeClient\<close>: client-go's object tracker and the generated fake clientset, clientset/versioned/fake and
    typed/ianlewis.org/v1alpha1/fake. The locale \<open>proxy_store\<close> is what a client of a store of objects may rely on.
  \<^item> \<open>Fixtures\<close>: internal/test, the objects and checks of the unit tests, and the tests themselves.
  \<^item> \<open>TestClient\<close>: test/testclient/main.go (below \<open>src\<close>), the load generator, as a step relation on its goroutines and channels.
  \<^item> This theory: the properties that span the controllers.

  \<^bold>\<open>State and operations.\<close> A controller's state is \<open>ctl\<close>: the shared \<open>cluster\<close> and its own queue. A Go method that changes
  state is a function that returns the new state; one that can fail returns a sum; \<open>syncHandler\<close> returns an \<open>outcome\<close>: nil, an
  error or a panic. A lister returns the cached object itself in Go, so where the code assigns to it, the model mutates
  the cache, before and independently of the API call that follows. An API call is a value of type \<open>action\<close>, appended to the
  log; the answer is \<open>env_api\<close> of the log so far. Ports are 32-bit words, generations 64-bit words, times unbounded.

  \<^bold>\<open>What is shown.\<close> Per component: defaulting is idempotent and establishes what the controllers dereference; names have a
  fixed shape; the queue never hands one key to two workers and never loses one; retries are bounded and come back; listers
  return exactly the matching objects; the rendered configuration is the specified one, refers only to pools it defines, does not depend
  on map order and is determined by its text; each controller's sync is described on every branch, errors included,
  and its worker comes to rest. For the whole: \<open>provisioning\<close> follows a new proxy through all controllers to
  a working set of objects, \<open>operator_never_crashes\<close>, \<open>operator_invariant\<close> and \<open>operator_key_not_lost\<close> hold in every
  interleaving, and no controller touches another's objects (\<open>one_writer_per_type\<close>). \<open>operator_at_rest_iff\<close> says of every state of the caches
  whether the operator has anything left to do for a proxy, and lists the stages at which it has not; two of them, \<open>Stuck\<close> and \<open>Crowded\<close>, are no
  working configuration. \<open>operator_stays_at_rest\<close> shows that rest lasts until an informer brings news,
  \<open>handover_comes_to_rest\<close> that a rollout ends there. For the generated code: a call
  of the client sends requests for the object it names and for no other, and it sends none exactly when the call is malformed; the fake client
  refines a map from keys to proxies, except for patches and deletions of collections, which it ignores; the informer
  factory shares its informers and starts each once. On top of it, \<open>proxy_sync_requests\<close> says what a sync of the proxy controller puts on the
  wire, \<open>operator_reads_its_namespace\<close> what the program reads of proxies, and the unit tests of the controllers,
  for all fixtures and not only for those they use, pass exactly when the informers that run beside the sync have not called the client yet. The load generator counts every call once, but a signal
  need not stop it. Some theorems state behaviour that is
  not what a comment or the documentation says; they say so in their text.

  \<^bold>\<open>Bounds.\<close> The only loop that need not end is \<open>worker\<close>, which has fuel, one unit for each key; one unit more than there are
  pending keys is enough for it to come to rest (\<open>worker_rests\<close>). The loop of the REST client ends after ten attempts
  (\<open>maxRetries\<close>), the bound of the code. Every other function is total.

  \<^bold>\<open>Not modelled.\<close> Log output; command line parsing; the token bucket of the rate
  limiter and the hash function of util/hash, which are parameters, like the network, the encoders of objects and the core
  clientset; throttling and back-off inside the REST client. The packages typed/ianlewis/v1alpha1, listers/ianlewis.org and the accessors of
  informers/externalversions/ianlewis are left out: the generator ran twice, and they have the text of the packages that are modelled.
  The steps of \<open>OperatorSystem\<close> are whole calls of \<open>processWorkItem\<close>: two syncs of
  different workers do not overlap in it.
\<close>

section \<open>Specifications across components\<close>

definition selects_pods :: "Service \<Rightarrow> Deployment \<Rightarrow> bool" where
  \<comment> \<open>the pods of the deployment carry every label the service asks for\<close>
  "selects_pods s d \<longleftrightarrow> list_all (\<lambda>(k, v). map_of (om_Labels (pt_Meta (d_Template d))) k = Some v) (svc_Selector s)"

definition reaches_port :: "Service \<Rightarrow> Deployment \<Rightarrow> bool" where
  \<comment> \<open>every port of the service forwards to a port that some container opens\<close>
  "reaches_port s d \<longleftrightarrow> list_all (\<lambda>sp. list_ex (\<lambda>ct. list_ex (\<lambda>cp.
     is_Type (sp_TargetPort sp) = IntstrInt \<and> cp_ContainerPort cp = is_IntVal (sp_TargetPort sp)) (ct_Ports ct))
       (pt_Containers (d_Template d))) (svc_Ports s)"

definition seen :: "MemcachedProxy \<Rightarrow> MemcachedProxy" where
  \<comment> \<open>a proxy as the proxy controller writes it\<close>
  "seen p = updateStatus (ApplyDefaults p)"

definition stored_as :: "ConfigMap \<Rightarrow> ConfigMap \<Rightarrow> bool" where
  \<comment> \<open>what an informer reports of a created config map: the server has filled in other metadata\<close>
  "stored_as cm cm' \<longleftrightarrow> om_Name (cm_Meta cm') = om_Name (cm_Meta cm) \<and> om_Namespace (cm_Meta cm') = om_Namespace (cm_Meta cm)
     \<and> om_OwnerReferences (cm_Meta cm') = om_OwnerReferences (cm_Meta cm)"

definition fresh_proxy :: MemcachedProxy where
  \<comment> \<open>the sharded example before the proxy controller has recorded its generation\<close>
  "fresh_proxy = sharded_proxy\<lparr>mp_Status := \<lparr>st_ObservedGeneration = 0\<rparr>\<rparr>"

definition fresh_cluster :: cluster where
  \<comment> \<open>there is a config map of another proxy\<close>
  "fresh_cluster = serving_cluster\<lparr>cl_proxies := ix_Add mp_Meta fresh_proxy new_indexer,
     cl_configmaps := ix_Add cm_Meta example_configmap new_indexer\<rparr>"

section \<open>Lemmas\<close>

lemma seen_simps [simp]:
  "mp_Meta (seen p) = mp_Meta p" "mp_Spec (seen p) = mp_Spec (ApplyDefaults p)"
  "st_ObservedGeneration (mp_Status (seen p)) = om_Generation (mp_Meta p)"
  by (simp_all add: seen_def ApplyDefaults_def)

lemma seen_port: "\<exists>port. mr_Port (spec_McRouter (mp_Spec (ApplyDefaults p))) = Some port"
  by (auto simp: ApplyDefaults_McRouter McRouterSpec_ApplyDefaults_def Let_def)

lemma meta_cong:
  assumes "mp_Meta q = mp_Meta p"
  shows "GetProxyServiceSelector q = GetProxyServiceSelector p" "GetProxyServiceName q = GetProxyServiceName p"
    "owned_configmaps cl q = owned_configmaps cl p" "owned_deployments cl q = owned_deployments cl p"
  using assms by (simp_all add: GetProxyServiceSelector_def GetProxyServiceName_def owned_configmaps_def owned_deployments_def)

lemma renderable_cong:
  assumes "cl_services cl' = cl_services cl" and "cl_endpoints cl' = cl_endpoints cl" and "mp_Spec q = mp_Spec p"
  shows "renderable cl' q = renderable cl p"
proof -
  have "poolForService cl' = poolForService cl" unfolding poolForService_def [abs_def] assms by (rule refl)
  then show ?thesis by (simp add: renderable_def proxy_services_def assms(3))
qed

lemma get_proxy_set:
  assumes "om_Namespace (mp_Meta q) = ns" and "om_Name (mp_Meta q) = name" and "ns \<noteq> []"
  shows "get_proxy (apply_delta (SetProxy q) cl) ns name = Inr q"
  using assms by (simp add: get_proxy_iff meta_key_def)

lemma owned_configmaps_added:
  assumes "IsControlledBy (cm_Meta cm) (mp_Meta p)" and "om_Namespace (cm_Meta cm) = om_Namespace (mp_Meta p)"
    and "owned_configmaps cl p = {}"
  shows "owned_configmaps (apply_delta (SetConfigMap cm) cl) p = {cm}"
  using assms objects_add [of cm_Meta cm "cl_configmaps cl"] objects_added [of cm cm_Meta "cl_configmaps cl"] by (auto simp: owned_configmaps_def)

lemma delta_frame [simp]:
  "cl_services (apply_delta (SetProxy q) cl) = cl_services cl" "cl_endpoints (apply_delta (SetProxy q) cl) = cl_endpoints cl"
  "cl_configmaps (apply_delta (SetProxy q) cl) = cl_configmaps cl" "cl_actions (apply_delta d cl) = cl_actions cl"
  by (simp_all, cases d, simp_all)

lemma owned_delta:
  "owned_deployments (cl\<lparr>cl_proxies := ps\<rparr>) p = owned_deployments cl p"
  "owned_deployments (cl\<lparr>cl_configmaps := cms\<rparr>) p = owned_deployments cl p"
  "owned_configmaps (cl\<lparr>cl_proxies := ps\<rparr>) p = owned_configmaps cl p"
  by (simp_all add: owned_deployments_def owned_configmaps_def)

lemma desired_objects_fit:
  assumes "mp_Meta q = mp_Meta p"
  shows "selects_pods (desired_service ns n q port) (desired_deployment p cmName port)"
    "reaches_port (desired_service ns n q port) (desired_deployment p cmName port)"
    "mounts (desired_deployment p cmName port) cmName"
  using distinct_keys_selector [of p] meta_cong(1) [OF assms]
  by (auto simp: selects_pods_def reaches_port_def mounts_def desired_service_def desired_deployment_def mcrouter_container_def
      IntstrInt_def Let_def list_all_iff)

lemma proxy_stage:
  assumes "SplitMetaNamespaceKey key = Inr (ns, name)" and "get_proxy cl ns name = Inr p" and "\<not> settled p"
  shows "cl_actions (ctl_cluster (snd (proxy_syncHandler e key (start cl)))) = cl_actions cl @ [UpdateProxy (om_Namespace (mp_Meta p)) (seen p)]"
  using proxy_sync_result [of key ns name "start cl" p e] assms by (simp add: seen_def Let_def)

lemma service_stage:
  assumes "SplitMetaNamespaceKey key = Inr (ns, name)" and "get_proxy cl ns name = Inr (seen p)"
    and "isl (lister_Get ''service'' (cl_services cl) ns (GetProxyServiceName p))"
    and "mr_Port (spec_McRouter (mp_Spec (seen p))) = Some port"
  shows "cl_actions (ctl_cluster (snd (service_syncHandler e key (start cl)))) = cl_actions cl
    @ [CreateService ns (desired_service ns (GetProxyServiceName p) (seen p) port)]"
proof -
  have name: "GetProxyServiceName (seen p) = GetProxyServiceName p" by (rule meta_cong(2)) simp
  obtain err where "lister_Get ''service'' (cl_services (ctl_cluster (start cl))) ns (GetProxyServiceName (seen p)) = Inl err"
    using assms(3) by (auto simp: isl_def name)
  from service_sync_missing [OF this assms(4), of e] show ?thesis
    using with_observed_proxy_current [of key ns name "start cl" "seen p"] assms(1,2)
    by (simp add: service_syncHandler_def Let_def name)
qed

lemma configmap_stage:
  assumes "SplitMetaNamespaceKey key = Inr (ns, name)" and "get_proxy cl ns name = Inr (seen p)"
    and "cluster_inv cl" and "permutes_keys (env_range e)" and "owned_configmaps cl p = {}"
    and "configForProxy e cl (seen p) = Inr config"
    and "isl (lister_Get ''configmap'' (cl_configmaps cl) (om_Namespace (mp_Meta p))
      (MakeName (om_Name (mp_Meta p) @ ''-config-'') [om_Name (mp_Meta p), config_json config]))"
  shows "cl_actions (ctl_cluster (snd (configmap_syncHandler e key (start cl)))) = cl_actions cl
    @ [CreateConfigMap ns (rendered_configmap (seen p) (config_json config))]"
proof -
  have "configmap_syncHandler e key (start cl)
      = create_cm e key ns (seen p) (rendered_configmap (seen p) (config_json config)) (start cl)"
    using assms meta_cong(3) [of "seen p" p cl] by (intro configmap_sync_fresh) simp_all
  then show ?thesis by (simp add: create_cm_eq recordConfigMapEvent_def Let_def split: sum.split)
qed

lemma deployment_stage:
  assumes "SplitMetaNamespaceKey key = Inr (ns, name)" and "get_proxy cl ns name = Inr (seen p)"
    and "cluster_inv cl" and "permutes_keys (env_range e)" and "owned_deployments cl p = {}" and "owned_configmaps cl p = {cm}"
    and "mr_Port (spec_McRouter (mp_Spec (seen p))) = Some port"
  shows "cl_actions (ctl_cluster (snd (deployment_syncHandler e key (start cl)))) = cl_actions cl
    @ [CreateDeployment (om_Namespace (mp_Meta p)) (desired_deployment (seen p) (om_Name (cm_Meta cm)) port)]"
proof -
  have "GetDeploymentsForProxy e (ctl_cluster (start cl)) (seen p) = (None, [], None)"
    using assms(3-5) meta_cong(4) [of "seen p" p cl] by (intro GetDeploymentsForProxy_none) simp_all
  moreover have "GetConfigMapForProxy e (ctl_cluster (start cl)) (seen p) = Inr (Some cm)"
    using assms(3,4,6) meta_cong(3) [of "seen p" p cl] by (intro GetConfigMapForProxy_one) simp_all
  ultimately show ?thesis
    using deployment_sync_fresh [OF _ _ assms(7), of e "start cl" cm key ns]
      with_observed_proxy_current [of key ns name "start cl" "seen p"] assms(1,2)
    by (simp add: deployment_syncHandler_def Let_def)
qed

lemma stored_configmap_owned:
  assumes "stored_as (rendered_configmap (seen p) txt) cm" and "owned_configmaps cl p = {}"
  shows "owned_configmaps (apply_delta (SetConfigMap cm) cl) p = {cm}"
proof (rule owned_configmaps_added [OF _ _ assms(2)])
  have "IsControlledBy (cm_Meta cm) (mp_Meta (seen p))"
    using assms(1) by (intro IsControlledBy_NewProxyOwnerRef) (simp add: stored_as_def rendered_configmap_def)
  then show "IsControlledBy (cm_Meta cm) (mp_Meta p)" by simp
  show "om_Namespace (cm_Meta cm) = om_Namespace (mp_Meta p)" using assms(1) by (simp add: stored_as_def rendered_configmap_def)
qed

section \<open>Properties\<close>

text \<open>
  C1. The controllers work together. Take a proxy that has just appeared: no service has the name of its service, it controls no
  config map and no deployment, and no config map has the name its configuration will be given. Other proxies may be there, and so may
  what belongs to them. The rules of the proxy have known types and refer to services that resolve. The proxy controller writes it back
  with its defaults and the observed generation. Once that is in the cache, the service controller creates a service, and the config map
  controller creates a config map with the text of the proxy's configuration. Once the config map is in the cache, in whatever
  form the server stored it, the deployment controller creates a deployment that mounts that config map, whose pods
  the service selects and whose container listens on the port the service forwards to. Each sync has its own environment: whatever the
  server answers to it and in whatever order it ranges over maps.
\<close>

theorem provisioning:
  assumes "cluster_inv cl" and "permutes_keys (env_range e\<^sub>3)" and "permutes_keys (env_range e\<^sub>4)"
    and "om_Namespace (mp_Meta p) = ns" and "om_Name (mp_Meta p) = name"
    and "ns \<noteq> []" and "CHR ''/'' \<notin> set ns" and "CHR ''/'' \<notin> set name"
    and "get_proxy cl ns name = Inr p" and "\<not> settled p"
    and "isl (lister_Get ''service'' (cl_services cl) ns (GetProxyServiceName p))"
    and "owned_configmaps cl p = {}" and "owned_deployments cl p = {}" and "renderable cl (ApplyDefaults p)"
    and "\<And>config. configForProxy e\<^sub>3 cl (ApplyDefaults p) = Inr config \<Longrightarrow>
      isl (lister_Get ''configmap'' (cl_configmaps cl) ns (MakeName (name @ ''-config-'') [name, config_json config]))"
  shows "let key = ns @ ''/'' @ name; q = seen p; cl1 = apply_delta (SetProxy q) cl in
    cl_actions (ctl_cluster (snd (proxy_syncHandler e\<^sub>1 key (start cl)))) = cl_actions cl @ [UpdateProxy ns q]
    \<and> (\<exists>s cm d config.
        cl_actions (ctl_cluster (snd (service_syncHandler e\<^sub>2 key (start cl1)))) = cl_actions cl @ [CreateService ns s]
        \<and> configForProxy e\<^sub>3 cl1 q = Inr config
        \<and> cl_actions (ctl_cluster (snd (configmap_syncHandler e\<^sub>3 key (start cl1)))) = cl_actions cl @ [CreateConfigMap ns cm]
        \<and> map_of (cm_Data cm) = [''config.json'' \<mapsto> config_json config]
        \<and> (\<forall>cm'. stored_as cm cm' \<longrightarrow>
            cl_actions (ctl_cluster (snd (deployment_syncHandler e\<^sub>4 key (start (apply_delta (SetConfigMap cm') cl1)))))
              = cl_actions cl @ [CreateDeployment ns d])
        \<and> mounts d (om_Name (cm_Meta cm)) \<and> selects_pods s d \<and> reaches_port s d)"
proof -
  let ?key = "ns @ ''/'' @ name" and ?cl1 = "apply_delta (SetProxy (seen p)) cl"
  have key: "SplitMetaNamespaceKey ?key = Inr (ns, name)" by (rule SplitMetaNamespaceKey_pair [OF assms(7,8)])
  have get: "get_proxy ?cl1 ns name = Inr (seen p)" by (rule get_proxy_set) (simp_all add: assms(4-6))
  have inv: "cluster_inv ?cl1" by (rule apply_delta_inv [OF assms(1)])
  obtain port where port: "mr_Port (spec_McRouter (mp_Spec (seen p))) = Some port" using seen_port by auto
  have "renderable ?cl1 (seen p)" using renderable_cong [of ?cl1 cl "seen p" "ApplyDefaults p"] assms(14) by simp
  then obtain config where config: "configForProxy e\<^sub>3 ?cl1 (seen p) = Inr config"
    using configForProxy_renderable [OF assms(2)] by metis
  have "configForProxy e\<^sub>3 ?cl1 (seen p) = configForProxy e\<^sub>3 cl (seen p)" by (rule configForProxy_caches) simp_all
  also have "\<dots> = configForProxy e\<^sub>3 cl (ApplyDefaults p)" by (simp add: configForProxy_def)
  finally have free: "isl (lister_Get ''configmap'' (cl_configmaps cl) ns (MakeName (name @ ''-config-'') [name, config_json config]))"
    using assms(15) config by simp
  let ?s = "desired_service ns (GetProxyServiceName p) (seen p) port"
  let ?cm = "rendered_configmap (seen p) (config_json config)"
  let ?d = "desired_deployment (seen p) (om_Name (cm_Meta ?cm)) port"
  have svc: "cl_actions (ctl_cluster (snd (service_syncHandler e\<^sub>2 ?key (start ?cl1)))) = cl_actions cl @ [CreateService ns ?s]"
    using service_stage [OF key get _ port, of e\<^sub>2] assms(11) by simp
  have cm: "cl_actions (ctl_cluster (snd (configmap_syncHandler e\<^sub>3 ?key (start ?cl1)))) = cl_actions cl @ [CreateConfigMap ns ?cm]"
    using configmap_stage [OF key get inv assms(2) _ config] assms(4,5,12) free by (simp add: owned_delta)
  have dep: "cl_actions (ctl_cluster (snd (deployment_syncHandler e\<^sub>4 ?key (start (apply_delta (SetConfigMap cm') ?cl1)))))
      = cl_actions cl @ [CreateDeployment ns ?d]" if "stored_as ?cm cm'" for cm'
  proof -
    have "owned_configmaps (apply_delta (SetConfigMap cm') ?cl1) p = {cm'}"
      using stored_configmap_owned [OF that, of ?cl1] assms(12) by (simp add: owned_delta)
    moreover have "get_proxy (apply_delta (SetConfigMap cm') ?cl1) ns name = Inr (seen p)" using get by (simp add: get_proxy_def)
    moreover have "owned_deployments (apply_delta (SetConfigMap cm') ?cl1) p = {}" using assms(13) by (simp add: owned_delta)
    ultimately have "cl_actions (ctl_cluster (snd (deployment_syncHandler e\<^sub>4 ?key (start (apply_delta (SetConfigMap cm') ?cl1)))))
        = cl_actions (apply_delta (SetConfigMap cm') ?cl1) @ [CreateDeployment ns (desired_deployment (seen p) (om_Name (cm_Meta cm')) port)]"
      using deployment_stage [OF key _ apply_delta_inv [OF inv] assms(3) _ _ port, of "SetConfigMap cm'" cm'] assms(4) by blast
    moreover have "om_Name (cm_Meta cm') = om_Name (cm_Meta ?cm)" using that by (simp add: stored_as_def)
    ultimately show ?thesis by simp
  qed
  show ?thesis
    unfolding Let_def
    using proxy_stage [OF key assms(9,10), of e\<^sub>1] assms(4) svc cm dep config desired_objects_fit [of "seen p" "seen p"]
    by (intro conjI exI [of _ ?s] exI [of _ ?cm] exI [of _ ?d] exI [of _ config]) (simp_all add: rendered_configmap_def)
qed

text \<open>
  Keys round trip: the key under which a proxy's event is queued splits into the proxy's namespace and name, and looking these
  up in the cache gives that proxy back.
\<close>

theorem key_roundtrip:
  assumes "cluster_inv cl" and "p \<in> objects (cl_proxies cl)" and "om_Namespace (mp_Meta p) \<noteq> []"
    and "CHR ''/'' \<notin> set (om_Namespace (mp_Meta p))" and "CHR ''/'' \<notin> set (om_Name (mp_Meta p))"
  shows "\<exists>key ns name. enqueue (MetaObj (mp_Meta p)) q = wq_Add (StringItem key) q
    \<and> SplitMetaNamespaceKey key = Inr (ns, name) \<and> get_proxy cl ns name = Inr p"
proof -
  let ?m = "mp_Meta p"
  have inv: "ix_inv mp_Meta (cl_proxies cl)" using assms(1) by (simp add: cluster_inv_def)
  obtain k where k: "(k, p) \<in> set (ix_items (cl_proxies cl))" using assms(2) by (auto simp: objects_iff)
  have key: "k = om_Namespace ?m @ ''/'' @ om_Name ?m" using ix_inv_key [OF inv k] assms(3) by (simp add: meta_key_def)
  have "get_proxy cl (om_Namespace ?m) (om_Name ?m) = Inr p"
    using k ix_GetByKey_items [OF inv, of k p] by (simp add: get_proxy_iff ix_GetByKey_def key)
  moreover have "enqueue (MetaObj ?m) q = wq_Add (StringItem k) q"
    using ix_inv_key [OF inv k] by (simp add: enqueue_def MetaNamespaceKeyFunc_def)
  ultimately show ?thesis using SplitMetaNamespaceKey_pair [OF assms(4,5)] key by blast
qed

section \<open>Examples\<close>

lemma fresh_meta: "om_Namespace (mp_Meta fresh_proxy) = ''default''"
  "om_Name (mp_Meta fresh_proxy) = ''sharded-example''" "\<not> settled fresh_proxy"
  by (simp_all add: fresh_proxy_def sharded_proxy_def settled_def)

lemma fresh_get: "get_proxy fresh_cluster ''default'' ''sharded-example'' = Inr fresh_proxy"
  by (simp add: get_proxy_iff fresh_cluster_def meta_key_def fresh_meta new_indexer_def)

lemma cluster_inv_fresh: "cluster_inv fresh_cluster"
  using cluster_inv_serving by (simp add: cluster_inv_def fresh_cluster_def ix_Add_inv ix_inv_empty)

lemma fresh_misses:
  "isl (lister_Get ''service'' (cl_services fresh_cluster) ''default'' (GetProxyServiceName fresh_proxy))"
  "isl (lister_Get ''configmap'' (cl_configmaps fresh_cluster) ''default'' (MakeName (''sharded-example-config-'') ss))"
  "owned_deployments fresh_cluster p = {}"
  by (simp_all add: lister_Get_def ix_GetByKey_def fresh_cluster_def serving_cluster_def empty_cluster_def new_indexer_def
      GetProxyServiceName_def MakeName_def fresh_meta memcached_service_def meta_key_def owned_deployments_def
      objects_def example_configmap_def)

lemma fresh_owns_nothing: "owned_configmaps fresh_cluster fresh_proxy = {}"
proof -
  have "objects (cl_configmaps fresh_cluster) = {example_configmap}"
    by (simp add: fresh_cluster_def objects_single)
  moreover have "\<not> IsControlledBy (cm_Meta example_configmap) (mp_Meta fresh_proxy)"
    by (auto simp: example_configmap_def IsControlledBy_def GetControllerOf_single NewProxyOwnerRef_def NewOwnerRef_def NewControllerRef_def
        fresh_proxy_def sharded_proxy_def example_proxy_def Let_def)
  ultimately show ?thesis by (auto simp: owned_configmaps_def)
qed

lemma fresh_renderable: "renderable fresh_cluster (ApplyDefaults fresh_proxy)"
proof -
  have "mp_Spec (ApplyDefaults fresh_proxy) = mp_Spec (ApplyDefaults sharded_proxy)"
    by (simp add: fresh_proxy_def ApplyDefaults_def)
  also have "\<dots> = mp_Spec sharded_proxy" by (simp add: sharded_proxy_def ApplyDefaults_idem)
  finally show ?thesis
    using renderable_cong [of fresh_cluster serving_cluster "ApplyDefaults fresh_proxy" sharded_proxy] renderable_example(1)
    by (simp add: fresh_cluster_def)
qed

theorem provisioning_witness:
  "cl_actions (ctl_cluster (snd (proxy_syncHandler accepting_env ''default/sharded-example'' (start fresh_cluster))))
     = [UpdateProxy ''default'' (seen fresh_proxy)]
   \<and> (\<exists>s. cl_actions (ctl_cluster (snd (service_syncHandler accepting_env ''default/sharded-example''
       (start (apply_delta (SetProxy (seen fresh_proxy)) fresh_cluster))))) = [CreateService ''default'' s])"
proof -
  have names: "CHR ''/'' \<notin> set ''default''" "CHR ''/'' \<notin> set ''sharded-example''" "''default'' \<noteq> []" by simp_all
  have eqs: "cl_actions fresh_cluster = []" "''default'' @ ''/'' @ ''sharded-example'' = ''default/sharded-example''"
    by (simp_all add: fresh_cluster_def serving_cluster_def empty_cluster_def)
  show ?thesis
  proof (rule provisioning [OF cluster_inv_fresh permutes_keys_accepting(1) permutes_keys_accepting(1) fresh_meta(1,2) names(3,1,2)
      fresh_get fresh_meta(3) fresh_misses(1) fresh_owns_nothing fresh_misses(3) fresh_renderable,
      of accepting_env accepting_env, unfolded Let_def eqs append_Nil, THEN conjE])
    show "isl (lister_Get ''configmap'' (cl_configmaps fresh_cluster) ''default'' (MakeName (''sharded-example'' @ ''-config-'') ss))"
      for ss using fresh_misses(2) by simp
  qed blast
qed

theorem key_roundtrip_witness:
  "\<exists>key ns name. SplitMetaNamespaceKey key = Inr (ns, name) \<and> get_proxy fresh_cluster ns name = Inr fresh_proxy"
proof -
  have "fresh_proxy \<in> objects (cl_proxies fresh_cluster)" by (simp add: fresh_cluster_def objects_added)
  from key_roundtrip [OF cluster_inv_fresh this, of "new_rlq (\<lambda>_. 0)"] show ?thesis by (auto simp: fresh_meta)
qed

end
